(* ===== verification/Go_Prelude.thy ===== *)
theory Go_Prelude
  imports Main "HOL-Library.Char_ord" "HOL-Library.List_Lexorder" "HOL-Library.Sublist"
begin

text \<open>
  Shared vocabulary of the development: Go strings as byte strings, the runes they decode to,
  the pieces of the packages \<open>strings\<close>, \<open>unicode\<close> and \<open>unicode/utf8\<close> the server uses, results
  with an error case, and the generic lemmas the component theories share.

  A Go \<open>string\<close> is a HOL \<open>string\<close> whose characters are the bytes. The Unicode tables beyond ASCII
  are data of the Go standard library and are the fields of the record \<open>unicode\<close>; the ASCII part,
  the white space set and the UTF-8 coding are written out.
\<close>

named_theorems go_simps \<open>unfolding rules of the standard-library models\<close>

section \<open>Results\<close>

text \<open>A Go function returning \<open>(T, error)\<close> is a function into \<open>'e + 'a\<close>, \<open>Inl\<close> the error.\<close>

definition bind_r :: "'e + 'a \<Rightarrow> ('a \<Rightarrow> 'e + 'b) \<Rightarrow> 'e + 'b" where
  "bind_r m f = (case m of Inl e \<Rightarrow> Inl e | Inr x \<Rightarrow> f x)"

lemma bind_r_simps [simp]:
  "bind_r (Inl e) f = Inl e"
  "bind_r (Inr x) f = f x"
  by (simp_all add: bind_r_def)

lemma bind_r_Inr_iff: "bind_r m f = Inr y \<longleftrightarrow> (\<exists>x. m = Inr x \<and> f x = Inr y)"
  by (cases m) auto

lemma bind_r_Inl_iff: "bind_r m f = Inl e \<longleftrightarrow> m = Inl e \<or> (\<exists>x. m = Inr x \<and> f x = Inl e)"
  by (cases m) auto

lemma bind_r_cong [fundef_cong]:
  "m = m' \<Longrightarrow> (\<And>x. m' = Inr x \<Longrightarrow> f x = f' x) \<Longrightarrow> bind_r m f = bind_r m' f'"
  by (cases m') auto

text \<open>A Go loop over a slice that stops at the first error.\<close>

fun map_r :: "('a \<Rightarrow> 'e + 'b) \<Rightarrow> 'a list \<Rightarrow> 'e + 'b list" where
  "map_r f [] = Inr []"
| "map_r f (x # xs) = bind_r (f x) (\<lambda>y. bind_r (map_r f xs) (\<lambda>ys. Inr (y # ys)))"

fun fold_r :: "('a \<Rightarrow> 's \<Rightarrow> 'e + 's) \<Rightarrow> 'a list \<Rightarrow> 's \<Rightarrow> 'e + 's" where
  "fold_r f [] s = Inr s"
| "fold_r f (x # xs) s = bind_r (f x s) (fold_r f xs)"

lemma map_r_cong [fundef_cong]:
  "xs = ys \<Longrightarrow> (\<And>x. x \<in> set ys \<Longrightarrow> f x = g x) \<Longrightarrow> map_r f xs = map_r g ys"
proof (induction ys arbitrary: xs)
  case (Cons y ys)
  then have "map_r f ys = map_r g ys" by simp
  with Cons.prems show ?case by simp
qed simp

lemma map_r_Inr_length: "map_r f xs = Inr ys \<Longrightarrow> length ys = length xs"
  by (induction xs arbitrary: ys) (auto simp: bind_r_Inr_iff)

lemma map_r_Inr_nth:
  "map_r f xs = Inr ys \<Longrightarrow> i < length xs \<Longrightarrow> f (xs ! i) = Inr (ys ! i)"
  by (induction xs arbitrary: ys i) (auto simp: bind_r_Inr_iff nth_Cons split: nat.splits)

lemma map_r_Inr_iff: "map_r f xs = Inr ys \<longleftrightarrow> list_all2 (\<lambda>x y. f x = Inr y) xs ys"
  by (induction xs arbitrary: ys)
     (auto simp: bind_r_Inr_iff list_all2_Cons1)

lemma fold_r_invariant:
  assumes "fold_r f xs s = Inr t" and "P s"
    and "\<And>x s s'. x \<in> set xs \<Longrightarrow> P s \<Longrightarrow> f x s = Inr s' \<Longrightarrow> P s'"
  shows "P t"
  using assms
proof (induction xs arbitrary: s)
  case (Cons x xs)
  from Cons.prems(1) obtain s1 where s1: "f x s = Inr s1" and rest: "fold_r f xs s1 = Inr t"
    by (auto simp: bind_r_Inr_iff)
  show ?case
  proof (rule Cons.IH [OF rest])
    show "P s1" using Cons.prems(2,3) s1 by auto
    show "\<And>x s s'. x \<in> set xs \<Longrightarrow> P s \<Longrightarrow> f x s = Inr s' \<Longrightarrow> P s'"
      using Cons.prems(3) by auto
  qed
qed simp

lemma fold_r_append:
  "fold_r f (xs @ ys) s = bind_r (fold_r f xs s) (fold_r f ys)"
proof (induction xs arbitrary: s)
  case (Cons x xs)
  then show ?case by (cases "f x s") auto
qed simp

section \<open>Runes and UTF-8\<close>

type_synonym rune = nat

definition rune_error :: rune where
  "rune_error = 65533"

abbreviation byte_val :: "char \<Rightarrow> nat" where
  "byte_val c \<equiv> of_char c"

definition is_cont :: "char \<Rightarrow> bool" where
  "is_cont c \<longleftrightarrow> 128 \<le> byte_val c \<and> byte_val c \<le> 191"

text \<open>
  The bounds of the second byte that \<open>utf8.DecodeRune\<close> accepts after a first byte, with the
  length of the encoding; \<open>None\<close> for a byte that starts no encoding.
\<close>

definition utf8_class :: "nat \<Rightarrow> (nat \<times> nat \<times> nat) option" where
  "utf8_class b =
     (if b < 128 then Some (1, 0, 0)
      else if b < 194 then None
      else if b < 224 then Some (2, 128, 191)
      else if b = 224 then Some (3, 160, 191)
      else if b = 237 then Some (3, 128, 159)
      else if b < 240 then Some (3, 128, 191)
      else if b = 240 then Some (4, 144, 191)
      else if b < 244 then Some (4, 128, 191)
      else if b = 244 then Some (4, 128, 143)
      else None)"

fun decode_rune :: "char \<Rightarrow> string \<Rightarrow> rune \<times> nat" where
  "decode_rune c s =
     (case utf8_class (byte_val c) of
        None \<Rightarrow> (rune_error, 1)
      | Some (n, lo, hi) \<Rightarrow>
          if n = 1 then (byte_val c, 1)
          else (case s of
                  [] \<Rightarrow> (rune_error, 1)
                | c1 # s1 \<Rightarrow>
                    if \<not> (lo \<le> byte_val c1 \<and> byte_val c1 \<le> hi) then (rune_error, 1)
                    else if n = 2 then ((byte_val c mod 32) * 64 + byte_val c1 mod 64, 2)
                    else (case s1 of
                            [] \<Rightarrow> (rune_error, 1)
                          | c2 # s2 \<Rightarrow>
                              if \<not> is_cont c2 then (rune_error, 1)
                              else if n = 3
                              then ((byte_val c mod 16) * 4096 + (byte_val c1 mod 64) * 64
                                     + byte_val c2 mod 64, 3)
                              else (case s2 of
                                      [] \<Rightarrow> (rune_error, 1)
                                    | c3 # _ \<Rightarrow>
                                        if \<not> is_cont c3 then (rune_error, 1)
                                        else ((byte_val c mod 8) * 262144
                                               + (byte_val c1 mod 64) * 4096
                                               + (byte_val c2 mod 64) * 64
                                               + byte_val c3 mod 64, 4)))))"

declare decode_rune.simps [simp del]

text \<open>\<open>[]rune(s)\<close>: every invalid byte becomes one replacement character.\<close>

function runes :: "string \<Rightarrow> rune list" where
  "runes [] = []"
| "runes (c # s) = (let (r, n) = decode_rune c s in r # runes (drop (n - 1) s))"
  by pat_completeness auto
termination by (relation "measure length") auto

text \<open>\<open>string(runes)\<close>: surrogates and values past the last code point are the replacement.\<close>

definition encode_rune :: "rune \<Rightarrow> string" where
  "encode_rune r0 =
     (let r = (if 1114111 < r0 \<or> (55296 \<le> r0 \<and> r0 \<le> 57343) then rune_error else r0)
      in if r < 128 then [char_of r]
         else if r < 2048 then [char_of (192 + r div 64), char_of (128 + r mod 64)]
         else if r < 65536
         then [char_of (224 + r div 4096), char_of (128 + (r div 64) mod 64),
               char_of (128 + r mod 64)]
         else [char_of (240 + r div 262144), char_of (128 + (r div 4096) mod 64),
               char_of (128 + (r div 64) mod 64), char_of (128 + r mod 64)])"

definition of_runes :: "rune list \<Rightarrow> string" where
  "of_runes rs = concat (map encode_rune rs)"

definition valid_rune :: "rune \<Rightarrow> bool" where
  "valid_rune r \<longleftrightarrow> r \<le> 1114111 \<and> \<not> (55296 \<le> r \<and> r \<le> 57343)"

lemma of_runes_simps [simp]:
  "of_runes [] = []"
  "of_runes (r # rs) = encode_rune r @ of_runes rs"
  "of_runes (rs @ rs') = of_runes rs @ of_runes rs'"
  by (simp_all add: of_runes_def)

definition is_ascii :: "string \<Rightarrow> bool" where
  "is_ascii s \<longleftrightarrow> (\<forall>c \<in> set s. byte_val c < 128)"

lemma is_ascii_simps [simp]:
  "is_ascii []"
  "is_ascii (c # s) \<longleftrightarrow> byte_val c < 128 \<and> is_ascii s"
  "is_ascii (s @ t) \<longleftrightarrow> is_ascii s \<and> is_ascii t"
  by (auto simp: is_ascii_def)

lemma decode_rune_ascii [simp]: "byte_val c < 128 \<Longrightarrow> decode_rune c s = (byte_val c, 1)"
  by (simp add: decode_rune.simps utf8_class_def)

lemma runes_ascii: "is_ascii s \<Longrightarrow> runes s = map byte_val s"
  by (induction s) auto

lemma encode_rune_ascii: "r < 128 \<Longrightarrow> encode_rune r = [char_of r]"
  by (simp add: encode_rune_def)

lemma of_runes_ascii: "is_ascii s \<Longrightarrow> of_runes (map byte_val s) = s"
  by (induction s) (auto simp: encode_rune_ascii)

lemma length_runes_le: "length (runes s) \<le> length s"
proof (induction s rule: runes.induct)
  case (2 c s)
  obtain r n where rn: "decode_rune c s = (r, n)" by (cases "decode_rune c s")
  have "length (runes (drop (n - 1) s)) \<le> length (drop (n - 1) s)"
    using 2 [OF rn [symmetric]] by simp
  then show ?case using rn by simp
qed simp

text \<open>Decoding reads back what was encoded.\<close>

lemma add_mult_mod: "a < m \<Longrightarrow> (k * m + a) mod m = (a::nat)"
  by simp

lemma split64: "(r::nat) div 64 * 64 + r mod 64 = r"
  by simp

lemma split4096: "(r::nat) div 4096 * 4096 + r div 64 mod 64 * 64 + r mod 64 = r"
proof -
  have "r div 4096 = r div 64 div 64" by (simp flip: div_mult2_eq)
  then show ?thesis using split64 [of r] split64 [of "r div 64"] by linarith
qed

lemma split262144:
  "(r::nat) div 262144 * 262144 + r div 4096 mod 64 * 4096 + r div 64 mod 64 * 64 + r mod 64 = r"
proof -
  have "r div 262144 = r div 4096 div 64" by (simp flip: div_mult2_eq)
  then show ?thesis using split4096 [of r] split64 [of "r div 4096"] by linarith
qed

lemmas utf8_mods =
  add_mult_mod [where k = 6 and m = 32, simplified]
  add_mult_mod [where k = 14 and m = 16, simplified]
  add_mult_mod [where k = 30 and m = 8, simplified]
  add_mult_mod [where k = 2 and m = 64, simplified]

lemma decode_encode_rune:
  assumes "valid_rune r"
  shows "\<exists>c s. encode_rune r = c # s \<and> decode_rune c (s @ t) = (r, Suc (length s))"
proof -
  have e: "encode_rune r =
     (if r < 128 then [char_of r]
      else if r < 2048 then [char_of (192 + r div 64), char_of (128 + r mod 64)]
      else if r < 65536
      then [char_of (224 + r div 4096), char_of (128 + (r div 64) mod 64),
            char_of (128 + r mod 64)]
      else [char_of (240 + r div 262144), char_of (128 + (r div 4096) mod 64),
            char_of (128 + (r div 64) mod 64), char_of (128 + r mod 64)])"
    using assms by (auto simp: encode_rune_def valid_rune_def Let_def)
  consider (a) "r < 128" | (b) "128 \<le> r" "r < 2048" | (c) "2048 \<le> r" "r < 65536"
    | (d) "65536 \<le> r" by linarith
  then show ?thesis
  proof cases
    case a
    then show ?thesis by (simp add: e)
  next
    case b
    define x y where "x = r div 64" and "y = r mod 64"
    have h: "x < 32" "2 \<le> x" "y < 64" and v: "x * 64 + y = r"
      using b split64 [of r] by (auto simp: x_def y_def)
    from b e have "encode_rune r = [char_of (192 + x), char_of (128 + y)]"
      by (simp add: x_def y_def)
    with h v show ?thesis
      by (simp add: decode_rune.simps utf8_class_def utf8_mods)
  next
    case c
    define x y z where "x = r div 4096" and "y = r div 64 mod 64" and "z = r mod 64"
    have v: "x * 4096 + y * 64 + z = r" using split4096 by (simp add: x_def y_def z_def)
    have h: "x < 16" "y < 64" "z < 64" using c by (auto simp: x_def y_def z_def)
    have lo: "x = 0 \<longrightarrow> 32 \<le> y" and sur: "x = 13 \<longrightarrow> y < 32"
      using v h c assms unfolding valid_rune_def by linarith+
    from c e have "encode_rune r = [char_of (224 + x), char_of (128 + y), char_of (128 + z)]"
      by (simp add: x_def y_def z_def)
    with h v lo sur show ?thesis
      by (auto simp: decode_rune.simps utf8_class_def is_cont_def utf8_mods)
  next
    case d
    define w x y z where "w = r div 262144" and "x = r div 4096 mod 64"
      and "y = r div 64 mod 64" and "z = r mod 64"
    have v: "w * 262144 + x * 4096 + y * 64 + z = r"
      using split262144 by (simp add: w_def x_def y_def z_def)
    have h: "w < 5" "x < 64" "y < 64" "z < 64"
      using assms by (auto simp: valid_rune_def w_def x_def y_def z_def)
    have lo: "w = 0 \<longrightarrow> 16 \<le> x" and hi: "w = 4 \<longrightarrow> x < 16"
      using v h d assms unfolding valid_rune_def by linarith+
    from d e have "encode_rune r =
        [char_of (240 + w), char_of (128 + x), char_of (128 + y), char_of (128 + z)]"
      by (simp add: w_def x_def y_def z_def)
    with h v lo hi show ?thesis
      by (cases "w = 4") (auto simp: decode_rune.simps utf8_class_def is_cont_def utf8_mods)
  qed
qed

lemma runes_encode_append:
  assumes "valid_rune r"
  shows "runes (encode_rune r @ t) = r # runes t"
proof -
  obtain c s where cs: "encode_rune r = c # s"
    and d: "decode_rune c (s @ t) = (r, Suc (length s))"
    using decode_encode_rune [OF assms] by blast
  then show ?thesis by simp
qed

lemma runes_of_runes: "\<forall>r \<in> set rs. valid_rune r \<Longrightarrow> runes (of_runes rs) = rs"
  by (induction rs) (auto simp: runes_encode_append)

text \<open>Decoding only yields code points that can be encoded.\<close>

lemma cont_mod: "128 \<le> y \<Longrightarrow> y \<le> 191 \<Longrightarrow> (y::nat) mod 64 = y - 128"
proof -
  assume a: "128 \<le> y" "y \<le> 191"
  then obtain z where z: "y = 128 + z" using le_Suc_ex by blast
  with a have "z < 64" by simp
  with z show ?thesis by (simp add: utf8_mods)
qed

lemma lead2_mod: "192 \<le> b \<Longrightarrow> b < 224 \<Longrightarrow> (b::nat) mod 32 = b - 192"
proof -
  assume a: "192 \<le> b" "b < 224"
  then obtain z where z: "b = 192 + z" using le_Suc_ex by blast
  with a have "z < 32" by simp
  with z show ?thesis by (simp add: utf8_mods)
qed

lemma lead3_mod: "224 \<le> b \<Longrightarrow> b < 240 \<Longrightarrow> (b::nat) mod 16 = b - 224"
proof -
  assume a: "224 \<le> b" "b < 240"
  then obtain z where z: "b = 224 + z" using le_Suc_ex by blast
  with a have "z < 16" by simp
  with z show ?thesis by (simp add: utf8_mods)
qed

lemma lead4_mod: "240 \<le> b \<Longrightarrow> b < 248 \<Longrightarrow> (b::nat) mod 8 = b - 240"
proof -
  assume a: "240 \<le> b" "b < 248"
  then obtain z where z: "b = 240 + z" using le_Suc_ex by blast
  with a have "z < 8" by simp
  with z show ?thesis by (simp add: utf8_mods)
qed

lemma valid_rune_error [simp]: "valid_rune rune_error"
  by (simp add: valid_rune_def rune_error_def)

lemma decode_rune_valid:
  assumes "decode_rune c s = (r, n)"
  shows "valid_rune r"
proof (cases "r = rune_error \<or> byte_val c < 128")
  case True
  with assms show ?thesis by (auto simp: valid_rune_def rune_error_def)
next
  case False
  then show ?thesis
    using assms
    by (auto simp: decode_rune.simps utf8_class_def is_cont_def cont_mod lead2_mod lead3_mod
        lead4_mod valid_rune_def split: if_splits list.splits) linarith+
qed

lemma runes_valid: "r \<in> set (runes s) \<Longrightarrow> valid_rune r"
proof (induction s rule: runes.induct)
  case (2 c s)
  obtain r0 n where d: "decode_rune c s = (r0, n)" by (cases "decode_rune c s")
  with 2 decode_rune_valid [OF d] show ?case by (auto simp: Let_def)
qed simp

section \<open>The Unicode tables\<close>

text \<open>
  The tables of \<open>unicode\<close> for code points from 128 on. A theorem holds for every such table;
  \<open>ascii_only\<close> is the instance the witnesses evaluate with.
\<close>

record unicode =
  uni_lower :: "rune \<Rightarrow> rune"
  uni_upper :: "rune \<Rightarrow> rune"
  uni_letter :: "rune \<Rightarrow> bool"
  uni_digit :: "rune \<Rightarrow> bool"

definition ascii_only :: unicode where
  "ascii_only = \<lparr>uni_lower = id, uni_upper = id, uni_letter = (\<lambda>_. False), uni_digit = (\<lambda>_. False)\<rparr>"

definition rune_lower :: "unicode \<Rightarrow> rune \<Rightarrow> rune" where
  "rune_lower U r =
     (if r < 128 then (if 65 \<le> r \<and> r \<le> 90 then r + 32 else r) else uni_lower U r)"

definition rune_upper :: "unicode \<Rightarrow> rune \<Rightarrow> rune" where
  "rune_upper U r =
     (if r < 128 then (if 97 \<le> r \<and> r \<le> 122 then r - 32 else r) else uni_upper U r)"

definition rune_is_letter :: "unicode \<Rightarrow> rune \<Rightarrow> bool" where
  "rune_is_letter U r =
     (if r < 128 then (65 \<le> r \<and> r \<le> 90) \<or> (97 \<le> r \<and> r \<le> 122) else uni_letter U r)"

definition rune_is_digit :: "unicode \<Rightarrow> rune \<Rightarrow> bool" where
  "rune_is_digit U r = (if r < 128 then 48 \<le> r \<and> r \<le> 57 else uni_digit U r)"

text \<open>\<open>unicode.IsSpace\<close>: the White_Space property, in full.\<close>

definition rune_is_space :: "rune \<Rightarrow> bool" where
  "rune_is_space r \<longleftrightarrow>
     (9 \<le> r \<and> r \<le> 13) \<or> r = 32 \<or> r = 133 \<or> r = 160 \<or> r = 5760 \<or>
     (8192 \<le> r \<and> r \<le> 8202) \<or> r = 8232 \<or> r = 8233 \<or> r = 8239 \<or> r = 8287 \<or> r = 12288"

section \<open>The package strings\<close>

text \<open>\<open>strings.ToLower\<close> and \<open>strings.ToUpper\<close> map rune by rune.\<close>

definition to_lower :: "unicode \<Rightarrow> string \<Rightarrow> string" where
  "to_lower U s = of_runes (map (rune_lower U) (runes s))"

definition to_upper :: "unicode \<Rightarrow> string \<Rightarrow> string" where
  "to_upper U s = of_runes (map (rune_upper U) (runes s))"

text \<open>
  \<open>strings.EqualFold\<close> of any string with a word of ASCII letters. Under simple case folding
  the letters \<open>k\<close> and \<open>s\<close> have a third member: the Kelvin sign and the long s.
\<close>

definition fold_eq_ascii :: "rune \<Rightarrow> rune \<Rightarrow> bool" where
  "fold_eq_ascii r a \<longleftrightarrow>
     rune_lower ascii_only r = rune_lower ascii_only a \<and> r < 128
     \<or> r = 8490 \<and> a \<in> {75, 107} \<or> r = 383 \<and> a \<in> {83, 115}"

definition equal_fold :: "string \<Rightarrow> string \<Rightarrow> bool" where
  "equal_fold s word = list_all2 fold_eq_ascii (runes s) (map byte_val word)"

text \<open>
  \<open>strings.TrimSpace\<close> on bytes. Every white space code point has one encoding; at either end of
  the string it is recognised by its bytes, since no encoding is a proper suffix of another
  rune's encoding.
\<close>

definition space_encodings :: "string list" where
  "space_encodings =
     map encode_rune [9, 10, 11, 12, 13, 32, 133, 160, 5760, 8192, 8193, 8194, 8195, 8196, 8197,
                       8198, 8199, 8200, 8201, 8202, 8232, 8233, 8239, 8287, 12288]"

lemma space_encodings_not_Nil: "[] \<notin> set space_encodings"
  by (auto simp: space_encodings_def encode_rune_def Let_def)

lemma find_space_nonempty: "find (\<lambda>e. prefix e s) encs = Some e \<Longrightarrow> [] \<notin> set encs \<Longrightarrow> e \<noteq> []"
  by (induction encs) (auto split: if_splits)

lemma find_prefix: "find (\<lambda>e. prefix e s) encs = Some e \<Longrightarrow> prefix e s \<and> e \<in> set encs"
  by (induction encs) (auto split: if_splits)

fun strip_enc :: "nat \<Rightarrow> string list \<Rightarrow> string \<Rightarrow> string" where
  "strip_enc 0 encs s = s"
| "strip_enc (Suc n) encs s =
     (case find (\<lambda>e. prefix e s) encs of
        None \<Rightarrow> s
      | Some e \<Rightarrow> strip_enc n encs (drop (length e) s))"

definition trim_left :: "string \<Rightarrow> string" where
  "trim_left s = strip_enc (length s) space_encodings s"

definition trim_right :: "string \<Rightarrow> string" where
  "trim_right s = rev (strip_enc (length s) (map rev space_encodings) (rev s))"

definition trim_space :: "string \<Rightarrow> string" where
  "trim_space s = trim_right (trim_left s)"

lemma strip_enc_suffix: "suffix (strip_enc n encs s) s"
proof (induction n arbitrary: s)
  case (Suc n)
  show ?case
  proof (cases "find (\<lambda>e. prefix e s) encs")
    case (Some e)
    have "suffix (strip_enc n encs (drop (length e) s)) (drop (length e) s)" by (rule Suc)
    with Some show ?thesis by (simp add: suffix_order.trans [OF _ suffix_drop])
  qed simp
qed simp

lemma length_strip_enc: "length (strip_enc n encs s) \<le> length s"
  using strip_enc_suffix [of n encs s] by (simp add: suffix_length_le)

text \<open>The fuel \<open>length s\<close> is enough: nothing is left to strip.\<close>

lemma strip_enc_done:
  "[] \<notin> set encs \<Longrightarrow> length s \<le> n \<Longrightarrow> find (\<lambda>e. prefix e (strip_enc n encs s)) encs = None"
proof (induction n arbitrary: s)
  case 0
  then show ?case by (auto simp: find_None_iff)
next
  case (Suc n)
  show ?case
  proof (cases "find (\<lambda>e. prefix e s) encs")
    case (Some e)
    from find_prefix [OF Some] find_space_nonempty [OF Some Suc.prems(1)]
    have "prefix e s" "e \<noteq> []" by auto
    with Suc.prems have "length (drop (length e) s) \<le> n" by (cases e) auto
    with Suc Some show ?thesis by simp
  qed simp
qed

lemma trim_space_length: "length (trim_space s) \<le> length s"
proof -
  have "length (trim_right t) \<le> length t" for t
    using length_strip_enc [of "length t" "map rev space_encodings" "rev t"]
    by (simp add: trim_right_def)
  moreover have "length (trim_left s) \<le> length s"
    by (simp add: trim_left_def length_strip_enc)
  ultimately show ?thesis unfolding trim_space_def using order_trans by blast
qed

lemma trim_space_Nil [simp]: "trim_space [] = []"
  by (simp add: trim_space_def trim_right_def trim_left_def)

lemma strip_enc_id: "find (\<lambda>e. prefix e s) encs = None \<Longrightarrow> strip_enc n encs s = s"
  by (cases n) auto

lemma trim_left_stable: "find (\<lambda>e. prefix e (trim_left s)) space_encodings = None"
  unfolding trim_left_def by (rule strip_enc_done [OF space_encodings_not_Nil order_refl])

lemma trim_right_stable:
  "find (\<lambda>e. prefix e (rev (trim_right s))) (map rev space_encodings) = None"
  unfolding trim_right_def rev_rev_ident
  by (rule strip_enc_done) (use space_encodings_not_Nil in auto)

lemma trim_right_prefix: "prefix (trim_right s) s"
  using strip_enc_suffix [of "length s" "map rev space_encodings" "rev s"]
  by (simp add: trim_right_def suffix_to_prefix)

lemma trim_space_idem [simp]: "trim_space (trim_space s) = trim_space s"
proof -
  let ?t = "trim_space s"
  have "find (\<lambda>e. prefix e ?t) space_encodings = None"
    using trim_left_stable [of s] trim_right_prefix [of "trim_left s"]
    by (auto simp: trim_space_def find_None_iff intro: prefix_order.trans)
  then have "trim_left ?t = ?t" by (simp add: trim_left_def strip_enc_id)
  moreover have "trim_right ?t = ?t"
    using strip_enc_id [OF trim_right_stable [of "trim_left s"]]
    by (simp add: trim_space_def trim_right_def [of "trim_right (trim_left s)"])
  ultimately show ?thesis by (simp add: trim_space_def [of ?t])
qed

text \<open>A string whose first and last bytes are printable ASCII is not trimmed.\<close>

definition visible :: "char \<Rightarrow> bool" where
  "visible c \<longleftrightarrow> 33 \<le> byte_val c \<and> byte_val c < 127"

lemma space_encodings_hd: "e \<in> set space_encodings \<Longrightarrow> e \<noteq> [] \<and> \<not> visible (hd e)"
proof -
  have "list_all (\<lambda>e. e \<noteq> [] \<and> \<not> visible (hd e)) space_encodings"
    by (simp add: space_encodings_def encode_rune_def visible_def)
  then show "e \<in> set space_encodings \<Longrightarrow> ?thesis" by (auto simp: list_all_iff)
qed

lemma space_encodings_last: "e \<in> set space_encodings \<Longrightarrow> e \<noteq> [] \<and> \<not> visible (last e)"
proof -
  have "list_all (\<lambda>e. e \<noteq> [] \<and> \<not> visible (last e)) space_encodings"
    by (simp add: space_encodings_def encode_rune_def visible_def)
  then show "e \<in> set space_encodings \<Longrightarrow> ?thesis" by (auto simp: list_all_iff)
qed

lemma trim_space_visible [simp]:
  assumes "s \<noteq> []" and "visible (hd s)" and "visible (last s)"
  shows "trim_space s = s"
proof -
  have "\<not> prefix e s" if "e \<in> set space_encodings" for e
    using space_encodings_hd [OF that] assms by (cases s; cases e) auto
  then have l: "trim_left s = s"
    by (auto simp: trim_left_def find_None_iff intro: strip_enc_id)
  have "\<not> prefix (rev e) (rev s)" if "e \<in> set space_encodings" for e
  proof
    assume "prefix (rev e) (rev s)"
    then obtain u where "s = u @ e" by (auto simp: suffix_to_prefix [symmetric] suffix_def)
    with space_encodings_last [OF that] assms(3) show False by simp
  qed
  then have "trim_right s = s"
    by (auto simp: trim_right_def find_None_iff strip_enc_id)
  with l show ?thesis by (simp add: trim_space_def)
qed

text \<open>\<open>strings.Contains\<close>, \<open>Split\<close>, \<open>SplitN(s, sep, 2)\<close>, \<open>Join\<close>, \<open>ReplaceAll\<close>, \<open>Count\<close>.\<close>

definition contains :: "string \<Rightarrow> string \<Rightarrow> bool" where
  "contains s sub = sublist sub s"

fun split_char :: "char \<Rightarrow> string \<Rightarrow> string list" where
  "split_char sep [] = [[]]"
| "split_char sep (c # s) =
     (if c = sep then [] # split_char sep s
      else (case split_char sep s of
              [] \<Rightarrow> [[c]]
            | f # fs \<Rightarrow> (c # f) # fs))"

lemma split_char_not_Nil [simp]: "split_char sep s \<noteq> []"
  by (induction s) (auto split: list.splits)

fun cut_at :: "string \<Rightarrow> string \<Rightarrow> (string \<times> string) option" where
  "cut_at sep s =
     (if prefix sep s then Some ([], drop (length sep) s)
      else (case s of
              [] \<Rightarrow> None
            | c # s' \<Rightarrow> map_option (\<lambda>(a, b). (c # a, b)) (cut_at sep s')))"

declare cut_at.simps [simp del]

lemma cut_at_Some: "cut_at sep s = Some (a, b) \<Longrightarrow> s = a @ sep @ b"
proof (induction sep s arbitrary: a rule: cut_at.induct)
  case (1 sep s)
  then show ?case
    by (subst (asm) (2) cut_at.simps)
       (auto split: if_splits list.splits option.splits elim!: prefixE)
qed

lemma contains_cut_at: "contains s sep \<longleftrightarrow> cut_at sep s \<noteq> None"
proof (induction sep s rule: cut_at.induct)
  case (1 sep s)
  then show ?case
    by (subst cut_at.simps)
       (auto simp: contains_def sublist_Cons_right split: list.splits)
qed

fun join :: "string \<Rightarrow> string list \<Rightarrow> string" where
  "join sep [] = []"
| "join sep [x] = x"
| "join sep (x # y # xs) = x @ sep @ join sep (y # xs)"

lemma join_split_char: "join [sep] (split_char sep s) = s"
proof (induction s)
  case (Cons c s)
  then show ?case
    by (cases "split_char sep s"; cases "tl (split_char sep s)") (auto split: list.splits)
qed simp

text \<open>
  \<open>strings.ReplaceAll\<close>: the leftmost matches that do not overlap; an empty old text matches before
  every UTF-8 sequence and at the end.
\<close>

fun rune_chunks :: "string \<Rightarrow> string list" where
  "rune_chunks [] = []"
| "rune_chunks (c # s) =
     (let w = snd (decode_rune c s) in (c # take (w - 1) s) # rune_chunks (drop (w - 1) s))"

declare rune_chunks.simps [simp del]

function replace_all :: "string \<Rightarrow> string \<Rightarrow> string \<Rightarrow> string" where
  "replace_all s old new =
     (if old = [] then concat (map (\<lambda>ch. new @ ch) (rune_chunks s)) @ new
      else case cut_at old s of
             None \<Rightarrow> s
           | Some (a, b) \<Rightarrow> a @ new @ replace_all b old new)"
  by pat_completeness auto
termination
  by (relation "measure (\<lambda>(s, _). length s)") (auto dest!: cut_at_Some)

declare replace_all.simps [simp del]

lemma cut_at_char: "cut_at [q] (c # s) =
    (if c = q then Some ([], s) else map_option (\<lambda>(a, b). (c # a, b)) (cut_at [q] s))"
  by (subst cut_at.simps) simp

lemma replace_all_Cons:
  "replace_all (c # s) [q] new = (if c = q then new @ replace_all s [q] new else c # replace_all s [q] new)"
proof (cases "c = q")
  case True
  then show ?thesis by (subst replace_all.simps) (simp add: cut_at_char)
next
  case False
  then show ?thesis
    by (subst (1 2) replace_all.simps) (auto simp: cut_at_char split: option.splits)
qed

lemma replace_all_char:
  "replace_all s [q] new = concat (map (\<lambda>c. if c = q then new else [c]) s)"
proof (induction s)
  case Nil
  show ?case by (subst replace_all.simps) (simp add: cut_at.simps)
qed (simp add: replace_all_Cons)

text \<open>\<open>strings.Compare\<close>: bytewise lexicographic.\<close>

definition str_compare :: "string \<Rightarrow> string \<Rightarrow> int" where
  "str_compare a b = (if a = b then 0 else if a < b then - 1 else 1)"

lemma str_compare_swap: "str_compare b a = - str_compare a b"
  by (auto simp: str_compare_def)

section \<open>Integers\<close>

text \<open>\<open>strconv.FormatInt(i, 10)\<close> and the wrap-around of a 64-bit \<open>int\<close>.\<close>

fun show_nat :: "nat \<Rightarrow> string" where
  "show_nat n = (if n < 10 then [char_of (48 + n)] else show_nat (n div 10) @ [char_of (48 + n mod 10)])"

declare show_nat.simps [simp del]

definition show_int :: "int \<Rightarrow> string" where
  "show_int i = (if i < 0 then CHR ''-'' # show_nat (nat (- i)) else show_nat (nat i))"

definition digit_val :: "char \<Rightarrow> nat" where
  "digit_val c = byte_val c - 48"

definition read_nat :: "string \<Rightarrow> nat" where
  "read_nat s = foldl (\<lambda>n c. 10 * n + digit_val c) 0 s"

lemma read_show_nat [simp]: "read_nat (show_nat n) = n"
proof (induction n rule: show_nat.induct)
  case (1 n)
  then show ?case
    by (subst show_nat.simps) (auto simp: read_nat_def digit_val_def)
qed

lemma show_nat_inj: "show_nat m = show_nat n \<longleftrightarrow> m = n"
  using read_show_nat by metis

lemma show_nat_digits: "c \<in> set (show_nat n) \<Longrightarrow> 48 \<le> byte_val c \<and> byte_val c \<le> (57::nat)"
proof (induction n rule: show_nat.induct)
  case (1 n)
  from 1(2) show ?case
    by (subst (asm) show_nat.simps) (use 1(1) in \<open>auto split: if_splits\<close>)
qed

lemma show_nat_not_Nil [simp]: "show_nat n \<noteq> []"
  by (subst show_nat.simps) auto

definition wrap64 :: "int \<Rightarrow> int" where
  "wrap64 i = (i + 2 ^ 63) mod 2 ^ 64 - 2 ^ 63"

lemma wrap64_id [simp]: "- (2 ^ 63) \<le> i \<Longrightarrow> i < 2 ^ 63 \<Longrightarrow> wrap64 i = i"
  by (simp add: wrap64_def)

lemma wrap64_range: "- (2 ^ 63) \<le> wrap64 i \<and> wrap64 i < 2 ^ 63"
  by (simp add: wrap64_def)

section \<open>The package sort\<close>

text \<open>\<open>sort.SliceStable\<close> with a comparison that is a strict weak order.\<close>

fun insert_by :: "('a \<Rightarrow> 'a \<Rightarrow> bool) \<Rightarrow> 'a \<Rightarrow> 'a list \<Rightarrow> 'a list" where
  "insert_by lt x [] = [x]"
| "insert_by lt x (y # ys) = (if lt y x then y # insert_by lt x ys else x # y # ys)"

definition stable_sort :: "('a \<Rightarrow> 'a \<Rightarrow> bool) \<Rightarrow> 'a list \<Rightarrow> 'a list" where
  "stable_sort lt xs = foldr (insert_by lt) xs []"

lemma set_insert_by [simp]: "set (insert_by lt x ys) = insert x (set ys)"
  by (induction ys) auto

lemma stable_sort_simps [simp]:
  "stable_sort lt [] = []" "stable_sort lt (x # xs) = insert_by lt x (stable_sort lt xs)"
  by (simp_all add: stable_sort_def)

lemma set_stable_sort [simp]: "set (stable_sort lt xs) = set xs"
  by (induction xs) auto

lemma distinct_insert_by: "distinct (insert_by lt x ys) \<longleftrightarrow> x \<notin> set ys \<and> distinct ys"
  by (induction ys) auto

lemma distinct_stable_sort [simp]: "distinct (stable_sort lt xs) \<longleftrightarrow> distinct xs"
  by (induction xs) (auto simp: distinct_insert_by)

lemma length_insert_by [simp]: "length (insert_by lt x ys) = Suc (length ys)"
  by (induction ys) auto

lemma length_stable_sort [simp]: "length (stable_sort lt xs) = length xs"
  by (induction xs) auto

lemma length_filter_insert_by: "length (filter P (insert_by lt x ys)) = length (filter P (x # ys))"
  by (induction ys) auto

lemma length_filter_stable_sort [simp]: "length (filter P (stable_sort lt xs)) = length (filter P xs)"
  by (induction xs) (auto simp: length_filter_insert_by)

lemma sorted_insert_by:
  assumes "\<And>x y. lt x y \<Longrightarrow> \<not> lt y x" and "\<And>x y z. \<not> lt x y \<Longrightarrow> \<not> lt y z \<Longrightarrow> \<not> lt x z"
  shows "sorted_wrt (\<lambda>x y. \<not> lt y x) ys \<Longrightarrow> sorted_wrt (\<lambda>x y. \<not> lt y x) (insert_by lt x ys)"
proof (induction ys)
  case (Cons y ys)
  show ?case
  proof (cases "lt y x")
    case True
    with Cons show ?thesis by (auto dest: assms(1))
  next
    case False
    with Cons show ?thesis by (auto dest: assms(2) [of _ y x])
  qed
qed simp

lemma sorted_stable_sort:
  assumes "\<And>x y. lt x y \<Longrightarrow> \<not> lt y x" and "\<And>x y z. \<not> lt x y \<Longrightarrow> \<not> lt y z \<Longrightarrow> \<not> lt x z"
  shows "sorted_wrt (\<lambda>x y. \<not> lt y x) (stable_sort lt xs)"
  by (induction xs) (simp_all add: sorted_insert_by [OF assms])

text \<open>In a list sorted for a comparison, how many elements stand on either side of a position.\<close>

lemma sorted_rank:
  assumes "sorted_wrt (\<lambda>x y. \<not> lt y x) ys" and "\<And>x. \<not> lt x x" and "i < length ys"
  shows "i < length (filter (\<lambda>y. \<not> lt (ys ! i) y) ys)"
    and "length ys - i \<le> length (filter (\<lambda>y. \<not> lt y (ys ! i)) ys)"
proof -
  have split: "ys = take (Suc i) ys @ drop (Suc i) ys" "ys = take i ys @ drop i ys" by simp_all
  have le: "\<not> lt (ys ! i) (ys ! j)" if "j \<le> i" for j
    using sorted_wrt_nth_less [OF assms(1), of j i] that assms(2,3) by (cases "j = i") auto
  have ge: "\<not> lt (ys ! j) (ys ! i)" if "i \<le> j" "j < length ys" for j
    using sorted_wrt_nth_less [OF assms(1), of i j] that assms(2) by (cases "j = i") auto
  have "filter (\<lambda>y. \<not> lt (ys ! i) y) (take (Suc i) ys) = take (Suc i) ys"
    using le assms(3) by (auto simp: filter_id_conv in_set_conv_nth)
  then have "Suc i \<le> length (filter (\<lambda>y. \<not> lt (ys ! i) y) (take (Suc i) ys @ drop (Suc i) ys))"
    using assms(3) by (simp only: filter_append length_append) simp
  then show "i < length (filter (\<lambda>y. \<not> lt (ys ! i) y) ys)" by simp
  have "filter (\<lambda>y. \<not> lt y (ys ! i)) (drop i ys) = drop i ys"
    using ge by (auto simp: filter_id_conv in_set_conv_nth)
  then have "length ys - i \<le> length (filter (\<lambda>y. \<not> lt y (ys ! i)) (take i ys @ drop i ys))"
    by (simp only: filter_append length_append) simp
  then show "length ys - i \<le> length (filter (\<lambda>y. \<not> lt y (ys ! i)) ys)" by simp
qed

lemma those_map: "\<forall>x\<in>set xs. f x = Some (g x) \<Longrightarrow> those (map f xs) = Some (map g xs)"
  by (induction xs) auto

text \<open>Taking a string apart at a byte.\<close>

lemma split_char_once: "c \<notin> set a \<Longrightarrow> split_char c (a @ c # s) = a # split_char c s"
  by (induction a) auto

lemma split_char_none: "c \<notin> set a \<Longrightarrow> split_char c a = [a]"
  by (induction a) auto

lemma split_char_join:
  "xs \<noteq> [] \<Longrightarrow> \<forall>x\<in>set xs. c \<notin> set x \<Longrightarrow> split_char c (join [c] xs) = xs"
proof (induction xs)
  case (Cons x xs)
  then show ?case by (cases xs) (auto simp: split_char_once split_char_none)
qed simp

lemma split_char_no_sep: "x \<in> set (split_char c s) \<Longrightarrow> c \<notin> set x"
  by (induction s arbitrary: x) (auto split: if_splits list.splits)

end
