(* ===== verification/Go_Float.thy ===== *)
theory Go_Float
  imports Complex_Main Go_Prelude
begin

text \<open>
  Go's \<open>float64\<close>: the IEEE 754 binary64 values with round-to-nearest-even arithmetic, as far as the
  server uses them. A finite non-zero value is the rational number it stands for; the two zeros,
  the infinities and NaN are values of their own. \<open>round64\<close> is the one place where rounding happens.
\<close>

datatype f64 = NaN | Inf bool | NegZero | Fin rat

abbreviation fzero :: f64 where "fzero \<equiv> Fin 0"

definition pow2 :: "int \<Rightarrow> rat" where
  "pow2 k = (if 0 \<le> k then 2 ^ nat k else 1 / 2 ^ nat (- k))"

fun bitlen_nat :: "nat \<Rightarrow> nat" where
  "bitlen_nat n = (if n = 0 then 0 else Suc (bitlen_nat (n div 2)))"

declare bitlen_nat.simps [simp del]

text \<open>The binary exponent of a positive rational, from the bit lengths of its two parts.\<close>

definition ilog2 :: "rat \<Rightarrow> int" where
  "ilog2 r =
     (let (n, d) = quotient_of r;
          k = int (bitlen_nat (nat n)) - int (bitlen_nat (nat d))
      in if pow2 k \<le> r then k else k - 1)"

definition round_even :: "rat \<Rightarrow> int" where
  "round_even r =
     (let f = \<lfloor>r\<rfloor>; t = r - of_int f
      in if t < 1 / 2 then f else if 1 / 2 < t then f + 1 else if even f then f else f + 1)"

definition round64 :: "bool \<Rightarrow> rat \<Rightarrow> f64" where
  "round64 neg r =
     (if r = 0 then (if neg then NegZero else Fin 0)
      else let a = \<bar>r\<bar>;
               q = max (ilog2 a - 52) (- 1074);
               m = round_even (a / pow2 q);
               v = of_int m * pow2 q
           in if 2 ^ 1024 \<le> v then Inf (r < 0)
              else if m = 0 then (if r < 0 then NegZero else Fin 0)
              else Fin (if r < 0 then - v else v))"

section \<open>Arithmetic\<close>

fun val :: "f64 \<Rightarrow> rat" where
  "val (Fin r) = r"
| "val _ = 0"

fun f_neg_sign :: "f64 \<Rightarrow> bool" where
  "f_neg_sign (Inf b) = b"
| "f_neg_sign NegZero = True"
| "f_neg_sign (Fin r) = (r < 0)"
| "f_neg_sign NaN = False"

fun f_neg :: "f64 \<Rightarrow> f64" where
  "f_neg NaN = NaN"
| "f_neg (Inf b) = Inf (\<not> b)"
| "f_neg NegZero = Fin 0"
| "f_neg (Fin r) = (if r = 0 then NegZero else Fin (- r))"

fun f_add :: "f64 \<Rightarrow> f64 \<Rightarrow> f64" where
  "f_add NaN y = NaN"
| "f_add x NaN = NaN"
| "f_add (Inf a) (Inf b) = (if a = b then Inf a else NaN)"
| "f_add (Inf a) y = Inf a"
| "f_add x (Inf b) = Inf b"
| "f_add NegZero NegZero = NegZero"
| "f_add x y = round64 False (val x + val y)"

definition f_sub :: "f64 \<Rightarrow> f64 \<Rightarrow> f64" where
  "f_sub x y = f_add x (f_neg y)"

definition f_is_zero :: "f64 \<Rightarrow> bool" where
  "f_is_zero x \<longleftrightarrow> x = NegZero \<or> x = Fin 0"

fun f_is_inf :: "f64 \<Rightarrow> bool" where
  "f_is_inf (Inf _) = True"
| "f_is_inf _ = False"

definition f_mul :: "f64 \<Rightarrow> f64 \<Rightarrow> f64" where
  "f_mul x y =
     (let s = (f_neg_sign x \<noteq> f_neg_sign y)
      in if x = NaN \<or> y = NaN then NaN
         else if f_is_inf x \<or> f_is_inf y
         then (if f_is_zero x \<or> f_is_zero y then NaN else Inf s)
         else round64 s (val x * val y))"

definition f_div :: "f64 \<Rightarrow> f64 \<Rightarrow> f64" where
  "f_div x y =
     (let s = (f_neg_sign x \<noteq> f_neg_sign y)
      in if x = NaN \<or> y = NaN then NaN
         else if f_is_inf x then (if f_is_inf y then NaN else Inf s)
         else if f_is_inf y then (if s then NegZero else Fin 0)
         else if f_is_zero y then (if f_is_zero x then NaN else Inf s)
         else round64 s (val x / val y))"

definition f_lt :: "f64 \<Rightarrow> f64 \<Rightarrow> bool" where
  "f_lt x y =
     (case x of
        NaN \<Rightarrow> False
      | Inf a \<Rightarrow> (case y of NaN \<Rightarrow> False | Inf b \<Rightarrow> a \<and> \<not> b | _ \<Rightarrow> a)
      | _ \<Rightarrow> (case y of NaN \<Rightarrow> False | Inf b \<Rightarrow> \<not> b | _ \<Rightarrow> val x < val y))"

definition f_eq :: "f64 \<Rightarrow> f64 \<Rightarrow> bool" where
  "f_eq x y \<longleftrightarrow> x \<noteq> NaN \<and> y \<noteq> NaN \<and> (x = y \<or> f_is_zero x \<and> f_is_zero y)"

definition f_le :: "f64 \<Rightarrow> f64 \<Rightarrow> bool" where
  "f_le x y \<longleftrightarrow> f_lt x y \<or> f_eq x y"

definition f_of_int :: "int \<Rightarrow> f64" where
  "f_of_int i = round64 False (of_int i)"

section \<open>The package math\<close>

fun f_abs :: "f64 \<Rightarrow> f64" where
  "f_abs NaN = NaN"
| "f_abs (Inf _) = Inf False"
| "f_abs NegZero = Fin 0"
| "f_abs (Fin r) = Fin \<bar>r\<bar>"

definition rat_trunc :: "rat \<Rightarrow> int" where
  "rat_trunc r = (if 0 \<le> r then \<lfloor>r\<rfloor> else \<lceil>r\<rceil>)"

fun f_trunc :: "f64 \<Rightarrow> f64" where
  "f_trunc (Fin r) = (if r < 0 \<and> rat_trunc r = 0 then NegZero else Fin (of_int (rat_trunc r)))"
| "f_trunc x = x"

text \<open>\<open>math.Round\<close>: half away from zero.\<close>

fun f_round :: "f64 \<Rightarrow> f64" where
  "f_round (Fin r) =
     (if 0 \<le> r then Fin (of_int \<lfloor>r + 1 / 2\<rfloor>)
      else if \<lceil>r - 1 / 2\<rceil> = 0 then NegZero else Fin (of_int \<lceil>r - 1 / 2\<rceil>))"
| "f_round x = x"

definition f_min :: "f64 \<Rightarrow> f64 \<Rightarrow> f64" where
  "f_min x y =
     (if x = Inf True \<or> y = Inf True then Inf True
      else if x = NaN \<or> y = NaN then NaN
      else if f_is_zero x \<and> f_is_zero y then (if f_neg_sign x then x else y)
      else if f_lt x y then x else y)"

definition f_max :: "f64 \<Rightarrow> f64 \<Rightarrow> f64" where
  "f_max x y =
     (if x = Inf False \<or> y = Inf False then Inf False
      else if x = NaN \<or> y = NaN then NaN
      else if f_is_zero x \<and> f_is_zero y then (if f_neg_sign x then y else x)
      else if f_lt y x then x else y)"

text \<open>
  \<open>int(x)\<close> on a 64-bit platform. Out of the range of \<open>int64\<close> (and for NaN) the result is left to the
  implementation by the language specification: it is the parameter \<open>oor\<close>. On amd64 it is
  \<open>-2^63\<close>.
\<close>

fun f_to_int :: "(f64 \<Rightarrow> int) \<Rightarrow> f64 \<Rightarrow> int" where
  "f_to_int oor (Fin r) =
     (if - (2 ^ 63) \<le> rat_trunc r \<and> rat_trunc r < 2 ^ 63 then rat_trunc r else oor (Fin r))"
| "f_to_int oor NegZero = 0"
| "f_to_int oor x = oor x"

definition amd64_oor :: "f64 \<Rightarrow> int" where
  "amd64_oor _ = - (2 ^ 63)"

section \<open>Facts\<close>

lemma pow2_pos: "0 < pow2 k"
  by (simp add: pow2_def)

lemma pow2_nonneg: "0 \<le> k \<Longrightarrow> pow2 k = of_int (2 ^ nat k)"
  by (simp add: pow2_def)

lemma bitlen_nat_pos: "0 < n \<Longrightarrow> 2 ^ (bitlen_nat n - 1) \<le> n \<and> n < 2 ^ bitlen_nat n"
proof (induction n rule: bitlen_nat.induct)
  case (1 n)
  show ?case
  proof (cases "n div 2 = 0")
    case True
    with 1 have "n = 1" by auto
    then show ?thesis by (simp add: bitlen_nat.simps)
  next
    case False
    with 1 have ih: "2 ^ (bitlen_nat (n div 2) - 1) \<le> n div 2" "n div 2 < 2 ^ bitlen_nat (n div 2)"
      by auto
    from False have "bitlen_nat (n div 2) \<noteq> 0" by (simp add: bitlen_nat.simps)
    then obtain k where k: "bitlen_nat (n div 2) = Suc k" using not0_implies_Suc by blast
    from 1 have b: "bitlen_nat n = Suc (Suc k)" using k by (subst bitlen_nat.simps) simp
    show ?thesis using ih unfolding b k by auto
  qed
qed

text \<open>The binary exponent of a positive integer, and the integer's place under it.\<close>

lemma ilog2_int:
  assumes "0 < i" and "i \<le> 2 ^ 53"
  shows "0 \<le> ilog2 (of_int i) \<and> ilog2 (of_int i) \<le> 53 \<and> (ilog2 (of_int i) = 53 \<longrightarrow> i = 2 ^ 53)"
proof -
  define b where "b = bitlen_nat (nat i)"
  have bounds: "2 ^ (b - 1) \<le> nat i" "nat i < 2 ^ b"
    using bitlen_nat_pos [of "nat i"] assms by (auto simp: b_def)
  have one: "bitlen_nat 1 = 1" by (simp add: bitlen_nat.simps)
  have bpos: "0 < b" using bounds assms by (cases b) auto
  have "pow2 (int b - 1) \<le> of_int i"
  proof -
    have "(2::int) ^ (b - 1) \<le> i"
      using bounds(1) assms by (simp add: le_nat_iff)
    then have "(of_int (2 ^ (b - 1)) :: rat) \<le> of_int i" by (simp only: of_int_le_iff)
    moreover have "nat (int b - 1) = b - 1" by simp
    ultimately show ?thesis using bpos by (simp add: pow2_def)
  qed
  moreover have "\<not> pow2 (int b) \<le> of_int i"
  proof -
    have "i < (2::int) ^ b" using bounds(2) assms by (simp add: nat_less_iff)
    then have "(of_int i :: rat) < of_int (2 ^ b)" by (simp only: of_int_less_iff)
    then show ?thesis by (simp add: pow2_def)
  qed
  ultimately have log: "ilog2 (of_int i) = int b - 1"
    using assms one by (simp add: ilog2_def quotient_of_int b_def Let_def)
  have "b \<le> 54"
  proof (rule ccontr)
    assume "\<not> b \<le> 54"
    then have "(2::nat) ^ 54 \<le> 2 ^ (b - 1)" by (intro power_increasing) auto
    with bounds(1) have "(2::nat) ^ 54 \<le> nat i" by (rule order_trans [rotated])
    then have "2 ^ 54 \<le> i" by (simp add: le_nat_iff)
    with assms show False by simp
  qed
  moreover have "i = 2 ^ 53" if "b = 54"
    using bounds(1) assms that by (simp add: le_nat_iff)
  ultimately show ?thesis using log bpos by auto
qed

lemma round_even_int [simp]: "round_even (of_int i) = i"
  by (simp add: round_even_def)

text \<open>Integers up to \<open>2^53\<close> in absolute value are exact.\<close>

lemma round64_pos_int:
  assumes "0 < i" and "i \<le> 2 ^ 53"
  shows "of_int (round_even (of_int i / pow2 (max (ilog2 (of_int i) - 52) (- 1074))))
           * pow2 (max (ilog2 (of_int i) - 52) (- 1074)) = of_int i"
proof -
  let ?e = "ilog2 (of_int i)"
  have e: "0 \<le> ?e" "?e \<le> 53" "?e = 53 \<longrightarrow> i = 2 ^ 53" using ilog2_int [OF assms] by auto
  show ?thesis
  proof (cases "?e = 53")
    case True
    then have i: "i = 2 ^ 53" using e by simp
    have "(of_int i :: rat) / pow2 1 = of_int (2 ^ 52)" by (simp add: i pow2_def)
    then have "of_int (round_even (of_int i / pow2 1)) = (of_int (2 ^ 52) :: rat)"
      by (simp only: round_even_int)
    then show ?thesis using True i by (simp add: pow2_def)
  next
    case False
    define k where "k = nat (52 - ?e)"
    have q: "max (?e - 52) (- 1074) = - int k" using e False by (auto simp: k_def)
    have p: "pow2 (- int k) = 1 / 2 ^ k" by (simp add: pow2_def)
    have "(of_int i :: rat) / pow2 (- int k) = of_int (i * 2 ^ k)" by (simp add: p)
    then have "of_int (round_even (of_int i / pow2 (- int k))) = (of_int (i * 2 ^ k) :: rat)"
      by (simp only: round_even_int)
    then show ?thesis by (simp add: q p)
  qed
qed

lemma int_lt_2_1024: "i \<le> 2 ^ 53 \<Longrightarrow> \<not> (2 ^ 1024 :: rat) \<le> of_int i"
proof -
  assume "i \<le> 2 ^ 53"
  then have "i < 2 ^ 1024" by (rule order_le_less_trans) (simp add: power_strict_increasing)
  then have "(of_int i :: rat) < of_int (2 ^ 1024)" by (simp only: of_int_less_iff)
  then show ?thesis by simp
qed

lemma f_of_int_exact:
  assumes "\<bar>i\<bar> \<le> 2 ^ 53"
  shows "round64 False (of_int i) = Fin (of_int i)"
proof (cases "i = 0")
  case False
  define a where "a = \<bar>i\<bar>"
  have a: "0 < a" "a \<le> 2 ^ 53" using False assms by (auto simp: a_def)
  have abs: "\<bar>of_int i :: rat\<bar> = of_int a" by (simp add: a_def)
  let ?q = "max (ilog2 (of_int a) - 52) (- 1074)"
  let ?m = "round_even (of_int a / pow2 ?q)"
  have v: "of_int ?m * pow2 ?q = of_int a" by (rule round64_pos_int [OF a])
  with a have m: "?m \<noteq> 0" by auto
  have big: "\<not> (2 ^ 1024 \<le> (of_int a :: rat))" by (rule int_lt_2_1024 [OF a(2)])
  have "round64 False (of_int i) =
      (if (of_int i :: rat) < 0 then Fin (- of_int a) else Fin (of_int a))"
    unfolding round64_def Let_def abs v using False m big by simp
  then show ?thesis by (auto simp: a_def)
qed (simp add: round64_def)

lemma f_of_int_small [simp]: "\<bar>i\<bar> \<le> 2 ^ 53 \<Longrightarrow> f_of_int i = Fin (of_int i)"
  by (simp add: f_of_int_def f_of_int_exact)

lemma f_add_int:
  assumes "\<bar>i + j\<bar> \<le> 2 ^ 53"
  shows "f_add (Fin (of_int i)) (Fin (of_int j)) = Fin (of_int (i + j))"
  using f_of_int_exact [OF assms] by simp

text \<open>Away from NaN the comparison is a strict weak order whose ties are \<open>f_eq\<close>.\<close>

lemma f_lt_irrefl [simp]: "\<not> f_lt x x"
  by (cases x) (auto simp: f_lt_def)

lemma f_lt_trans: "f_lt x y \<Longrightarrow> f_lt y z \<Longrightarrow> f_lt x z"
  by (auto simp: f_lt_def split: f64.splits)

lemma f_lt_asym: "f_lt x y \<Longrightarrow> \<not> f_lt y x"
  using f_lt_trans f_lt_irrefl by blast

lemma f_lt_total: "x \<noteq> NaN \<Longrightarrow> y \<noteq> NaN \<Longrightarrow> f_lt x y \<or> f_lt y x \<or> f_eq x y"
  by (cases x; cases y) (auto simp: f_lt_def f_eq_def f_is_zero_def)

lemma f_eq_not_lt: "f_eq x y \<Longrightarrow> \<not> f_lt x y"
  by (cases x; cases y) (auto simp: f_lt_def f_eq_def f_is_zero_def)

lemma f_lt_NaN [simp]: "\<not> f_lt NaN y" "\<not> f_lt x NaN"
  by (auto simp: f_lt_def split: f64.splits)

section \<open>Rounding\<close>

text \<open>Rounding moves a number by at most half of the unit in the last place.\<close>

lemma pow2_add: "pow2 (a + b) = pow2 a * pow2 b"
proof -
  have p: "pow2 k = (2::rat) powi k" for k
    by (simp add: pow2_def power_int_def field_simps)
  show ?thesis unfolding p by (simp add: power_int_add)
qed

lemma pow2_mono: "a \<le> b \<Longrightarrow> pow2 a \<le> pow2 b"
proof -
  assume "a \<le> b"
  then have "1 \<le> pow2 (b - a)" by (simp add: pow2_def)
  then have "pow2 a * 1 \<le> pow2 a * pow2 (b - a)" by (intro mult_left_mono) (simp_all add: pow2_pos less_imp_le)
  then show ?thesis by (simp flip: pow2_add)
qed

lemma pow2_split: "pow2 (int a - int b) = 2 ^ a / 2 ^ b"
proof -
  have "pow2 (int a - int b) = pow2 (int a) * pow2 (- int b)" by (simp flip: pow2_add)
  then show ?thesis by (simp add: pow2_def)
qed

lemma ilog2_bounds:
  assumes "0 < r"
  shows "pow2 (ilog2 r) \<le> r" and "r < pow2 (ilog2 r + 1)"
proof -
  obtain n d where nd: "quotient_of r = (n, d)" by (cases "quotient_of r")
  then have r: "r = of_int n / of_int d" and d: "0 < d"
    by (simp_all add: quotient_of_div quotient_of_denom_pos)
  with assms have n: "0 < n" by (simp add: zero_less_divide_iff)
  define bn bd where b: "bn = bitlen_nat (nat n)" "bd = bitlen_nat (nat d)"
  let ?k = "int bn - int bd"
  have "(2::int) ^ (bn - 1) \<le> n" and "n < 2 ^ bn" and "(2::int) ^ (bd - 1) \<le> d" and "d < 2 ^ bd"
    using bitlen_nat_pos [of "nat n"] bitlen_nat_pos [of "nat d"] n d
    by (simp_all add: b le_nat_iff nat_less_iff)
  then have "(of_int (2 ^ (bn - 1)) :: rat) \<le> of_int n" "(of_int n :: rat) < of_int (2 ^ bn)"
      "(of_int (2 ^ (bd - 1)) :: rat) \<le> of_int d" "(of_int d :: rat) < of_int (2 ^ bd)"
    by (simp_all only: of_int_le_iff of_int_less_iff)
  then have bounds: "(2::rat) ^ (bn - 1) \<le> of_int n" "(of_int n :: rat) < 2 ^ bn"
      "(2::rat) ^ (bd - 1) \<le> of_int d" "(of_int d :: rat) < 2 ^ bd" by simp_all
  have pos: "0 < bn" "0 < bd" using n d by (simp_all add: b bitlen_nat.simps)
  then have two: "(2::rat) ^ bn = 2 * 2 ^ (bn - 1)" "(2::rat) ^ bd = 2 * 2 ^ (bd - 1)"
    by (simp_all flip: power_Suc)
  have up: "r < pow2 (?k + 1)"
  proof -
    have "r < 2 ^ bn / 2 ^ (bd - 1)"
      unfolding r using bounds n d by (intro frac_less) auto
    also have "\<dots> = pow2 (?k + 1)"
      using pow2_split [of bn "bd - 1"] pos by (simp add: of_nat_diff algebra_simps)
    finally show ?thesis .
  qed
  have low: "pow2 (?k - 1) \<le> r"
  proof -
    have "pow2 (?k - 1) = 2 ^ (bn - 1) / 2 ^ bd"
      using pow2_split [of "bn - 1" bd] pos by (simp add: of_nat_diff algebra_simps)
    also have "\<dots> \<le> r" unfolding r using bounds n d by (intro frac_le) auto
    finally show ?thesis .
  qed
  have e: "ilog2 r = (if pow2 ?k \<le> r then ?k else ?k - 1)" by (simp add: ilog2_def nd b)
  show "pow2 (ilog2 r) \<le> r" and "r < pow2 (ilog2 r + 1)" using up low by (auto simp: e)
qed

lemma round_even_near: "\<bar>of_int (round_even x) - x\<bar> \<le> 1 / 2"
proof -
  have "of_int \<lfloor>x\<rfloor> \<le> x" "x < of_int \<lfloor>x\<rfloor> + 1" by linarith+
  then show ?thesis by (auto simp: round_even_def Let_def)
qed

lemma round_even_unique: "\<bar>of_int m - x\<bar> < 1 / 2 \<Longrightarrow> round_even x = m"
  using round_even_near [of x] by linarith


lemma round64_normal:
  assumes r: "1 / 2 \<le> r" "r < 2 ^ 1000"
  defines "q \<equiv> ilog2 r - 52"
  shows "round64 s r = Fin (of_int (round_even (r / pow2 q)) * pow2 q)"
    and "\<bar>of_int (round_even (r / pow2 q)) * pow2 q - r\<bar> \<le> pow2 q / 2"
    and "pow2 q \<le> r / 2 ^ 52" and "r < pow2 q * 2 ^ 53"
proof -
  have rpos: "0 < r" using r by simp
  note lo = ilog2_bounds(1) [OF rpos] and hi = ilog2_bounds(2) [OF rpos]
  have e: "pow2 (ilog2 r) = pow2 q * 2 ^ 52"
  proof -
    have "pow2 (ilog2 r) = pow2 q * pow2 52" by (simp add: q_def flip: pow2_add)
    then show ?thesis by (simp add: pow2_def)
  qed
  show small: "pow2 q \<le> r / 2 ^ 52" using lo e by simp
  have "pow2 (ilog2 r + 1) = 2 * pow2 (ilog2 r)" by (subst pow2_add) (simp add: pow2_def)
  then show "r < pow2 q * 2 ^ 53" using hi e by simp
  have "\<not> ilog2 r + 1 \<le> - 1"
  proof
    assume "ilog2 r + 1 \<le> - 1"
    then have "pow2 (ilog2 r + 1) \<le> pow2 (- 1)" by (rule pow2_mono)
    then show False using hi r by (simp add: pow2_def)
  qed
  then have max: "max (ilog2 r - 52) (- 1074) = q" by (simp add: q_def)
  let ?m = "round_even (r / pow2 q)"
  have qpos: "0 < pow2 q" by (rule pow2_pos)
  have "\<bar>of_int ?m - r / pow2 q\<bar> \<le> 1 / 2" by (rule round_even_near)
  then have "\<bar>of_int ?m - r / pow2 q\<bar> * pow2 q \<le> 1 / 2 * pow2 q"
    using qpos by (intro mult_right_mono) auto
  moreover have "\<bar>of_int ?m - r / pow2 q\<bar> * pow2 q = \<bar>of_int ?m * pow2 q - r\<bar>"
  proof -
    have "\<bar>of_int ?m - r / pow2 q\<bar> * pow2 q = \<bar>(of_int ?m - r / pow2 q) * pow2 q\<bar>"
      using qpos by (simp add: abs_mult)
    then show ?thesis using qpos by (simp add: left_diff_distrib)
  qed
  ultimately show near: "\<bar>of_int ?m * pow2 q - r\<bar> \<le> pow2 q / 2" by simp
  have v: "0 < of_int ?m * pow2 q" "of_int ?m * pow2 q < 2 ^ 1024"
  proof -
    have "pow2 q / 2 \<le> r / 2 ^ 53" using small by simp
    also have "r / 2 ^ 53 < r" using rpos by simp
    finally have "pow2 q / 2 < r" .
    then show "0 < of_int ?m * pow2 q" using near by linarith
    have "of_int ?m * pow2 q < 2 * r" using near \<open>pow2 q / 2 < r\<close> by linarith
    also have "2 * r < 2 * 2 ^ 1000" using r by simp
    also have "(2::rat) * 2 ^ 1000 \<le> 2 ^ 1024" by simp
    finally show "of_int ?m * pow2 q < 2 ^ 1024" .
  qed
  then have "?m \<noteq> 0" by auto
  then show "round64 s r = Fin (of_int ?m * pow2 q)"
    using rpos v by (simp add: round64_def max Let_def)
qed

end
