(* ===== verification/Calc_Lexer.thy ===== *)
theory Calc_Lexer
  imports Go_Float
begin

text \<open>
  \<open>server/internal/calc/lex.go\<close>: the tokens of a formula. The lexer runs over the runes of the
  formula; the model takes the runes that are left and the offset they start at, where the code
  keeps one slice and an index.

  An error message is kept as its format (a constructor) and its arguments.
\<close>

section \<open>Errors\<close>

datatype calc_msg =
    UnexpectedCharacter string
  | UnterminatedText
  | FormulaEmpty
  | UnexpectedAfterEnd string
  | NumberSyntax string
  | ExpectedRParen
  | EndsTooEarly
  | UnexpectedToken string
  | ExpectedRParenToClose string
  | NoFunction string
  | NeedsAtLeast string int int
  | TakesAtMost string int int
  | NotANumber string string
  | DateAsNumber string
  | EmptyNoDate string
  | NotADate string string
  | DivisionByZero
  | UnknownOperator string
  | NegativeCount
  | EvaluatedDirectly string

record calc_error =
  err_pos :: nat
  err_msg :: calc_msg

text \<open>
  What a function of the package can end in besides a value: the \<open>*Error\<close> it returns, a run-time
  panic, or (in the model only) a parser run out of fuel, which \<open>parse_tokens_total\<close> excludes.
\<close>

datatype calc_fail = Failed calc_error | Panic | OutOfFuel

definition error_at :: "nat \<Rightarrow> calc_msg \<Rightarrow> calc_fail + 'a" where
  "error_at p m = Inl (Failed \<lparr>err_pos = p, err_msg = m\<rparr>)"

lemma error_at_simps [simp]:
  "error_at p m \<noteq> Inr x"
  "error_at p m \<noteq> Inl Panic"
  "error_at p m \<noteq> Inl OutOfFuel"
  "bind_r (error_at p m) f = error_at p m"
  by (simp_all add: error_at_def)

section \<open>Tokens\<close>

datatype token_kind =
  TokEOF | TokNumber | TokString | TokIdent | TokOperator | TokLParen | TokRParen | TokComma

record token =
  t_kind :: token_kind
  t_text :: string
  t_pos :: nat

definition is_operator :: "token \<Rightarrow> string \<Rightarrow> bool" where
  "is_operator t op \<longleftrightarrow> t_kind t = TokOperator \<and> t_text t = op"

definition is_keyword :: "token \<Rightarrow> string \<Rightarrow> bool" where
  "is_keyword t word \<longleftrightarrow> t_kind t = TokIdent \<and> equal_fold (t_text t) word"

definition multi_char_operators :: "string list" where
  "multi_char_operators = [''<>'', ''!='', ''<='', ''>='', ''=='']"

section \<open>The lexer\<close>

definition match_operator :: "rune list \<Rightarrow> string" where
  "match_operator rs =
     (case find (\<lambda>op. prefix (runes op) rs) multi_char_operators of
        Some op \<Rightarrow> op
      | None \<Rightarrow> (case rs of
                    [] \<Rightarrow> []
                  | r # _ \<Rightarrow> if r \<in> set (runes ''+-*/&=<>'') then encode_rune r else []))"

text \<open>The body of a quoted text, after the opening quote: its runes and what follows it.\<close>

fun lex_string :: "rune \<Rightarrow> rune list \<Rightarrow> (rune list \<times> rune list) option" where
  "lex_string q [] = None"
| "lex_string q [r] = (if r = q then Some ([], []) else None)"
| "lex_string q (r # r' # rs) =
     (if r = q
      then (if r' = q then map_option (\<lambda>(b, rest). (q # b, rest)) (lex_string q rs)
            else Some ([], r' # rs))
      else map_option (\<lambda>(b, rest). (r # b, rest)) (lex_string q (r' # rs)))"

fun lex_number :: "unicode \<Rightarrow> bool \<Rightarrow> rune list \<Rightarrow> rune list \<times> rune list" where
  "lex_number U seen_dot [] = ([], [])"
| "lex_number U seen_dot (r # rs) =
     (if rune_is_digit U r \<or> (r = 46 \<and> \<not> seen_dot)
      then (let (b, rest) = lex_number U (seen_dot \<or> r = 46) rs in (r # b, rest))
      else ([], r # rs))"

definition ident_rune :: "unicode \<Rightarrow> rune \<Rightarrow> bool" where
  "ident_rune U r \<longleftrightarrow> r = 95 \<or> rune_is_letter U r \<or> rune_is_digit U r"

definition lex_ident :: "unicode \<Rightarrow> rune list \<Rightarrow> rune list \<times> rune list" where
  "lex_ident U rs = (takeWhile (ident_rune U) rs, dropWhile (ident_rune U) rs)"

definition starts_number :: "unicode \<Rightarrow> rune \<Rightarrow> rune list \<Rightarrow> bool" where
  "starts_number U r rs \<longleftrightarrow>
     rune_is_digit U r \<or> (r = 46 \<and> (case rs of [] \<Rightarrow> False | r' # _ \<Rightarrow> rune_is_digit U r'))"

text \<open>
  One turn of the loop: the token at the front (\<open>None\<close> for white space) and the runes after it.
\<close>

definition lex_step :: "unicode \<Rightarrow> rune \<Rightarrow> rune list \<Rightarrow> nat
    \<Rightarrow> calc_fail + (token option \<times> rune list)" where
  "lex_step U r rs i =
     (if rune_is_space r then Inr (None, rs)
      else if r = 40 then Inr (Some \<lparr>t_kind = TokLParen, t_text = ''('', t_pos = i\<rparr>, rs)
      else if r = 41 then Inr (Some \<lparr>t_kind = TokRParen, t_text = '')'', t_pos = i\<rparr>, rs)
      else if r = 44 \<or> r = 59
      then Inr (Some \<lparr>t_kind = TokComma, t_text = encode_rune r, t_pos = i\<rparr>, rs)
      else if r = 34 \<or> r = 39
      then (case lex_string r rs of
              None \<Rightarrow> error_at i UnterminatedText
            | Some (b, rest) \<Rightarrow>
                Inr (Some \<lparr>t_kind = TokString, t_text = of_runes b, t_pos = i\<rparr>, rest))
      else if starts_number U r rs
      then (let (b, rest) = lex_number U False (r # rs)
            in Inr (Some \<lparr>t_kind = TokNumber, t_text = of_runes b, t_pos = i\<rparr>, rest))
      else if r = 95 \<or> rune_is_letter U r
      then (let (b, rest) = lex_ident U (r # rs)
            in Inr (Some \<lparr>t_kind = TokIdent, t_text = of_runes b, t_pos = i\<rparr>, rest))
      else (let m = match_operator (r # rs)
            in if m = [] then error_at i (UnexpectedCharacter (encode_rune r))
               else Inr (Some \<lparr>t_kind = TokOperator, t_text = m, t_pos = i\<rparr>,
                         drop (length (runes m)) (r # rs))))"

lemma lex_string_length:
  "lex_string q rs = Some (b, rest) \<Longrightarrow> length rest < length rs \<and> suffix rest rs"
proof (induction q rs arbitrary: b rule: lex_string.induct)
  case (3 q r r' rs)
  then show ?case
    by (auto split: if_splits simp: less_Suc_eq suffix_Cons intro: suffix_ConsI)
qed (auto split: if_splits)

lemma lex_number_append: "lex_number U d rs = (b, rest) \<Longrightarrow> rs = b @ rest"
  by (induction U d rs arbitrary: b rule: lex_number.induct)
     (auto split: if_splits prod.splits)

lemma lex_ident_append: "lex_ident U rs = (b, rest) \<Longrightarrow> rs = b @ rest"
  by (auto simp: lex_ident_def)

lemma runes_ops:
  "runes ''<>'' = [60, 62]" "runes ''!='' = [33, 61]" "runes ''<='' = [60, 61]"
  "runes ''>='' = [62, 61]" "runes ''=='' = [61, 61]"
  "runes ''+-*/&=<>'' = [43, 45, 42, 47, 38, 61, 60, 62]"
  by (simp_all add: runes_ascii)

lemma match_operator_prefix:
  assumes "match_operator (r # rs) \<noteq> []"
  shows "prefix (runes (match_operator (r # rs))) (r # rs)
         \<and> runes (match_operator (r # rs)) \<noteq> []"
proof (cases "find (\<lambda>op. prefix (runes op) (r # rs)) multi_char_operators")
  case (Some op)
  then have "op \<in> set multi_char_operators" "prefix (runes op) (r # rs)"
    by (auto simp: find_Some_iff)
  with Some show ?thesis
    by (auto simp: match_operator_def multi_char_operators_def runes_ops)
next
  case None
  with assms have r: "r \<in> {43, 45, 42, 47, 38, 61, 60, 62}"
    by (auto simp: match_operator_def runes_ops split: if_splits)
  then have "valid_rune r" by (auto simp: valid_rune_def)
  then have "runes (encode_rune r) = [r]" using runes_encode_append [of r "[]"] by simp
  with None r show ?thesis by (auto simp: match_operator_def runes_ops)
qed

lemma lex_number_nonempty:
  "lex_number U False (r # rs) = (b, rest) \<Longrightarrow> starts_number U r rs \<Longrightarrow> b \<noteq> []"
  by (auto simp: starts_number_def split: if_splits prod.splits)

text \<open>The possible ends of one turn.\<close>

lemma lex_step_cases:
  assumes "lex_step U r rs i = Inr (t, rest)"
  obtains (str) b where "lex_string r rs = Some (b, rest)"
      "t = Some \<lparr>t_kind = TokString, t_text = of_runes b, t_pos = i\<rparr>"
    | (num) b where "lex_number U False (r # rs) = (b, rest)" "starts_number U r rs"
      "t = Some \<lparr>t_kind = TokNumber, t_text = of_runes b, t_pos = i\<rparr>"
    | (ident) b where "lex_ident U (r # rs) = (b, rest)" "ident_rune U r"
      "t = Some \<lparr>t_kind = TokIdent, t_text = of_runes b, t_pos = i\<rparr>"
    | (op) "match_operator (r # rs) \<noteq> []"
      "rest = drop (length (runes (match_operator (r # rs)))) (r # rs)"
      "t = Some \<lparr>t_kind = TokOperator, t_text = match_operator (r # rs), t_pos = i\<rparr>"
    | (one) k where "rest = rs" "t = Some \<lparr>t_kind = k, t_text = encode_rune r, t_pos = i\<rparr>"
      "r < 128" "k \<in> {TokLParen, TokRParen, TokComma}"
    | (space) "rest = rs" "t = None" "rune_is_space r"
proof -
  have e: "encode_rune 40 = ''(''" "encode_rune 41 = '')''"
    by (simp_all add: encode_rune_def char_of_def bit_Suc_0_iff)
  show thesis
  proof (cases "rune_is_space r")
    case True
    then show thesis using assms space by (simp add: lex_step_def)
  next
    case sp: False
    show thesis
    proof (cases "r \<in> {40, 41, 44, 59}")
      case True
      then show thesis using assms one sp e by (auto simp: lex_step_def)
    next
      case one': False
      show thesis
      proof (cases "r = 34 \<or> r = 39")
        case True
        then show thesis using assms str sp one' by (auto simp: lex_step_def split: option.splits)
      next
        case q: False
        show thesis
        proof (cases "starts_number U r rs")
          case True
          then show thesis using assms num sp one' q
            by (simp add: lex_step_def del: lex_number.simps split: prod.splits)
        next
          case n: False
          show thesis
          proof (cases "r = 95 \<or> rune_is_letter U r")
            case True
            then show thesis using assms ident sp one' q n
              by (auto simp: lex_step_def ident_rune_def split: prod.splits)
          next
            case False
            then show thesis using assms op sp one' q n
              by (auto simp: lex_step_def Let_def simp del: runes.simps split: if_splits)
          qed
        qed
      qed
    qed
  qed
qed

lemma lex_step_suffix:
  assumes "lex_step U r rs i = Inr (t, rest)"
  shows "length rest < length (r # rs) \<and> suffix rest (r # rs)"
  using assms
proof (cases rule: lex_step_cases)
  case str
  then show ?thesis using lex_string_length by (fastforce simp: suffix_ConsI)
next
  case (num b)
  from lex_number_append [OF num(1)] lex_number_nonempty [OF num(1,2)]
  show ?thesis by (auto simp: suffix_def Cons_eq_append_conv)
next
  case (ident b)
  then have "b \<noteq> []" by (auto simp: lex_ident_def)
  with lex_ident_append [OF ident(1)]
  show ?thesis by (auto simp: suffix_def Cons_eq_append_conv)
next
  case op
  from match_operator_prefix [OF op(1)] have "length (runes (match_operator (r # rs))) > 0" by auto
  with op show ?thesis by (auto simp: suffix_drop)
qed (simp_all add: suffix_ConsI)

function lex_loop :: "unicode \<Rightarrow> rune list \<Rightarrow> nat \<Rightarrow> calc_fail + token list" where
  "lex_loop U [] i = Inr [\<lparr>t_kind = TokEOF, t_text = '''', t_pos = i\<rparr>]"
| "lex_loop U (r # rs) i =
     bind_r (lex_step U r rs i)
       (\<lambda>(t, rest). bind_r (lex_loop U rest (i + (length (r # rs) - length rest)))
          (\<lambda>ts. Inr (case t of None \<Rightarrow> ts | Some t \<Rightarrow> t # ts)))"
  by pat_completeness auto
termination
proof (relation "measure (\<lambda>(U, rs, i). length rs)")
  show "wf (measure (\<lambda>(U, rs, i). length rs))" by simp
  fix U :: unicode and r rs i x xa y
  assume "lex_step U r rs i = Inr x" "(xa, y) = x"
  then show "((U, y, i + (length (r # rs) - length y)), U, r # rs, i)
      \<in> measure (\<lambda>(U, rs, i). length rs)"
    using lex_step_suffix [of U r rs i xa y] by auto
qed

definition lex :: "unicode \<Rightarrow> string \<Rightarrow> calc_fail + token list" where
  "lex U src = lex_loop U (runes src) 0"

text \<open>Every rune a token is made of is in range, so its text decodes back to it.\<close>

lemma lex_ident_valid:
  "lex_ident U rs = (b, rest) \<Longrightarrow> \<forall>r \<in> set rs. valid_rune r \<Longrightarrow> \<forall>r \<in> set b. valid_rune r"
  by (auto simp: lex_ident_def dest: set_takeWhileD)

text \<open>The token of a turn: where it starts and, but for a quoted text, what it spells.\<close>

lemma lex_step_token:
  assumes "lex_step U r rs i = Inr (Some t, rest)" and "\<forall>x \<in> set (r # rs). valid_rune x"
  shows "t_pos t = i \<and> t_kind t \<noteq> TokEOF \<and>
         (t_kind t \<noteq> TokString \<longrightarrow> prefix (runes (t_text t)) (r # rs))"
  using assms(1)
proof (cases rule: lex_step_cases)
  case (num b)
  from lex_number_append [OF num(1)] assms(2) have "runes (of_runes b) = b" "prefix b (r # rs)"
    by (auto simp: runes_of_runes)
  with num show ?thesis by simp
next
  case (ident b)
  from lex_ident_append [OF ident(1)] assms(2) have "runes (of_runes b) = b" "prefix b (r # rs)"
    by (auto simp: runes_of_runes)
  with ident show ?thesis by simp
next
  case op
  with match_operator_prefix [OF op(1)] show ?thesis by simp
next
  case (one k)
  then have "valid_rune r" by (simp add: valid_rune_def)
  then have "runes (encode_rune r) = [r]" using runes_encode_append [of r "[]"] by simp
  with one show ?thesis by auto
qed auto

definition spells_at :: "rune list \<Rightarrow> token \<Rightarrow> bool" where
  "spells_at rs t \<longleftrightarrow>
     (t_kind t \<in> {TokString, TokEOF} \<or> prefix (runes (t_text t)) (drop (t_pos t) rs))"

lemma lex_loop_tokens:
  assumes "lex_loop U rs i = Inr ts" and "full = pre @ rs" and "i = length pre"
    and "\<forall>x \<in> set full. valid_rune x"
  shows "\<exists>us. ts = us @ [\<lparr>t_kind = TokEOF, t_text = '''', t_pos = length full\<rparr>] \<and>
           (\<forall>t \<in> set us. t_kind t \<noteq> TokEOF \<and> i \<le> t_pos t \<and> t_pos t < length full
                         \<and> spells_at full t) \<and>
           sorted_wrt (<) (map t_pos us)"
  using assms
proof (induction U rs i arbitrary: ts pre rule: lex_loop.induct)
  case (2 U r rs i)
  from "2.prems"(1) obtain t rest ts' where step: "lex_step U r rs i = Inr (t, rest)"
    and loop: "lex_loop U rest (i + (length (r # rs) - length rest)) = Inr ts'"
    and ts: "ts = (case t of None \<Rightarrow> ts' | Some t \<Rightarrow> t # ts')"
    by (auto simp: bind_r_Inr_iff)
  from lex_step_suffix [OF step] obtain w where w: "r # rs = w @ rest" by (auto simp: suffix_def)
  with lex_step_suffix [OF step] have wne: "w \<noteq> []" by auto
  let ?j = "i + (length (r # rs) - length rest)"
  have j: "?j = length (pre @ w)" "full = (pre @ w) @ rest" "i < ?j"
    using w wne "2.prems"(2,3) by auto
  obtain us where us: "ts' = us @ [\<lparr>t_kind = TokEOF, t_text = '''', t_pos = length full\<rparr>]"
    "\<forall>t \<in> set us. t_kind t \<noteq> TokEOF \<and> ?j \<le> t_pos t \<and> t_pos t < length full \<and> spells_at full t"
    "sorted_wrt (<) (map t_pos us)"
    using "2.IH" [OF step refl loop j(2,1) "2.prems"(4)] by blast
  show ?case
  proof (cases t)
    case None
    with us ts j(3) show ?thesis by (intro exI [of _ us]) auto
  next
    case (Some a)
    have "\<forall>x \<in> set (r # rs). valid_rune x" using "2.prems" by auto
    then have a: "t_pos a = i" "t_kind a \<noteq> TokEOF"
      "t_kind a \<noteq> TokString \<longrightarrow> prefix (runes (t_text a)) (r # rs)"
      using lex_step_token step Some by blast+
    then have "spells_at full a" using "2.prems" by (auto simp: spells_at_def)
    with us ts j(3) a Some "2.prems"(2,3) show ?thesis
      by (intro exI [of _ "a # us"]) (auto simp: order.strict_trans2)
  qed
qed (simp)

text \<open>Where a formula is refused.\<close>

lemma lex_step_error:
  assumes "lex_step U r rs i = Inl f"
  shows "(r \<in> {34, 39} \<and> lex_string r rs = None \<and> f = Failed \<lparr>err_pos = i, err_msg = UnterminatedText\<rparr>)
       \<or> f = Failed \<lparr>err_pos = i, err_msg = UnexpectedCharacter (encode_rune r)\<rparr>"
  using assms
  by (auto simp: lex_step_def error_at_def Let_def simp del: lex_number.simps runes.simps
      split: if_splits option.splits prod.splits)

lemma lex_loop_error:
  assumes "lex_loop U rs i = Inl f" and "full = pre @ rs" and "i = length pre"
  shows "\<exists>e. f = Failed e \<and> err_pos e < length full \<and>
           (err_msg e = UnterminatedText \<and> full ! err_pos e \<in> {34, 39} \<or>
            err_msg e = UnexpectedCharacter (encode_rune (full ! err_pos e)))"
  using assms
proof (induction U rs i arbitrary: pre rule: lex_loop.induct)
  case (2 U r rs i)
  have at: "full ! i = r" "i < length full" using "2.prems"(2,3) by auto
  show ?case
  proof (cases "lex_step U r rs i")
    case (Inl g)
    with "2.prems"(1) have "g = f" by simp
    with lex_step_error [OF Inl] at show ?thesis by auto
  next
    case (Inr p)
    obtain t rest where p: "p = (t, rest)" by (cases p)
    with Inr have step: "lex_step U r rs i = Inr (t, rest)" by simp
    from "2.prems"(1) step
    have loop: "lex_loop U rest (i + (length (r # rs) - length rest)) = Inl f"
      by (auto simp: bind_r_Inl_iff)
    from lex_step_suffix [OF step] obtain w where w: "r # rs = w @ rest" by (auto simp: suffix_def)
    then have "full = (pre @ w) @ rest"
      "i + (length (r # rs) - length rest) = length (pre @ w)"
      using "2.prems"(2,3) by auto
    from "2.IH" [OF step refl loop this] show ?thesis .
  qed
qed simp

text \<open>Quoting and reading back a text.\<close>

fun quote_runes :: "rune \<Rightarrow> rune list \<Rightarrow> rune list" where
  "quote_runes q [] = []"
| "quote_runes q (r # rs) = (if r = q then q # q # quote_runes q rs else r # quote_runes q rs)"

lemma lex_string_step:
  "r \<noteq> q \<Longrightarrow> lex_string q (r # rs) = map_option (\<lambda>(b, rest). (r # b, rest)) (lex_string q rs)"
  by (cases rs) auto

lemma lex_string_quote:
  "(case rest of [] \<Rightarrow> True | r # _ \<Rightarrow> r \<noteq> q) \<Longrightarrow>
   lex_string q (quote_runes q b @ q # rest) = Some (b, rest)"
proof (induction b)
  case Nil
  then show ?case by (cases rest) auto
next
  case (Cons r b)
  then show ?case by (cases "r = q") (auto simp: lex_string_step)
qed

section \<open>Evaluation on ASCII formulas\<close>

lemma ascii_eval:
  "rune_is_letter ascii_only r = (r < 128 \<and> ((65 \<le> r \<and> r \<le> 90) \<or> (97 \<le> r \<and> r \<le> 122)))"
  "rune_is_digit ascii_only r = (r < 128 \<and> 48 \<le> r \<and> r \<le> 57)"
  by (auto simp: rune_is_letter_def rune_is_digit_def ascii_only_def)

lemmas lex_eval = lex_def lex_step_def runes_ascii rune_is_space_def starts_number_def
  ascii_eval lex_ident_def ident_rune_def match_operator_def multi_char_operators_def
  runes_ops encode_rune_def Let_def of_runes_def char_of_def bit_Suc_0_iff

section \<open>Properties\<close>

text \<open>
  The token list of a formula ends with the end marker, which stands at the length of the
  formula in runes and nowhere else; every other token starts inside the formula, the offsets
  rise strictly, and every token but a quoted text spells out exactly the runes at its offset.
\<close>

theorem lex_tokens_placed:
  assumes "lex U src = Inr ts"
  shows "\<exists>us. ts = us @ [\<lparr>t_kind = TokEOF, t_text = '''', t_pos = length (runes src)\<rparr>] \<and>
           (\<forall>t \<in> set us. t_kind t \<noteq> TokEOF \<and> t_pos t < length (runes src)
                         \<and> spells_at (runes src) t) \<and>
           sorted_wrt (<) (map t_pos us)"
  using lex_loop_tokens [of U "runes src" 0 ts "runes src" "[]"] assms runes_valid
  by (fastforce simp: lex_def)

theorem lex_tokens_placed_witness:
  "\<exists>us. [\<lparr>t_kind = TokIdent, t_text = ''a1'', t_pos = 0\<rparr>, \<lparr>t_kind = TokOperator, t_text = ''>='', t_pos = 2\<rparr>,
         \<lparr>t_kind = TokNumber, t_text = ''.5'', t_pos = 4\<rparr>, \<lparr>t_kind = TokEOF, t_text = '''', t_pos = 6\<rparr>]
        = us @ [\<lparr>t_kind = TokEOF, t_text = '''', t_pos = length (runes ''a1>=.5'')\<rparr>] \<and>
        (\<forall>t \<in> set us. t_kind t \<noteq> TokEOF \<and> t_pos t < length (runes ''a1>=.5'')
                      \<and> spells_at (runes ''a1>=.5'') t) \<and>
        sorted_wrt (<) (map t_pos us)"
  by (rule lex_tokens_placed [of ascii_only]) (simp add: lex_eval)

text \<open>
  A formula the lexer refuses is refused with an \<open>*Error\<close> whose offset is inside the formula
  and points at the culprit: an opening quote that is never closed, or the very rune the message
  quotes. The lexer never panics.
\<close>

theorem lex_error_located:
  assumes "lex U src = Inl f"
  shows "\<exists>e. f = Failed e \<and> err_pos e < length (runes src) \<and>
           (err_msg e = UnterminatedText \<and> runes src ! err_pos e \<in> {34, 39} \<or>
            err_msg e = UnexpectedCharacter (encode_rune (runes src ! err_pos e)))"
  using lex_loop_error [of U "runes src" 0 f "runes src" "[]"] assms by (simp add: lex_def)

theorem lex_error_located_witness:
  "\<exists>e. Failed \<lparr>err_pos = 3, err_msg = UnterminatedText\<rparr> = Failed e
     \<and> err_pos e < length (runes ''a1&'' @ runes [char_of (34::nat), CHR ''x'']) \<and>
       (err_msg e = UnterminatedText \<and>
          (runes ''a1&'' @ runes [char_of (34::nat), CHR ''x'']) ! err_pos e \<in> {34, 39} \<or>
        err_msg e = UnexpectedCharacter
          (encode_rune ((runes ''a1&'' @ runes [char_of (34::nat), CHR ''x'']) ! err_pos e)))"
proof -
  have e: "runes (''a1&'' @ [char_of (34::nat), CHR ''x'']) =
      runes ''a1&'' @ runes [char_of (34::nat), CHR ''x'']"
    by (simp add: runes_ascii)
  have "lex ascii_only (''a1&'' @ [char_of (34::nat), CHR ''x'']) =
      Inl (Failed \<lparr>err_pos = 3, err_msg = UnterminatedText\<rparr>)"
    by (simp add: lex_eval error_at_def)
  from lex_error_located [OF this] show ?thesis unfolding e .
qed

text \<open>
  A text survives quoting: written between two quotes of either kind with every inner quote
  of that kind doubled, it is lexed back to exactly itself, whatever runes it holds, followed by
  the tokens of what comes after it, which must not begin with the same quote.
\<close>

theorem lex_quoted_roundtrip:
  assumes "q \<in> {34, 39}" and "\<forall>r \<in> set b. valid_rune r"
    and "case rest of [] \<Rightarrow> True | r # _ \<Rightarrow> r \<noteq> q"
  shows "lex_loop U (q # quote_runes q b @ q # rest) i =
         bind_r (lex_loop U rest (i + (length (quote_runes q b) + 2)))
           (\<lambda>ts. Inr (\<lparr>t_kind = TokString, t_text = of_runes b, t_pos = i\<rparr> # ts))
         \<and> runes (of_runes b) = b"
proof -
  have "lex_string q (quote_runes q b @ q # rest) = Some (b, rest)"
    by (rule lex_string_quote [OF assms(3)])
  moreover have "\<not> rune_is_space q" "q \<notin> {40, 41, 44, 59}"
    using assms(1) by (auto simp: rune_is_space_def)
  ultimately have "lex_step U q (quote_runes q b @ q # rest) i =
      Inr (Some \<lparr>t_kind = TokString, t_text = of_runes b, t_pos = i\<rparr>, rest)"
    using assms(1) by (auto simp: lex_step_def)
  then show ?thesis using assms(2) by (simp add: runes_of_runes)
qed

theorem lex_quoted_roundtrip_witness:
  "lex_loop ascii_only (39 # quote_runes 39 [105, 39, 109] @ 39 # [43]) 0 =
     bind_r (lex_loop ascii_only [43] (0 + (length (quote_runes 39 [105, 39, 109]) + 2)))
       (\<lambda>ts. Inr (\<lparr>t_kind = TokString, t_text = of_runes [105, 39, 109], t_pos = 0\<rparr> # ts))
     \<and> runes (of_runes [105, 39, 109]) = [105, 39, 109]"
  by (rule lex_quoted_roundtrip) (simp_all add: valid_rune_def)

end
