(* ===== verification/Calc_Parser.thy ===== *)
theory Calc_Parser
  imports Calc_Lexer
begin

text \<open>
  \<open>server/internal/calc/parse.go\<close>: the recursive-descent parser of formulas, the table of
  function arities of \<open>functions.go\<close>, and \<open>Expr.Fields\<close>. The parser's index into the token slice
  is the list of tokens that are left; reading past the end is the panic it would be in Go. One
  function per Go method, each loop a function of its own. Recursion is bounded by fuel;
  \<open>parse_tokens_total\<close> shows that \<open>parse\<close> supplies enough for every formula.
\<close>

section \<open>The environment\<close>

text \<open>
  A moment as the formulas observe it: nanoseconds since the zero \<open>time.Time\<close> and the clock fields
  in its own location.
\<close>

record gotime =
  t_instant :: int
  t_year :: int
  t_month :: int
  t_day :: int
  t_hour :: int
  t_minute :: int
  t_second :: int

text \<open>
  The functions of the Go standard library the package calls whose results come from tables or
  algorithms outside the repository: number and time syntax, \<open>math.Pow\<close>, the clock, and the
  conversion of an out-of-range float to \<open>int\<close>.
\<close>

record calc_env =
  env_uni :: unicode
  env_parse_float :: "string \<Rightarrow> f64 option"
  env_format_float :: "f64 \<Rightarrow> string"
  env_sprint_float32 :: "f64 \<Rightarrow> string"
  env_pow :: "f64 \<Rightarrow> f64 \<Rightarrow> f64"
  env_oor :: "f64 \<Rightarrow> int"
  env_now :: gotime
  env_utc :: "gotime \<Rightarrow> gotime"
  env_date_utc :: "int \<Rightarrow> int \<Rightarrow> int \<Rightarrow> gotime"
  env_time_parse :: "string \<Rightarrow> string \<Rightarrow> gotime option"
  env_time_format :: "string \<Rightarrow> gotime \<Rightarrow> string"

section \<open>Nodes\<close>

datatype node =
    NumberNode f64 nat
  | TextNode string nat
  | BoolNode bool nat
  | FieldNode string nat
  | UnaryNode string node nat
  | BinaryNode string node node nat
  | CallNode string "node list" nat

fun node_pos :: "node \<Rightarrow> nat" where
  "node_pos (NumberNode _ p) = p"
| "node_pos (TextNode _ p) = p"
| "node_pos (BoolNode _ p) = p"
| "node_pos (FieldNode _ p) = p"
| "node_pos (UnaryNode _ _ p) = p"
| "node_pos (BinaryNode _ _ _ p) = p"
| "node_pos (CallNode _ _ p) = p"

fun collect_fields :: "node \<Rightarrow> string set" where
  "collect_fields (FieldNode name _) = {name}"
| "collect_fields (UnaryNode _ operand _) = collect_fields operand"
| "collect_fields (BinaryNode _ l r _) = collect_fields l \<union> collect_fields r"
| "collect_fields (CallNode _ args _) = (\<Union>a \<in> set args. collect_fields a)"
| "collect_fields _ = {}"

record expr =
  e_root :: node
  e_src :: string

definition expr_fields :: "expr \<Rightarrow> string list" where
  "expr_fields e = sorted_list_of_set (collect_fields (e_root e))"

section \<open>Function arities\<close>

text \<open>\<open>minArgs\<close> and \<open>maxArgs\<close> of the table \<open>functions\<close>; \<open>-1\<close> is any number.\<close>

definition function_arities :: "(string \<times> int \<times> int) list" where
  "function_arities =
     [(''IF'', 2, 3), (''CASE'', 2, -1), (''UPPER'', 1, 1), (''LOWER'', 1, 1), (''TRIM'', 1, 1),
      (''LENGTH'', 1, 1), (''SUBSTITUTE'', 3, 3), (''LIST'', 1, -1), (''CONCAT'', 1, -1),
      (''LEFT'', 2, 2), (''RIGHT'', 2, 2), (''MIDDLE'', 3, 3), (''ROUND'', 1, 2), (''ABS'', 1, 1),
      (''SUM'', 1, -1), (''MIN'', 1, -1), (''MAX'', 1, -1), (''AVERAGE'', 1, -1),
      (''ISEMPTY'', 1, 1), (''COALESCE'', 1, -1), (''TODAY'', 0, 0), (''NOW'', 0, 0),
      (''YEAR'', 1, 1), (''MONTH'', 1, 1), (''DAY'', 1, 1)]"

definition check_arity :: "nat \<Rightarrow> string \<Rightarrow> int \<times> int \<Rightarrow> int \<Rightarrow> calc_fail + unit" where
  "check_arity p name mm got =
     (if got < fst mm then error_at p (NeedsAtLeast name (fst mm) got)
      else if 0 \<le> snd mm \<and> snd mm < got then error_at p (TakesAtMost name (snd mm) got)
      else Inr ())"

section \<open>The parser\<close>

definition peek :: "token list \<Rightarrow> calc_fail + token" where
  "peek ts = (case ts of [] \<Rightarrow> Inl Panic | t # _ \<Rightarrow> Inr t)"

definition comparison_operators :: "string list" where
  "comparison_operators = [''='', ''=='', ''<>'', ''!='', ''<'', ''<='', ''>'', ''>='']"

type_synonym parsed = "calc_fail + (node \<times> token list)"

text \<open>
  \<open>pe\<close> stands for the recursive call of \<open>parseExpression\<close> inside parentheses. Prefix operators
  recurse on the token list itself; an operator loop has the number of its turns as fuel.
\<close>

fun parse_args :: "(token list \<Rightarrow> parsed) \<Rightarrow> nat \<Rightarrow> token list
    \<Rightarrow> calc_fail + (node list \<times> token list)" where
  "parse_args pe 0 ts = Inl OutOfFuel"
| "parse_args pe (Suc n) ts =
     bind_r (pe ts) (\<lambda>(arg, ts).
       bind_r (peek ts) (\<lambda>c.
         if t_kind c = TokComma
         then bind_r (parse_args pe n (tl ts)) (\<lambda>(args, ts). Inr (arg # args, ts))
         else Inr ([arg], ts)))"

text \<open>\<open>parseCall\<close>, entered with the opening parenthesis at the front of \<open>ts\<close>.\<close>

definition parse_call :: "calc_env \<Rightarrow> (token list \<Rightarrow> parsed) \<Rightarrow> token \<Rightarrow> token list \<Rightarrow> parsed" where
  "parse_call E pe name ts =
     bind_r (peek (tl ts)) (\<lambda>c.
       bind_r (if t_kind c \<noteq> TokRParen then parse_args pe (length ts) (tl ts) else Inr ([], tl ts))
         (\<lambda>(args, ts).
           bind_r (peek ts) (\<lambda>c.
             let up = to_upper (env_uni E) (t_text name)
             in if t_kind c \<noteq> TokRParen then error_at (t_pos c) (ExpectedRParenToClose up)
                else case map_of function_arities up of
                       None \<Rightarrow> error_at (t_pos name) (NoFunction (t_text name))
                     | Some mm \<Rightarrow>
                         bind_r (check_arity (t_pos name) up mm (int (length args)))
                           (\<lambda>_. Inr (CallNode up args (t_pos name), tl ts)))))"

definition parse_primary :: "calc_env \<Rightarrow> (token list \<Rightarrow> parsed) \<Rightarrow> token list \<Rightarrow> parsed" where
  "parse_primary E pe ts =
     bind_r (peek ts) (\<lambda>t.
       case t_kind t of
         TokNumber \<Rightarrow>
           (case env_parse_float E (t_text t) of
              None \<Rightarrow> error_at (t_pos t) (NumberSyntax (t_text t))
            | Some v \<Rightarrow> Inr (NumberNode v (t_pos t), tl ts))
       | TokString \<Rightarrow> Inr (TextNode (t_text t) (t_pos t), tl ts)
       | TokLParen \<Rightarrow>
           bind_r (pe (tl ts)) (\<lambda>(inner, ts).
             bind_r (peek ts) (\<lambda>c.
               if t_kind c \<noteq> TokRParen then error_at (t_pos c) ExpectedRParen
               else Inr (inner, tl ts)))
       | TokIdent \<Rightarrow>
           if equal_fold (t_text t) ''true'' then Inr (BoolNode True (t_pos t), tl ts)
           else if equal_fold (t_text t) ''false'' then Inr (BoolNode False (t_pos t), tl ts)
           else bind_r (peek (tl ts)) (\<lambda>c.
                  if t_kind c = TokLParen then parse_call E pe t (tl ts)
                  else Inr (FieldNode (t_text t) (t_pos t), tl ts))
       | TokEOF \<Rightarrow> error_at (t_pos t) EndsTooEarly
       | _ \<Rightarrow> error_at (t_pos t) (UnexpectedToken (t_text t)))"

fun parse_unary :: "calc_env \<Rightarrow> (token list \<Rightarrow> parsed) \<Rightarrow> token list \<Rightarrow> parsed" where
  "parse_unary E pe [] = Inl Panic"
| "parse_unary E pe (t # ts) =
     (if is_operator t ''-'' \<or> is_operator t ''+''
      then bind_r (parse_unary E pe ts) (\<lambda>(operand, ts).
             if t_text t = ''+'' then Inr (operand, ts)
             else Inr (UnaryNode ''-'' operand (t_pos t), ts))
      else parse_primary E pe (t # ts))"

fun multiplicative_loop :: "calc_env \<Rightarrow> (token list \<Rightarrow> parsed) \<Rightarrow> nat \<Rightarrow> node \<Rightarrow> token list \<Rightarrow> parsed"
  where
  "multiplicative_loop E pe 0 left ts = Inl OutOfFuel"
| "multiplicative_loop E pe (Suc n) left ts =
     bind_r (peek ts) (\<lambda>t.
       if is_operator t ''*'' \<or> is_operator t ''/''
       then bind_r (parse_unary E pe (tl ts)) (\<lambda>(right, ts).
              multiplicative_loop E pe n (BinaryNode (t_text t) left right (t_pos t)) ts)
       else Inr (left, ts))"

definition parse_multiplicative :: "calc_env \<Rightarrow> (token list \<Rightarrow> parsed) \<Rightarrow> token list \<Rightarrow> parsed" where
  "parse_multiplicative E pe ts =
     bind_r (parse_unary E pe ts) (\<lambda>(left, ts). multiplicative_loop E pe (length ts) left ts)"

fun additive_loop :: "calc_env \<Rightarrow> (token list \<Rightarrow> parsed) \<Rightarrow> nat \<Rightarrow> node \<Rightarrow> token list \<Rightarrow> parsed" where
  "additive_loop E pe 0 left ts = Inl OutOfFuel"
| "additive_loop E pe (Suc n) left ts =
     bind_r (peek ts) (\<lambda>t.
       if is_operator t ''+'' \<or> is_operator t ''-''
       then bind_r (parse_multiplicative E pe (tl ts)) (\<lambda>(right, ts).
              additive_loop E pe n (BinaryNode (t_text t) left right (t_pos t)) ts)
       else Inr (left, ts))"

definition parse_additive :: "calc_env \<Rightarrow> (token list \<Rightarrow> parsed) \<Rightarrow> token list \<Rightarrow> parsed" where
  "parse_additive E pe ts =
     bind_r (parse_multiplicative E pe ts) (\<lambda>(left, ts). additive_loop E pe (length ts) left ts)"

fun concat_loop :: "calc_env \<Rightarrow> (token list \<Rightarrow> parsed) \<Rightarrow> nat \<Rightarrow> node \<Rightarrow> token list \<Rightarrow> parsed" where
  "concat_loop E pe 0 left ts = Inl OutOfFuel"
| "concat_loop E pe (Suc n) left ts =
     bind_r (peek ts) (\<lambda>t.
       if is_operator t ''&''
       then bind_r (parse_additive E pe (tl ts)) (\<lambda>(right, ts).
              concat_loop E pe n (BinaryNode ''&'' left right (t_pos t)) ts)
       else Inr (left, ts))"

definition parse_concat :: "calc_env \<Rightarrow> (token list \<Rightarrow> parsed) \<Rightarrow> token list \<Rightarrow> parsed" where
  "parse_concat E pe ts =
     bind_r (parse_additive E pe ts) (\<lambda>(left, ts). concat_loop E pe (length ts) left ts)"

definition parse_comparison :: "calc_env \<Rightarrow> (token list \<Rightarrow> parsed) \<Rightarrow> token list \<Rightarrow> parsed" where
  "parse_comparison E pe ts =
     bind_r (parse_concat E pe ts) (\<lambda>(left, ts).
       bind_r (peek ts) (\<lambda>t.
         if t_kind t = TokOperator \<and> t_text t \<in> set comparison_operators
         then bind_r (parse_concat E pe (tl ts)) (\<lambda>(right, ts).
                Inr (BinaryNode (t_text t) left right (t_pos t), ts))
         else Inr (left, ts)))"

fun parse_not :: "calc_env \<Rightarrow> (token list \<Rightarrow> parsed) \<Rightarrow> token list \<Rightarrow> parsed" where
  "parse_not E pe [] = Inl Panic"
| "parse_not E pe (t # ts) =
     (if is_keyword t ''NOT''
      then bind_r (parse_not E pe ts) (\<lambda>(operand, ts).
             Inr (UnaryNode ''NOT'' operand (t_pos t), ts))
      else parse_comparison E pe (t # ts))"

fun and_loop :: "calc_env \<Rightarrow> (token list \<Rightarrow> parsed) \<Rightarrow> nat \<Rightarrow> node \<Rightarrow> token list \<Rightarrow> parsed" where
  "and_loop E pe 0 left ts = Inl OutOfFuel"
| "and_loop E pe (Suc n) left ts =
     bind_r (peek ts) (\<lambda>t.
       if is_keyword t ''AND''
       then bind_r (parse_not E pe (tl ts)) (\<lambda>(right, ts).
              and_loop E pe n (BinaryNode ''AND'' left right (t_pos t)) ts)
       else Inr (left, ts))"

definition parse_and :: "calc_env \<Rightarrow> (token list \<Rightarrow> parsed) \<Rightarrow> token list \<Rightarrow> parsed" where
  "parse_and E pe ts =
     bind_r (parse_not E pe ts) (\<lambda>(left, ts). and_loop E pe (length ts) left ts)"

fun or_loop :: "calc_env \<Rightarrow> (token list \<Rightarrow> parsed) \<Rightarrow> nat \<Rightarrow> node \<Rightarrow> token list \<Rightarrow> parsed" where
  "or_loop E pe 0 left ts = Inl OutOfFuel"
| "or_loop E pe (Suc n) left ts =
     bind_r (peek ts) (\<lambda>t.
       if is_keyword t ''OR''
       then bind_r (parse_and E pe (tl ts)) (\<lambda>(right, ts).
              or_loop E pe n (BinaryNode ''OR'' left right (t_pos t)) ts)
       else Inr (left, ts))"

definition parse_or :: "calc_env \<Rightarrow> (token list \<Rightarrow> parsed) \<Rightarrow> token list \<Rightarrow> parsed" where
  "parse_or E pe ts =
     bind_r (parse_and E pe ts) (\<lambda>(left, ts). or_loop E pe (length ts) left ts)"

text \<open>\<open>parseExpression\<close>; the fuel bounds the nesting of parentheses.\<close>

fun parse_expression :: "calc_env \<Rightarrow> nat \<Rightarrow> token list \<Rightarrow> parsed" where
  "parse_expression E 0 ts = Inl OutOfFuel"
| "parse_expression E (Suc n) ts = parse_or E (parse_expression E n) ts"

definition parse :: "calc_env \<Rightarrow> string \<Rightarrow> calc_fail + expr" where
  "parse E src =
     (if trim_space src = [] then error_at 0 FormulaEmpty
      else bind_r (lex (env_uni E) src) (\<lambda>ts.
             bind_r (parse_expression E (length ts) ts) (\<lambda>(root, ts).
               bind_r (peek ts) (\<lambda>t.
                 if t_kind t \<noteq> TokEOF then error_at (t_pos t) (UnexpectedAfterEnd (t_text t))
                 else Inr \<lparr>e_root = root, e_src = src\<rparr>))))"

section \<open>Totality\<close>

text \<open>A token list as the lexer leaves it: the end marker is the last token and no other.\<close>

fun eof_ended :: "token list \<Rightarrow> bool" where
  "eof_ended [] = False"
| "eof_ended (t # ts) = (if t_kind t = TokEOF then ts = [] else eof_ended ts)"

text \<open>
  A sound result on \<open>ts\<close>: an \<open>*Error\<close>, or a value with a shorter (for a loop: no longer) rest of
  the tokens that still ends with the marker; never a panic, never out of fuel.
\<close>

definition sound_le :: "token list \<Rightarrow> calc_fail + ('a \<times> token list) \<Rightarrow> bool" where
  "sound_le ts res =
     (case res of
        Inl f \<Rightarrow> f \<noteq> Panic \<and> f \<noteq> OutOfFuel
      | Inr (_, ts') \<Rightarrow> eof_ended ts' \<and> length ts' \<le> length ts)"

definition sound :: "token list \<Rightarrow> calc_fail + ('a \<times> token list) \<Rightarrow> bool" where
  "sound ts res =
     (case res of
        Inl f \<Rightarrow> f \<noteq> Panic \<and> f \<noteq> OutOfFuel
      | Inr (_, ts') \<Rightarrow> eof_ended ts' \<and> length ts' < length ts)"

lemma peek_simps [simp]: "peek (t # ts) = Inr t" "peek [] = Inl Panic"
  by (simp_all add: peek_def)

lemma eof_ended_not_Nil: "eof_ended ts \<Longrightarrow> ts \<noteq> []"
  by auto

lemma eof_ended_tl: "eof_ended (t # ts) \<Longrightarrow> t_kind t \<noteq> TokEOF \<Longrightarrow> eof_ended ts"
  by simp

lemma sound_Inl: "sound ts (Inl f) \<longleftrightarrow> f \<noteq> Panic \<and> f \<noteq> OutOfFuel"
  and sound_Inr: "sound ts (Inr (x, ts')) \<longleftrightarrow> eof_ended ts' \<and> length ts' < length ts"
  and sound_le_Inl: "sound_le ts (Inl f) \<longleftrightarrow> f \<noteq> Panic \<and> f \<noteq> OutOfFuel"
  and sound_le_Inr: "sound_le ts (Inr (x, ts')) \<longleftrightarrow> eof_ended ts' \<and> length ts' \<le> length ts"
  by (simp_all add: sound_def sound_le_def)

lemma sound_error [simp]: "sound ts (error_at p m)" "sound_le ts (error_at p m)"
  by (simp_all add: error_at_def sound_Inl sound_le_Inl)

lemma sound_mono: "sound us r \<Longrightarrow> length us \<le> length ts \<Longrightarrow> sound ts r"
  by (auto simp: sound_def split: sum.splits)

lemma sound_le_mono: "sound_le us r \<Longrightarrow> length us \<le> length ts \<Longrightarrow> sound_le ts r"
  by (auto simp: sound_le_def split: sum.splits)

lemma sound_le_strict: "sound_le us r \<Longrightarrow> length us < length ts \<Longrightarrow> sound ts r"
  by (auto simp: sound_def sound_le_def split: sum.splits)

lemma sound_imp_le: "sound us r \<Longrightarrow> length us \<le> length ts \<Longrightarrow> sound_le ts r"
  by (auto simp: sound_def sound_le_def split: sum.splits)

text \<open>Sequencing: the continuation has to be sound on every rest the first part can leave.\<close>

lemma sound_bind:
  assumes "sound us m" and "length us \<le> length ts"
    and "\<And>x vs. eof_ended vs \<Longrightarrow> length vs < length us \<Longrightarrow> sound ts (f (x, vs))"
  shows "sound ts (bind_r m f)"
  using assms by (cases m) (auto simp: sound_Inl sound_Inr)

lemma sound_le_bind:
  assumes "sound us m" and "length us \<le> length ts"
    and "\<And>x vs. eof_ended vs \<Longrightarrow> length vs < length us \<Longrightarrow> sound_le ts (f (x, vs))"
  shows "sound_le ts (bind_r m f)"
  using assms by (cases m) (auto simp: sound_Inl sound_Inr sound_le_Inl)

locale nested_parser =
  fixes E :: calc_env and pe :: "token list \<Rightarrow> parsed" and N :: nat
  assumes pe_sound: "eof_ended ts \<Longrightarrow> length ts < N \<Longrightarrow> sound ts (pe ts)"
begin

lemma parse_args_sound:
  "eof_ended ts \<Longrightarrow> length ts < N \<Longrightarrow> length ts \<le> n \<Longrightarrow> sound ts (parse_args pe n ts)"
proof (induction n arbitrary: ts)
  case (Suc n)
  show ?case
    unfolding parse_args.simps
  proof (rule sound_bind [OF pe_sound order_refl])
    fix x vs
    assume vs: "eof_ended vs" "length vs < length ts"
    then obtain c us where c: "vs = c # us" by (cases vs) auto
    show "sound ts (case (x, vs) of (arg, ts) \<Rightarrow> bind_r (peek ts) (\<lambda>c.
         if t_kind c = TokComma
         then bind_r (parse_args pe n (tl ts)) (\<lambda>(args, ts). Inr (arg # args, ts))
         else Inr ([arg], ts)))"
    proof (cases "t_kind c = TokComma")
      case True
      with vs c have us: "eof_ended us" by auto
      have "sound us (parse_args pe n us)" using Suc vs c us by auto
      then have "sound ts (bind_r (parse_args pe n us) (\<lambda>(args, ts). Inr (x # args, ts)))"
        by (rule sound_bind) (use vs c in \<open>auto simp: sound_Inr\<close>)
      with True c show ?thesis by simp
    qed (use vs c in \<open>auto simp: sound_Inr\<close>)
  qed (use Suc in auto)
qed auto

lemma parse_call_sound:
  assumes "eof_ended (l # ts)" and "t_kind l = TokLParen" and "length (l # ts) \<le> N"
  shows "sound (l # ts) (parse_call E pe name (l # ts))"
proof -
  from assms have ts: "eof_ended ts" by auto
  then obtain c us where c: "ts = c # us" by (cases ts) auto
  let ?args = "if t_kind c \<noteq> TokRParen then parse_args pe (length (l # ts)) ts else Inr ([], ts)"
  have args: "sound_le ts ?args"
    using parse_args_sound [OF ts] assms ts
    by (auto simp: sound_le_Inr simp del: parse_args.simps intro: sound_imp_le [OF _ order_refl])
  define K where "K = (\<lambda>(xs, vs). bind_r (peek vs) (\<lambda>c.
       let up = to_upper (env_uni E) (t_text name)
       in if t_kind c \<noteq> TokRParen then error_at (t_pos c) (ExpectedRParenToClose up)
          else case map_of function_arities up of
                 None \<Rightarrow> error_at (t_pos name) (NoFunction (t_text name))
               | Some mm \<Rightarrow>
                   bind_r (check_arity (t_pos name) up mm (int (length xs)))
                     (\<lambda>_. Inr (CallNode up xs (t_pos name), tl vs))))"
  have K: "sound (l # ts) (K (xs, vs))" if vs: "eof_ended vs" "length vs \<le> length ts" for xs vs
  proof -
    obtain d ws where d: "vs = d # ws" using vs by (cases vs) auto
    show ?thesis
    proof (cases "t_kind d = TokRParen")
      case True
      with vs d have "eof_ended ws" by auto
      with True d vs show ?thesis
        by (auto simp: K_def Let_def check_arity_def sound_Inr split: option.splits)
    qed (simp add: K_def d Let_def)
  qed
  have "parse_call E pe name (l # ts) = bind_r ?args K"
    by (simp only: parse_call_def K_def list.sel c peek_simps bind_r_simps)
  then show ?thesis
    using args K by (cases ?args) (auto simp: sound_le_Inl sound_Inl sound_le_Inr)
qed

lemma parse_primary_sound:
  assumes "eof_ended ts" and "length ts \<le> N"
  shows "sound ts (parse_primary E pe ts)"
proof -
  obtain t us where t: "ts = t # us" using assms by (cases ts) auto
  show ?thesis
  proof (cases "t_kind t")
    case TokEOF
    then show ?thesis by (simp add: parse_primary_def t)
  next
    case TokNumber
    then show ?thesis using assms by (auto simp: parse_primary_def t sound_Inr split: option.splits)
  next
    case TokString
    then show ?thesis using assms by (auto simp: parse_primary_def t sound_Inr)
  next
    case TokLParen
    with assms t have us: "eof_ended us" "length us < N" by auto
    have "sound ts (bind_r (pe us) (\<lambda>(inner, ts). bind_r (peek ts) (\<lambda>c.
            if t_kind c \<noteq> TokRParen then error_at (t_pos c) ExpectedRParen
            else Inr (inner, tl ts))))"
    proof (rule sound_bind [OF pe_sound [OF us]])
      fix x vs
      assume "eof_ended vs" "length vs < length us"
      then show "sound ts (case (x, vs) of (inner, ts) \<Rightarrow> bind_r (peek ts) (\<lambda>c.
            if t_kind c \<noteq> TokRParen then error_at (t_pos c) ExpectedRParen
            else Inr (inner, tl ts)))"
        by (cases vs) (auto simp: sound_Inr t)
    qed (simp add: t)
    then show ?thesis by (simp add: parse_primary_def t TokLParen)
  next
    case TokIdent
    with assms t have us: "eof_ended us" "length us \<le> N" by auto
    then obtain c vs where c: "us = c # vs" by (cases us) auto
    have "sound ts (parse_call E pe t us)" if "t_kind c = TokLParen"
      using parse_call_sound [of c vs t] us c that t by (auto intro: sound_mono)
    then show ?thesis using us
      by (auto simp: parse_primary_def t TokIdent c sound_Inr)
  qed (simp_all add: parse_primary_def t)
qed

lemma is_operator_not_eof: "is_operator t op \<Longrightarrow> t_kind t \<noteq> TokEOF"
  and is_keyword_not_eof: "is_keyword t w \<Longrightarrow> t_kind t \<noteq> TokEOF"
  by (auto simp: is_operator_def is_keyword_def)

lemma parse_unary_sound:
  "eof_ended ts \<Longrightarrow> length ts \<le> N \<Longrightarrow> sound ts (parse_unary E pe ts)"
proof (induction ts)
  case (Cons t ts)
  show ?case
  proof (cases "is_operator t ''-'' \<or> is_operator t ''+''")
    case True
    then have "eof_ended ts" using Cons.prems(1) is_operator_not_eof by auto
    with Cons have "sound ts (parse_unary E pe ts)" by auto
    then have "sound (t # ts) (bind_r (parse_unary E pe ts) (\<lambda>(operand, ts).
             if t_text t = ''+'' then Inr (operand, ts)
             else Inr (UnaryNode ''-'' operand (t_pos t), ts)))"
      by (rule sound_bind) (auto simp: sound_Inr)
    with True show ?thesis by simp
  qed (use parse_primary_sound [OF Cons.prems] in simp)
qed simp

text \<open>Every operator loop has one shape: \<open>L\<close> loops over operands read by \<open>sub\<close>.\<close>

lemma op_loop_sound:
  assumes sub: "\<And>ts. eof_ended ts \<Longrightarrow> length ts \<le> N \<Longrightarrow> sound ts (sub ts)"
    and op: "\<And>t. op t \<Longrightarrow> t_kind t \<noteq> TokEOF"
    and L: "\<And>n left ts. L (Suc n) left ts = bind_r (peek ts) (\<lambda>t.
       if op t then bind_r (sub (tl ts)) (\<lambda>(right, ts). L n (mk t left right) ts)
       else Inr (left, ts))"
  shows "eof_ended ts \<Longrightarrow> length ts \<le> N \<Longrightarrow> length ts \<le> n \<Longrightarrow> sound_le ts (L n left ts)"
proof (induction n arbitrary: left ts)
  case (Suc n)
  then obtain t us where t: "ts = t # us" by (cases ts) auto
  show ?case
  proof (cases "op t")
    case True
    then have us: "eof_ended us" using Suc.prems(1) t op by auto
    have "sound_le ts (bind_r (sub us) (\<lambda>(right, ts). L n (mk t left right) ts))"
    proof (rule sound_le_bind [OF sub [OF us]])
      fix x vs
      assume "eof_ended vs" "length vs < length us"
      then show "sound_le ts (case (x, vs) of (right, ts) \<Rightarrow> L n (mk t left right) ts)"
        using Suc.prems t by (auto intro!: sound_le_mono [OF Suc.IH])
    qed (use Suc.prems t in auto)
    with True show ?thesis by (simp add: t L)
  qed (use Suc.prems in \<open>auto simp: t L sound_le_Inr\<close>)
qed auto

lemma level_sound:
  assumes "sound ts m"
    and "\<And>vs left. eof_ended vs \<Longrightarrow> length vs < length ts \<Longrightarrow> sound_le vs (L (length vs) left vs)"
  shows "sound ts (bind_r m (\<lambda>(left, ts). L (length ts) left ts))"
  by (rule sound_bind [OF assms(1)]) (auto intro: sound_le_strict assms(2))

lemma multiplicative_sound:
  assumes "eof_ended ts" and "length ts \<le> N"
  shows "sound ts (parse_multiplicative E pe ts)"
  unfolding parse_multiplicative_def
  by (rule level_sound [OF parse_unary_sound [OF assms]],
      rule op_loop_sound [where sub = "parse_unary E pe" and L = "multiplicative_loop E pe",
        OF parse_unary_sound _ multiplicative_loop.simps(2)])
     (use assms in \<open>auto dest: is_operator_not_eof\<close>)

lemma additive_sound:
  assumes "eof_ended ts" and "length ts \<le> N"
  shows "sound ts (parse_additive E pe ts)"
  unfolding parse_additive_def
  by (rule level_sound [OF multiplicative_sound [OF assms]],
      rule op_loop_sound [where sub = "parse_multiplicative E pe" and L = "additive_loop E pe",
        OF multiplicative_sound _ additive_loop.simps(2)])
     (use assms in \<open>auto dest: is_operator_not_eof\<close>)

lemma concat_sound:
  assumes "eof_ended ts" and "length ts \<le> N"
  shows "sound ts (parse_concat E pe ts)"
  unfolding parse_concat_def
  by (rule level_sound [OF additive_sound [OF assms]],
      rule op_loop_sound [where sub = "parse_additive E pe" and L = "concat_loop E pe",
        OF additive_sound _ concat_loop.simps(2)])
     (use assms in \<open>auto dest: is_operator_not_eof\<close>)

lemma comparison_sound:
  assumes "eof_ended ts" and "length ts \<le> N"
  shows "sound ts (parse_comparison E pe ts)"
  unfolding parse_comparison_def
proof (rule sound_bind [OF concat_sound [OF assms] order_refl])
  fix x vs
  assume vs: "eof_ended vs" "length vs < length ts"
  then obtain t us where t: "vs = t # us" by (cases vs) auto
  have "sound ts (bind_r (parse_concat E pe us) (\<lambda>(right, ts).
        Inr (BinaryNode (t_text t) x right (t_pos t), ts)))" if "t_kind t = TokOperator"
  proof -
    have "eof_ended us" using vs t that by auto
    then show ?thesis
      by (rule sound_bind [OF concat_sound]) (use vs t assms in \<open>auto simp: sound_Inr\<close>)
  qed
  then show "sound ts (case (x, vs) of (left, ts) \<Rightarrow> bind_r (peek ts) (\<lambda>t.
         if t_kind t = TokOperator \<and> t_text t \<in> set comparison_operators
         then bind_r (parse_concat E pe (tl ts)) (\<lambda>(right, ts).
                Inr (BinaryNode (t_text t) left right (t_pos t), ts))
         else Inr (left, ts)))"
    using vs t by (auto simp: sound_Inr)
qed

lemma not_sound:
  "eof_ended ts \<Longrightarrow> length ts \<le> N \<Longrightarrow> sound ts (parse_not E pe ts)"
proof (induction ts)
  case (Cons t ts)
  show ?case
  proof (cases "is_keyword t ''NOT''")
    case True
    then have "eof_ended ts" using Cons.prems(1) is_keyword_not_eof by auto
    with Cons have "sound ts (parse_not E pe ts)" by auto
    then have "sound (t # ts) (bind_r (parse_not E pe ts) (\<lambda>(operand, ts).
             Inr (UnaryNode ''NOT'' operand (t_pos t), ts)))"
      by (rule sound_bind) (auto simp: sound_Inr)
    with True show ?thesis by simp
  qed (use comparison_sound [OF Cons.prems] in simp)
qed simp

lemma and_sound:
  assumes "eof_ended ts" and "length ts \<le> N"
  shows "sound ts (parse_and E pe ts)"
  unfolding parse_and_def
  by (rule level_sound [OF not_sound [OF assms]],
      rule op_loop_sound [where sub = "parse_not E pe" and L = "and_loop E pe",
        OF not_sound _ and_loop.simps(2)])
     (use assms in \<open>auto dest: is_keyword_not_eof\<close>)

lemma or_sound:
  assumes "eof_ended ts" and "length ts \<le> N"
  shows "sound ts (parse_or E pe ts)"
  unfolding parse_or_def
  by (rule level_sound [OF and_sound [OF assms]],
      rule op_loop_sound [where sub = "parse_and E pe" and L = "or_loop E pe",
        OF and_sound _ or_loop.simps(2)])
     (use assms in \<open>auto dest: is_keyword_not_eof\<close>)

end

text \<open>The nesting fuel: one more than the number of tokens an expression can nest over.\<close>

lemma parse_expression_sound:
  "eof_ended ts \<Longrightarrow> length ts \<le> n \<Longrightarrow> sound ts (parse_expression E n ts)"
proof (induction n arbitrary: ts)
  case (Suc n)
  have "nested_parser (parse_expression E n) (Suc n)"
    by unfold_locales (use Suc.IH in auto)
  then show ?case using nested_parser.or_sound Suc.prems by simp
qed auto

interpretation pe: nested_parser E "parse_expression E n" "Suc n" for E n
  by unfold_locales (simp add: parse_expression_sound)

section \<open>Well-formed nodes\<close>

text \<open>
  What evaluation may rely on: operators are the ones the grammar has, and a call names a
  function of the table with a number of arguments the table allows.
\<close>

definition binary_operators :: "string list" where
  "binary_operators =
     [''OR'', ''AND'', ''&'', ''+'', ''-'', ''*'', ''/''] @ comparison_operators"

definition arity_ok :: "string \<Rightarrow> nat \<Rightarrow> bool" where
  "arity_ok name got =
     (case map_of function_arities name of
        None \<Rightarrow> False
      | Some (lo, hi) \<Rightarrow> lo \<le> int got \<and> (0 \<le> hi \<longrightarrow> int got \<le> hi))"

fun wf_node :: "node \<Rightarrow> bool" where
  "wf_node (UnaryNode op operand _) = (op \<in> {''-'', ''NOT''} \<and> wf_node operand)"
| "wf_node (BinaryNode op l r _) = (op \<in> set binary_operators \<and> wf_node l \<and> wf_node r)"
| "wf_node (CallNode name args _) = (arity_ok name (length args) \<and> (\<forall>a \<in> set args. wf_node a))"
| "wf_node _ = True"

definition yields :: "('a \<Rightarrow> bool) \<Rightarrow> calc_fail + ('a \<times> token list) \<Rightarrow> bool" where
  "yields P r \<longleftrightarrow> (case r of Inr (x, _) \<Rightarrow> P x | _ \<Rightarrow> True)"

lemma yields_simps [simp]:
  "yields P (Inl f)"
  "yields P (Inr (x, ts)) = P x"
  "yields P (error_at p m)"
  by (simp_all add: yields_def error_at_def)

lemma yields_bind:
  "yields Q m \<Longrightarrow> (\<And>x ts. Q x \<Longrightarrow> yields P (f (x, ts))) \<Longrightarrow> yields P (bind_r m f)"
  by (cases m) auto

lemma yields_peek: "(\<And>t. yields P (f t)) \<Longrightarrow> yields P (bind_r (peek ts) f)"
  by (cases ts) auto

lemma check_arity_ok:
  "map_of function_arities name = Some mm \<Longrightarrow> check_arity p name mm (int n) = Inr () \<Longrightarrow>
   arity_ok name n"
  by (cases mm) (auto simp: arity_ok_def check_arity_def split: if_splits)

locale wf_nested_parser =
  fixes E :: calc_env and pe :: "token list \<Rightarrow> parsed"
  assumes pe_wf: "yields wf_node (pe ts)"
begin

lemma args_wf: "yields (list_all wf_node) (parse_args pe n ts)"
proof (induction n arbitrary: ts)
  case (Suc n)
  show ?case
    unfolding parse_args.simps
    by (rule yields_bind [OF pe_wf]) (auto intro!: yields_peek yields_bind [OF Suc.IH])
qed simp

lemma call_wf: "yields wf_node (parse_call E pe name ts)"
proof -
  have args: "yields (list_all wf_node)
      (if t_kind c \<noteq> TokRParen then parse_args pe (length ts) (tl ts) else Inr ([], tl ts))" for c
    using args_wf by auto
  have fin: "yields wf_node (bind_r (check_arity p up mm (int (length xs)))
      (\<lambda>_. Inr (CallNode up xs p, us)))"
    if "list_all wf_node xs" "map_of function_arities up = Some mm" for xs p up mm us
    using that check_arity_ok [of up mm p "length xs"]
    by (cases "check_arity p up mm (int (length xs))") (auto simp: list_all_iff)
  show ?thesis
    unfolding parse_call_def
    by (rule yields_peek, rule yields_bind [OF args])
       (auto simp: Let_def intro!: yields_peek fin split: option.splits)
qed

lemma primary_wf: "yields wf_node (parse_primary E pe ts)"
  unfolding parse_primary_def
  by (rule yields_peek)
     (auto intro!: yields_peek yields_bind [OF pe_wf] call_wf split: token_kind.splits option.splits)

lemma unary_wf: "yields wf_node (parse_unary E pe ts)"
proof (induction ts)
  case (Cons t ts)
  then show ?case
    by (auto intro!: yields_bind [OF Cons.IH] primary_wf)
qed simp

lemma op_loop_wf:
  assumes sub: "\<And>ts. yields wf_node (sub ts)"
    and mk: "\<And>t l r. op t \<Longrightarrow> wf_node l \<Longrightarrow> wf_node r \<Longrightarrow> wf_node (mk t l r)"
    and L0: "\<And>left ts. L 0 left ts = Inl OutOfFuel"
    and L: "\<And>n left ts. L (Suc n) left ts = bind_r (peek ts) (\<lambda>t.
       if op t then bind_r (sub (tl ts)) (\<lambda>(right, ts). L n (mk t left right) ts)
       else Inr (left, ts))"
  shows "wf_node left \<Longrightarrow> yields wf_node (L n left ts)"
proof (induction n arbitrary: left ts)
  case (Suc n)
  then show ?case
    unfolding L by (auto intro!: yields_peek yields_bind [OF sub] Suc.IH mk)
qed (simp add: L0)

lemma level_wf:
  assumes "yields wf_node m" and "\<And>vs left. wf_node left \<Longrightarrow> yields wf_node (L (length vs) left vs)"
  shows "yields wf_node (bind_r m (\<lambda>(left, ts). L (length ts) left ts))"
  by (rule yields_bind [OF assms(1)]) (auto intro: assms(2))

lemma is_operator_text: "is_operator t op \<Longrightarrow> t_text t = op"
  by (simp add: is_operator_def)

lemma multiplicative_wf: "yields wf_node (parse_multiplicative E pe ts)"
  unfolding parse_multiplicative_def
  by (rule level_wf [OF unary_wf], rule op_loop_wf [where sub = "parse_unary E pe"
        and L = "multiplicative_loop E pe", OF unary_wf _ _ multiplicative_loop.simps(2)])
     (auto dest!: is_operator_text simp: binary_operators_def)

lemma additive_wf: "yields wf_node (parse_additive E pe ts)"
  unfolding parse_additive_def
  by (rule level_wf [OF multiplicative_wf], rule op_loop_wf [where sub = "parse_multiplicative E pe"
        and L = "additive_loop E pe", OF multiplicative_wf _ _ additive_loop.simps(2)])
     (auto dest!: is_operator_text simp: binary_operators_def)

lemma concat_wf: "yields wf_node (parse_concat E pe ts)"
  unfolding parse_concat_def
  by (rule level_wf [OF additive_wf], rule op_loop_wf [where sub = "parse_additive E pe"
        and L = "concat_loop E pe", OF additive_wf _ _ concat_loop.simps(2)])
     (auto simp: binary_operators_def)

lemma comparison_wf: "yields wf_node (parse_comparison E pe ts)"
  unfolding parse_comparison_def
  by (rule yields_bind [OF concat_wf])
     (auto intro!: yields_peek yields_bind [OF concat_wf] simp: binary_operators_def)

lemma not_wf: "yields wf_node (parse_not E pe ts)"
proof (induction ts)
  case (Cons t ts)
  then show ?case
    by (auto intro!: yields_bind [OF Cons.IH] comparison_wf)
qed simp

lemma and_wf: "yields wf_node (parse_and E pe ts)"
  unfolding parse_and_def
  by (rule level_wf [OF not_wf], rule op_loop_wf [where sub = "parse_not E pe"
        and L = "and_loop E pe", OF not_wf _ _ and_loop.simps(2)])
     (auto simp: binary_operators_def)

lemma or_wf: "yields wf_node (parse_or E pe ts)"
  unfolding parse_or_def
  by (rule level_wf [OF and_wf], rule op_loop_wf [where sub = "parse_and E pe"
        and L = "or_loop E pe", OF and_wf _ _ or_loop.simps(2)])
     (auto simp: binary_operators_def)

end

lemma parse_expression_wf: "yields wf_node (parse_expression E n ts)"
proof (induction n arbitrary: ts)
  case (Suc n)
  then have "wf_nested_parser (parse_expression E n)" by unfold_locales
  then show ?case using wf_nested_parser.or_wf by simp
qed simp

interpretation pw: wf_nested_parser E "parse_expression E n" for E n
  by unfold_locales (rule parse_expression_wf)

lemma eof_ended_append: "\<forall>t \<in> set us. t_kind t \<noteq> TokEOF \<Longrightarrow> t_kind e = TokEOF \<Longrightarrow> eof_ended (us @ [e])"
  by (induction us) auto

lemma lex_eof_ended: "lex U src = Inr ts \<Longrightarrow> eof_ended ts"
  using lex_loop_tokens [of U "runes src" 0 ts "runes src" "[]"] runes_valid
  by (fastforce simp: lex_def intro!: eof_ended_append)

lemma lex_no_panic: "lex U src = Inl f \<Longrightarrow> f \<noteq> Panic \<and> f \<noteq> OutOfFuel"
  using lex_loop_error [of U "runes src" 0 f "runes src" "[]"] by (auto simp: lex_def)

section \<open>Properties\<close>


text \<open>
  A formula that parses is well formed: every operator is one the evaluator knows, and every
  call names a function of the table with a number of arguments its entry allows. The source text
  is kept as it was written.
\<close>

theorem parse_well_formed:
  assumes "parse E src = Inr e"
  shows "wf_node (e_root e) \<and> e_src e = src"
proof -
  from assms obtain ts root us where "parse_expression E (length ts) ts = Inr (root, us)"
    "e = \<lparr>e_root = root, e_src = src\<rparr>"
    by (auto simp: parse_def bind_r_Inr_iff split: if_splits)
  with parse_expression_wf [of E "length ts" ts] show ?thesis by simp
qed

definition demo_env :: calc_env where
  "demo_env = \<lparr>env_uni = ascii_only,
     env_parse_float = (\<lambda>s. if s = ''2'' then Some (Fin 2) else if s = ''3'' then Some (Fin 3) else None),
     env_format_float = (\<lambda>_. ''''), env_sprint_float32 = (\<lambda>_. ''''), env_pow = (\<lambda>_ _. NaN), env_oor = amd64_oor,
     env_now = \<lparr>t_instant = 0, t_year = 1, t_month = 1, t_day = 1, t_hour = 0, t_minute = 0, t_second = 0\<rparr>,
     env_utc = id, env_date_utc = (\<lambda>y m d. \<lparr>t_instant = 0, t_year = y, t_month = m, t_day = d,
        t_hour = 0, t_minute = 0, t_second = 0\<rparr>),
     env_time_parse = (\<lambda>_ _. None), env_time_format = (\<lambda>_ _. '''')\<rparr>"

lemmas parse_eval = parse_def parse_or_def parse_and_def parse_comparison_def parse_concat_def
  parse_additive_def parse_multiplicative_def parse_primary_def parse_call_def is_keyword_def
  is_operator_def equal_fold_def fold_eq_ascii_def comparison_operators_def check_arity_def
  function_arities_def to_upper_def rune_upper_def rune_lower_def demo_env_def visible_def

lemma bind_r_weak_cong: "m = m' \<Longrightarrow> bind_r m f = bind_r m' f"
  by simp

lemma demo_words:
  "to_upper (env_uni demo_env) ''abs'' = ''ABS''"
  "equal_fold ''abs'' ''true'' = False" "equal_fold ''abs'' ''false'' = False"
  "equal_fold ''x'' ''true'' = False" "equal_fold ''x'' ''false'' = False"
  "equal_fold ''abs'' ''NOT'' = False" "equal_fold ''x'' ''NOT'' = False"
  by (simp_all add: parse_eval lex_eval)

lemma lex_demo: "lex (env_uni demo_env) ''abs(x)'' = Inr
    [\<lparr>t_kind = TokIdent, t_text = ''abs'', t_pos = 0\<rparr>, \<lparr>t_kind = TokLParen, t_text = ''('', t_pos = 3\<rparr>,
     \<lparr>t_kind = TokIdent, t_text = ''x'', t_pos = 4\<rparr>, \<lparr>t_kind = TokRParen, t_text = '')'', t_pos = 5\<rparr>,
     \<lparr>t_kind = TokEOF, t_text = [], t_pos = 6\<rparr>]"
  by (simp add: lex_eval demo_env_def)

lemma parse_demo: "parse_expression demo_env (Suc (Suc (Suc (Suc (Suc 0)))))
    [\<lparr>t_kind = TokIdent, t_text = ''abs'', t_pos = 0\<rparr>, \<lparr>t_kind = TokLParen, t_text = ''('', t_pos = 3\<rparr>,
     \<lparr>t_kind = TokIdent, t_text = ''x'', t_pos = 4\<rparr>, \<lparr>t_kind = TokRParen, t_text = '')'', t_pos = 5\<rparr>,
     \<lparr>t_kind = TokEOF, t_text = [], t_pos = 6\<rparr>]
   = Inr (CallNode ''ABS'' [FieldNode ''x'' 4] 0, [\<lparr>t_kind = TokEOF, t_text = [], t_pos = 6\<rparr>])"
  by (simp add: parse_or_def parse_and_def parse_comparison_def parse_concat_def
    parse_additive_def parse_multiplicative_def parse_primary_def demo_words is_operator_def
    comparison_operators_def is_keyword_def parse_call_def check_arity_def function_arities_def
    cong: bind_r_weak_cong)

lemma parse_abs_demo: "parse demo_env ''abs(x)'' =
    Inr \<lparr>e_root = CallNode ''ABS'' [FieldNode ''x'' 4] 0, e_src = ''abs(x)''\<rparr>"
proof -
  have "trim_space ''abs(x)'' \<noteq> []" by (simp add: visible_def)
  then show ?thesis by (simp add: parse_def lex_demo parse_demo del: parse_expression.simps)
qed

theorem parse_well_formed_witness:
  "wf_node (CallNode ''ABS'' [FieldNode ''x'' 4] 0)"
  using parse_well_formed [OF parse_abs_demo] by simp

end
