(* ===== verification/Calc_Eval.thy ===== *)
theory Calc_Eval
  imports Calc_Parser
begin

text \<open>
  \<open>value.go\<close>, \<open>eval.go\<close> and \<open>functions.go\<close> of \<open>server/internal/calc\<close>: what a formula computes with,
  the evaluator, the function table and the conversion of the answer to what the column holds. An
  indexing or slicing that Go would reject at run time is the value \<open>Inl Panic\<close>.
\<close>

section \<open>Values\<close>

datatype cvalue = VEmpty | VNum f64 | VText string | VBool bool | VTime gotime

text \<open>
  What a record holds (Go's \<open>any\<close>): the cases \<open>fromStored\<close> tells apart; \<open>SOther\<close> is any other value,
  by its \<open>%v\<close> rendering.
\<close>

datatype stored =
    SNil | SBool bool | SFloat64 f64 | SFloat32 f64 | SInt int | SInt32 int | SInt64 int
  | STime gotime | SBytes string | SString string | SOther string

type_synonym crecord = "string \<Rightarrow> stored option"

definition text_from_stored :: "string \<Rightarrow> cvalue" where
  "text_from_stored s = (if s = [] then VEmpty else VText s)"

fun from_stored :: "stored \<Rightarrow> cvalue" where
  "from_stored SNil = VEmpty"
| "from_stored (SBool b) = VBool b"
| "from_stored (SFloat64 x) = VNum x"
| "from_stored (SFloat32 x) = VNum x"
| "from_stored (SInt i) = VNum (f_of_int i)"
| "from_stored (SInt32 i) = VNum (f_of_int i)"
| "from_stored (SInt64 i) = VNum (f_of_int i)"
| "from_stored (STime t) = VTime t"
| "from_stored (SBytes s) = text_from_stored s"
| "from_stored (SString s) = text_from_stored s"
| "from_stored (SOther s) = text_from_stored s"

definition is_empty :: "cvalue \<Rightarrow> bool" where
  "is_empty v \<longleftrightarrow> v = VEmpty"

fun as_number :: "calc_env \<Rightarrow> nat \<Rightarrow> string \<Rightarrow> cvalue \<Rightarrow> calc_fail + f64" where
  "as_number E p what VEmpty = Inr (Fin 0)"
| "as_number E p what (VNum n) = Inr n"
| "as_number E p what (VBool b) = Inr (if b then Fin 1 else Fin 0)"
| "as_number E p what (VText s) =
     (case env_parse_float E (trim_space s) of
        None \<Rightarrow> error_at p (NotANumber what s)
      | Some n \<Rightarrow> Inr n)"
| "as_number E p what (VTime _) = error_at p (DateAsNumber what)"

definition format_number :: "calc_env \<Rightarrow> f64 \<Rightarrow> string" where
  "format_number E n =
     (if f_is_inf n \<or> n = NaN then []
      else if f_eq n (f_trunc n) \<and> f_lt (f_abs n) (Fin (10 ^ 15))
      then show_int (f_to_int (env_oor E) n)
      else env_format_float E n)"

definition date_layout :: string where
  "date_layout = ''2006-01-02''"

definition rfc3339 :: string where
  "rfc3339 = ''2006-01-02T15:04:05Z07:00''"

fun as_text :: "calc_env \<Rightarrow> cvalue \<Rightarrow> string" where
  "as_text E VEmpty = []"
| "as_text E (VNum n) = format_number E n"
| "as_text E (VText s) = s"
| "as_text E (VBool b) = (if b then ''true'' else ''false'')"
| "as_text E (VTime t) =
     (if t_hour t = 0 \<and> t_minute t = 0 \<and> t_second t = 0 then env_time_format E date_layout t
      else env_time_format E rfc3339 t)"

fun as_bool :: "cvalue \<Rightarrow> bool" where
  "as_bool VEmpty = False"
| "as_bool (VBool b) = b"
| "as_bool (VNum n) = (\<not> f_eq n (Fin 0))"
| "as_bool (VText s) = (trim_space s \<noteq> [])"
| "as_bool (VTime t) = (t_instant t \<noteq> 0)"

definition time_layouts :: "string list" where
  "time_layouts =
     [''2006-01-02T15:04:05.999999999Z07:00'', ''2006-01-02T15:04:05Z07:00'',
      ''2006-01-02 15:04:05.999999999 -0700 MST'', ''2006-01-02 15:04:05'',
      ''2006-01-02T15:04:05'', ''2006-01-02'']"

fun first_parsed :: "(string \<Rightarrow> gotime option) \<Rightarrow> string list \<Rightarrow> gotime option" where
  "first_parsed f [] = None"
| "first_parsed f (l # ls) = (case f l of Some t \<Rightarrow> Some t | None \<Rightarrow> first_parsed f ls)"

definition parse_time :: "calc_env \<Rightarrow> string \<Rightarrow> gotime option" where
  "parse_time E s = first_parsed (\<lambda>l. env_time_parse E l (trim_space s)) time_layouts"

fun as_time :: "calc_env \<Rightarrow> nat \<Rightarrow> string \<Rightarrow> cvalue \<Rightarrow> calc_fail + gotime" where
  "as_time E p what (VTime t) = Inr t"
| "as_time E p what (VText s) =
     (case parse_time E s of Some t \<Rightarrow> Inr t | None \<Rightarrow> error_at p (NotADate what s))"
| "as_time E p what VEmpty = error_at p (EmptyNoDate what)"
| "as_time E p what v = error_at p (NotADate what (as_text E v))"

fun is_numeric :: "calc_env \<Rightarrow> cvalue \<Rightarrow> bool" where
  "is_numeric E (VNum _) = True"
| "is_numeric E (VBool _) = True"
| "is_numeric E (VText s) = (env_parse_float E (trim_space s) \<noteq> None)"
| "is_numeric E _ = False"

definition compare_values :: "calc_env \<Rightarrow> cvalue \<Rightarrow> cvalue \<Rightarrow> nat \<Rightarrow> calc_fail + int" where
  "compare_values E a b p =
     (if is_empty a \<and> is_empty b then Inr 0
      else case (a, b) of
        (VTime x, VTime y) \<Rightarrow>
          Inr (if t_instant x < t_instant y then - 1 else if t_instant y < t_instant x then 1 else 0)
      | _ \<Rightarrow>
          if is_numeric E a \<and> is_numeric E b
          then bind_r (as_number E p ''the left side of the comparison'' a) (\<lambda>x.
                 bind_r (as_number E p ''the right side of the comparison'' b) (\<lambda>y.
                   Inr (if f_lt x y then - 1 else if f_lt y x then 1 else 0)))
          else Inr (str_compare (to_lower (env_uni E) (as_text E a))
                                (to_lower (env_uni E) (as_text E b))))"

section \<open>The functions\<close>

text \<open>\<open>a[i]\<close> of a slice; out of range it is a panic.\<close>

definition nth_r :: "'a list \<Rightarrow> nat \<Rightarrow> calc_fail + 'a" where
  "nth_r xs i = (if i < length xs then Inr (xs ! i) else Inl Panic)"

text \<open>\<open>xs[lo:hi]\<close> of a slice.\<close>

definition slice_r :: "'a list \<Rightarrow> int \<Rightarrow> int \<Rightarrow> calc_fail + 'a list" where
  "slice_r xs lo hi =
     (if 0 \<le> lo \<and> lo \<le> hi \<and> hi \<le> int (length xs)
      then Inr (take (nat hi - nat lo) (drop (nat lo) xs)) else Inl Panic)"

definition text1 :: "calc_env \<Rightarrow> (string \<Rightarrow> string) \<Rightarrow> cvalue list \<Rightarrow> calc_fail + cvalue" where
  "text1 E f args =
     bind_r (nth_r args 0) (\<lambda>a.
       if is_empty a then Inr VEmpty else Inr (VText (f (as_text E a))))"

definition number1 :: "calc_env \<Rightarrow> (f64 \<Rightarrow> f64) \<Rightarrow> nat \<Rightarrow> cvalue list \<Rightarrow> calc_fail + cvalue" where
  "number1 E f p args =
     bind_r (nth_r args 0) (\<lambda>a.
       bind_r (as_number E p ''the argument'' a) (\<lambda>n. Inr (VNum (f n))))"

definition fold_numbers :: "calc_env \<Rightarrow> string \<Rightarrow> (f64 \<Rightarrow> f64 \<Rightarrow> f64) \<Rightarrow> nat \<Rightarrow> cvalue list \<Rightarrow> f64
    \<Rightarrow> calc_fail + f64" where
  "fold_numbers E name f p =
     fold_r (\<lambda>v acc. bind_r (as_number E p (''an argument of '' @ name) v) (\<lambda>n. Inr (f acc n)))"

definition number_fold :: "calc_env \<Rightarrow> string \<Rightarrow> (f64 \<Rightarrow> f64 \<Rightarrow> f64) \<Rightarrow> f64 \<Rightarrow> nat \<Rightarrow> cvalue list
    \<Rightarrow> calc_fail + cvalue" where
  "number_fold E name f start p args =
     bind_r (fold_numbers E name f p args start) (\<lambda>acc. Inr (VNum acc))"

definition number_reduce :: "calc_env \<Rightarrow> string \<Rightarrow> (f64 \<Rightarrow> f64 \<Rightarrow> f64) \<Rightarrow> nat \<Rightarrow> cvalue list
    \<Rightarrow> calc_fail + cvalue" where
  "number_reduce E name f p args =
     bind_r (nth_r args 0) (\<lambda>a.
       bind_r (as_number E p (''an argument of '' @ name) a) (\<lambda>acc.
         bind_r (fold_numbers E name f p (tl args) acc) (\<lambda>acc. Inr (VNum acc))))"

definition date_part :: "calc_env \<Rightarrow> (gotime \<Rightarrow> int) \<Rightarrow> nat \<Rightarrow> cvalue list \<Rightarrow> calc_fail + cvalue" where
  "date_part E f p args =
     bind_r (nth_r args 0) (\<lambda>a.
       if is_empty a then Inr VEmpty
       else bind_r (as_time E p ''the argument'' a) (\<lambda>t. Inr (VNum (f_of_int (f t)))))"

definition text_and_count :: "calc_env \<Rightarrow> nat \<Rightarrow> cvalue list \<Rightarrow> calc_fail + (rune list \<times> int)" where
  "text_and_count E p args =
     bind_r (nth_r args 1) (\<lambda>b.
       bind_r (as_number E p ''the number of characters'' b) (\<lambda>n.
         if f_lt n (Fin 0) then error_at p NegativeCount
         else bind_r (nth_r args 0) (\<lambda>a.
                Inr (runes (as_text E a), f_to_int (env_oor E) n))))"

definition call_left :: "calc_env \<Rightarrow> nat \<Rightarrow> cvalue list \<Rightarrow> calc_fail + cvalue" where
  "call_left E p args =
     bind_r (text_and_count E p args) (\<lambda>(rs, n).
       let n = (if n > int (length rs) then int (length rs) else n)
       in bind_r (slice_r rs 0 n) (\<lambda>out. Inr (VText (of_runes out))))"

definition call_right :: "calc_env \<Rightarrow> nat \<Rightarrow> cvalue list \<Rightarrow> calc_fail + cvalue" where
  "call_right E p args =
     bind_r (text_and_count E p args) (\<lambda>(rs, n).
       let n = (if n > int (length rs) then int (length rs) else n)
       in bind_r (slice_r rs (wrap64 (int (length rs) - n)) (int (length rs)))
            (\<lambda>out. Inr (VText (of_runes out))))"

definition call_middle :: "calc_env \<Rightarrow> nat \<Rightarrow> cvalue list \<Rightarrow> calc_fail + cvalue" where
  "call_middle E p args =
     bind_r (nth_r args 0) (\<lambda>a. bind_r (nth_r args 1) (\<lambda>b. bind_r (nth_r args 2) (\<lambda>c.
       let rs = runes (as_text E a)
       in bind_r (as_number E p ''the start position of MIDDLE'' b) (\<lambda>start.
          bind_r (as_number E p ''the length given to MIDDLE'' c) (\<lambda>cnt.
            let from0 = wrap64 (f_to_int (env_oor E) start - 1);
                from = (if from0 < 0 then 0 else from0)
            in if from \<ge> int (length rs) \<or> f_le cnt (Fin 0) then Inr VEmpty
               else let to0 = wrap64 (from + f_to_int (env_oor E) cnt);
                        to = (if to0 > int (length rs) then int (length rs) else to0)
                    in bind_r (slice_r rs from to) (\<lambda>out. Inr (VText (of_runes out))))))))"

definition call_round :: "calc_env \<Rightarrow> nat \<Rightarrow> cvalue list \<Rightarrow> calc_fail + cvalue" where
  "call_round E p args =
     bind_r (nth_r args 0) (\<lambda>a.
       bind_r (as_number E p ''the number given to ROUND'' a) (\<lambda>n.
         bind_r (if length args = 2
                 then bind_r (nth_r args 1) (as_number E p ''the decimal places given to ROUND'')
                 else Inr (Fin 0)) (\<lambda>places.
           let factor = env_pow E (Fin 10) places
           in Inr (VNum (f_div (f_round (f_mul n factor)) factor)))))"

definition call_average :: "calc_env \<Rightarrow> nat \<Rightarrow> cvalue list \<Rightarrow> calc_fail + cvalue" where
  "call_average E p args =
     bind_r (fold_numbers E ''AVERAGE'' f_add p args (Fin 0)) (\<lambda>total.
       Inr (VNum (f_div total (f_of_int (int (length args))))))"

definition call_list :: "calc_env \<Rightarrow> cvalue list \<Rightarrow> calc_fail + cvalue" where
  "call_list E args =
     (let parts = map (as_text E) (filter (\<lambda>v. \<not> is_empty v) args)
      in if parts = [] then Inr VEmpty else Inr (VText (join [CHR 10] parts)))"

definition call_coalesce :: "cvalue list \<Rightarrow> calc_fail + cvalue" where
  "call_coalesce args =
     Inr (case find (\<lambda>v. \<not> is_empty v) args of Some v \<Rightarrow> v | None \<Rightarrow> VEmpty)"

definition call_substitute :: "calc_env \<Rightarrow> cvalue list \<Rightarrow> calc_fail + cvalue" where
  "call_substitute E args =
     bind_r (nth_r args 0) (\<lambda>a. bind_r (nth_r args 1) (\<lambda>b. bind_r (nth_r args 2) (\<lambda>c.
       Inr (VText (replace_all (as_text E a) (as_text E b) (as_text E c))))))"

text \<open>\<open>functions[name].call\<close>; a name that is not in the table is a call of a nil function.\<close>

definition call_function :: "calc_env \<Rightarrow> string \<Rightarrow> nat \<Rightarrow> cvalue list \<Rightarrow> calc_fail + cvalue" where
  "call_function E name p a =
     (if name = ''IF'' \<or> name = ''CASE'' then error_at p (EvaluatedDirectly name)
      else if name = ''UPPER'' then text1 E (to_upper (env_uni E)) a
      else if name = ''LOWER'' then text1 E (to_lower (env_uni E)) a
      else if name = ''TRIM'' then text1 E trim_space a
      else if name = ''LENGTH''
      then bind_r (nth_r a 0) (\<lambda>v. Inr (VNum (f_of_int (int (length (runes (as_text E v)))))))
      else if name = ''SUBSTITUTE'' then call_substitute E a
      else if name = ''LIST'' then call_list E a
      else if name = ''CONCAT'' then Inr (VText (concat (map (as_text E) a)))
      else if name = ''LEFT'' then call_left E p a
      else if name = ''RIGHT'' then call_right E p a
      else if name = ''MIDDLE'' then call_middle E p a
      else if name = ''ROUND'' then call_round E p a
      else if name = ''ABS'' then number1 E f_abs p a
      else if name = ''SUM'' then number_fold E ''SUM'' f_add (Fin 0) p a
      else if name = ''MIN'' then number_reduce E ''MIN'' f_min p a
      else if name = ''MAX'' then number_reduce E ''MAX'' f_max p a
      else if name = ''AVERAGE'' then call_average E p a
      else if name = ''ISEMPTY'' then bind_r (nth_r a 0) (\<lambda>v. Inr (VBool (is_empty v)))
      else if name = ''COALESCE'' then call_coalesce a
      else if name = ''TODAY''
      then let now = env_utc E (env_now E)
           in Inr (VTime (env_date_utc E (t_year now) (t_month now) (t_day now)))
      else if name = ''NOW'' then Inr (VTime (env_utc E (env_now E)))
      else if name = ''YEAR'' then date_part E t_year p a
      else if name = ''MONTH'' then date_part E t_month p a
      else if name = ''DAY'' then date_part E t_day p a
      else Inl Panic)"

section \<open>The evaluator\<close>

text \<open>
  The loop of CASE over test and branch pairs: the branch of the first test that holds, else the
  odd argument at the end, else empty. \<open>ev\<close> evaluates an argument.
\<close>

fun case_loop :: "('n \<Rightarrow> calc_fail + cvalue) \<Rightarrow> 'n list \<Rightarrow> calc_fail + cvalue" where
  "case_loop ev [] = Inr VEmpty"
| "case_loop ev [d] = ev d"
| "case_loop ev (t # b # rest) =
     bind_r (ev t) (\<lambda>v. if as_bool v then ev b else case_loop ev rest)"

definition if_call :: "('n \<Rightarrow> calc_fail + cvalue) \<Rightarrow> 'n list \<Rightarrow> calc_fail + cvalue" where
  "if_call ev args =
     (case args of
        [] \<Rightarrow> Inl Panic
      | c # rest \<Rightarrow>
          bind_r (ev c) (\<lambda>test.
            if as_bool test then (case rest of [] \<Rightarrow> Inl Panic | a # _ \<Rightarrow> ev a)
            else (case rest of [_, b] \<Rightarrow> ev b | _ \<Rightarrow> Inr VEmpty)))"

lemma case_loop_cong [fundef_cong]:
  "xs = ys \<Longrightarrow> (\<And>x. x \<in> set ys \<Longrightarrow> f x = g x) \<Longrightarrow> case_loop f xs = case_loop g ys"
proof (induction f xs arbitrary: ys rule: case_loop.induct)
  case (3 f t b rest)
  then have "case_loop f rest = case_loop g rest" if "f t = Inr v" "\<not> as_bool v" for v
    using that by auto
  with 3 show ?case by (cases "f t") (auto intro!: bind_r_cong)
qed auto

lemma if_call_cong [fundef_cong]:
  "xs = ys \<Longrightarrow> (\<And>x. x \<in> set ys \<Longrightarrow> f x = g x) \<Longrightarrow> if_call f xs = if_call g ys"
  unfolding if_call_def by (cases ys) (auto intro!: bind_r_cong split: list.splits)

definition arithmetic :: "calc_env \<Rightarrow> string \<Rightarrow> nat \<Rightarrow> cvalue \<Rightarrow> cvalue \<Rightarrow> calc_fail + cvalue" where
  "arithmetic E op p left right =
     bind_r (as_number E p (''the left side of '' @ op) left) (\<lambda>a.
       bind_r (as_number E p (''the right side of '' @ op) right) (\<lambda>b.
         if op = ''+'' then Inr (VNum (f_add a b))
         else if op = ''-'' then Inr (VNum (f_sub a b))
         else if op = ''*'' then Inr (VNum (f_mul a b))
         else if f_eq b (Fin 0) then error_at p DivisionByZero
         else Inr (VNum (f_div a b))))"

definition comparison_result :: "string \<Rightarrow> nat \<Rightarrow> int \<Rightarrow> calc_fail + cvalue" where
  "comparison_result op p c =
     (if op = ''='' \<or> op = ''=='' then Inr (VBool (c = 0))
      else if op = ''<>'' \<or> op = ''!='' then Inr (VBool (c \<noteq> 0))
      else if op = ''<'' then Inr (VBool (c < 0))
      else if op = ''<='' then Inr (VBool (c \<le> 0))
      else if op = ''>'' then Inr (VBool (c > 0))
      else if op = ''>='' then Inr (VBool (c \<ge> 0))
      else error_at p (UnknownOperator op))"

text \<open>\<open>evalBinary\<close> after both sides are evaluated.\<close>

definition strict_binary :: "calc_env \<Rightarrow> string \<Rightarrow> nat \<Rightarrow> cvalue \<Rightarrow> cvalue \<Rightarrow> calc_fail + cvalue" where
  "strict_binary E op p left right =
     (if op = ''&'' then Inr (VText (as_text E left @ as_text E right))
      else if op \<in> {''+'', ''-'', ''*'', ''/''} then arithmetic E op p left right
      else bind_r (compare_values E left right p) (comparison_result op p))"

definition unary_result :: "calc_env \<Rightarrow> string \<Rightarrow> nat \<Rightarrow> cvalue \<Rightarrow> calc_fail + cvalue" where
  "unary_result E op p v =
     (if op = ''-'' then bind_r (as_number E p ''the value being negated'' v) (\<lambda>n. Inr (VNum (f_neg n)))
      else if op = ''NOT'' then Inr (VBool (\<not> as_bool v))
      else error_at p (UnknownOperator op))"

fun eval :: "calc_env \<Rightarrow> crecord \<Rightarrow> node \<Rightarrow> calc_fail + cvalue" where
  "eval E R (NumberNode n _) = Inr (VNum n)"
| "eval E R (TextNode s _) = Inr (VText s)"
| "eval E R (BoolNode b _) = Inr (VBool b)"
| "eval E R (FieldNode name _) =
     Inr (case R name of None \<Rightarrow> VEmpty | Some raw \<Rightarrow> from_stored raw)"
| "eval E R (UnaryNode op operand p) = bind_r (eval E R operand) (unary_result E op p)"
| "eval E R (BinaryNode op l r p) =
     bind_r (eval E R l) (\<lambda>left.
       if op = ''AND'' \<and> \<not> as_bool left then Inr (VBool False)
       else if op = ''OR'' \<and> as_bool left then Inr (VBool True)
       else bind_r (eval E R r) (\<lambda>right.
              if op = ''AND'' \<or> op = ''OR'' then Inr (VBool (as_bool right))
              else strict_binary E op p left right))"
| "eval E R (CallNode name args p) =
     (if name = ''IF'' then if_call (eval E R) args
      else if name = ''CASE'' then case_loop (eval E R) args
      else bind_r (map_r (eval E R) args) (call_function E name p))"

section \<open>Storing the answer\<close>

datatype result_type = ResultText | ResultNumber | ResultDate | ResultTimestamp | ResultBoolean

definition parse_result_type :: "unicode \<Rightarrow> string \<Rightarrow> result_type" where
  "parse_result_type U s =
     (let t = to_upper U (trim_space s)
      in if t \<in> {''NUMBER'', ''NUMERIC'', ''DECIMAL''} then ResultNumber
         else if t = ''DATE'' then ResultDate
         else if t \<in> {''TIME'', ''TIMESTAMP'', ''DATETIME''} then ResultTimestamp
         else if t \<in> {''BOOLEAN'', ''BOOL''} then ResultBoolean
         else ResultText)"

definition store_value :: "calc_env \<Rightarrow> nat \<Rightarrow> result_type \<Rightarrow> cvalue \<Rightarrow> calc_fail + stored" where
  "store_value E p result v =
     (if is_empty v then Inr SNil
      else case result of
        ResultNumber \<Rightarrow>
          bind_r (as_number E p ''the result of the formula'' v) (\<lambda>n. Inr (SFloat64 n))
      | ResultBoolean \<Rightarrow> Inr (SBool (as_bool v))
      | ResultDate \<Rightarrow>
          bind_r (as_time E p ''the result of the formula'' v)
            (\<lambda>t. Inr (SString (env_time_format E date_layout t)))
      | ResultTimestamp \<Rightarrow>
          bind_r (as_time E p ''the result of the formula'' v)
            (\<lambda>t. Inr (SString (env_time_format E rfc3339 t)))
      | ResultText \<Rightarrow> Inr (SString (as_text E v)))"

text \<open>\<open>Evaluate\<close>; \<open>None\<close> is the nil \<open>*Expr\<close>.\<close>

definition evaluate :: "calc_env \<Rightarrow> expr option \<Rightarrow> crecord \<Rightarrow> result_type \<Rightarrow> calc_fail + stored" where
  "evaluate E e R result =
     (case e of
        None \<Rightarrow> Inr SNil
      | Some e \<Rightarrow> bind_r (eval E R (e_root e)) (store_value E (node_pos (e_root e)) result))"

section \<open>What the evaluator depends on\<close>

lemma eval_depends_on_fields:
  "\<forall>f \<in> collect_fields n. R f = R' f \<Longrightarrow> eval E R n = eval E R' n"
proof (induction n)
  case (BinaryNode op l r p)
  then show ?case by (auto intro!: bind_r_cong)
next
  case (CallNode name args p)
  then have "eval E R a = eval E R' a" if "a \<in> set args" for a
    using that by auto
  then show ?case by (auto cong: map_r_cong case_loop_cong if_call_cong)
qed auto

section \<open>Where an evaluation can fail\<close>

fun node_positions :: "node \<Rightarrow> nat set" where
  "node_positions (UnaryNode _ operand p) = insert p (node_positions operand)"
| "node_positions (BinaryNode _ l r p) = insert p (node_positions l \<union> node_positions r)"
| "node_positions (CallNode _ args p) = insert p (\<Union>a \<in> set args. node_positions a)"
| "node_positions n = {node_pos n}"

lemma node_pos_in_positions: "node_pos n \<in> node_positions n"
  by (cases n) auto

definition ends_at :: "nat set \<Rightarrow> calc_fail + 'a \<Rightarrow> bool" where
  "ends_at P r \<longleftrightarrow> (case r of Inr _ \<Rightarrow> True | Inl (Failed e) \<Rightarrow> err_pos e \<in> P | _ \<Rightarrow> False)"

lemma ends_at_simps [simp]:
  "ends_at P (Inr x)"
  "ends_at P (error_at p m) \<longleftrightarrow> p \<in> P"
  "\<not> ends_at P (Inl Panic)"
  "\<not> ends_at P (Inl OutOfFuel)"
  by (simp_all add: ends_at_def error_at_def)

lemma ends_at_bind [intro]:
  "ends_at P m \<Longrightarrow> (\<And>x. m = Inr x \<Longrightarrow> ends_at P (f x)) \<Longrightarrow> ends_at P (bind_r m f)"
  by (cases m) (auto simp: ends_at_def split: calc_fail.splits)

lemma ends_at_mono: "ends_at P r \<Longrightarrow> P \<subseteq> Q \<Longrightarrow> ends_at Q r"
  by (auto simp: ends_at_def split: sum.splits calc_fail.splits)

lemma ends_at_map_r: "(\<And>x. x \<in> set xs \<Longrightarrow> ends_at P (f x)) \<Longrightarrow> ends_at P (map_r f xs)"
proof (induction xs)
  case (Cons x xs)
  then show ?case by (auto intro!: ends_at_bind)
qed simp

lemma ends_at_fold_r: "(\<And>x s. x \<in> set xs \<Longrightarrow> ends_at P (f x s)) \<Longrightarrow> ends_at P (fold_r f xs s)"
  by (induction xs arbitrary: s) auto

lemma ends_at_nth_r [simp]: "ends_at P (nth_r xs i) \<longleftrightarrow> i < length xs"
  by (simp add: nth_r_def)

lemma ends_at_as_number [simp]: "p \<in> P \<Longrightarrow> ends_at P (as_number E p w v)"
  by (cases v) (auto split: option.splits)

lemma ends_at_as_time [simp]: "p \<in> P \<Longrightarrow> ends_at P (as_time E p w v)"
  by (cases v) (auto split: option.splits)

lemma numeric_as_number: "is_numeric E v \<Longrightarrow> \<exists>x. \<forall>p w. as_number E p w v = Inr x"
  by (cases v) auto

lemma compare_total: "\<exists>c. \<forall>p. compare_values E a b p = Inr c"
proof (cases "is_empty a \<and> is_empty b \<or> (\<exists>x y. a = VTime x \<and> b = VTime y) \<or> \<not> (is_numeric E a \<and> is_numeric E b)")
  case True
  then show ?thesis by (cases a; cases b) (auto simp: compare_values_def is_empty_def)
next
  case False
  then have "is_numeric E a" "is_numeric E b" by auto
  from this [THEN numeric_as_number] obtain x y
    where "\<forall>p w. as_number E p w a = Inr x" "\<forall>p w. as_number E p w b = Inr y" by blast
  with False show ?thesis by (cases a; cases b) (auto simp: compare_values_def is_empty_def)
qed

lemma ends_at_case_loop: "(\<And>x. x \<in> set xs \<Longrightarrow> ends_at P (f x)) \<Longrightarrow> ends_at P (case_loop f xs)"
  by (induction f xs rule: case_loop.induct) auto

lemma ends_at_if_call:
  "(\<And>x. x \<in> set xs \<Longrightarrow> ends_at P (f x)) \<Longrightarrow> 2 \<le> length xs \<Longrightarrow> ends_at P (if_call f xs)"
  unfolding if_call_def by (auto split: list.splits)

lemma ends_at_fold_numbers [simp]: "p \<in> P \<Longrightarrow> ends_at P (fold_numbers E name f p args acc)"
  unfolding fold_numbers_def by (rule ends_at_fold_r) auto


section \<open>Functions\<close>

lemma as_number_bind [intro]:
  "p \<in> P \<Longrightarrow> (\<And>n. ends_at P (f n)) \<Longrightarrow> ends_at P (bind_r (as_number E p w v) f)"
  by (rule ends_at_bind) auto

lemma nth_r_bind [intro]:
  "i < length xs \<Longrightarrow> ends_at P (f (xs ! i)) \<Longrightarrow> ends_at P (bind_r (nth_r xs i) f)"
  by (simp add: nth_r_def)

lemma text1_ends [simp]: "0 < length a \<Longrightarrow> ends_at P (text1 E f a)"
  by (simp add: text1_def nth_r_bind)

lemma number1_ends [simp]: "0 < length a \<Longrightarrow> p \<in> P \<Longrightarrow> ends_at P (number1 E f p a)"
  by (simp add: number1_def nth_r_bind as_number_bind)

lemma number_fold_ends [simp]: "p \<in> P \<Longrightarrow> ends_at P (number_fold E name f s p a)"
  by (simp add: number_fold_def ends_at_bind)

lemma number_reduce_ends [simp]: "0 < length a \<Longrightarrow> p \<in> P \<Longrightarrow> ends_at P (number_reduce E name f p a)"
  by (simp add: number_reduce_def nth_r_bind as_number_bind ends_at_bind)

lemma date_part_ends [simp]: "0 < length a \<Longrightarrow> p \<in> P \<Longrightarrow> ends_at P (date_part E f p a)"
  by (auto simp: date_part_def intro!: nth_r_bind ends_at_bind)

lemma call_round_ends [simp]: "0 < length a \<Longrightarrow> p \<in> P \<Longrightarrow> ends_at P (call_round E p a)"
  by (auto simp: call_round_def Let_def intro!: nth_r_bind as_number_bind ends_at_bind)

lemma call_average_ends [simp]: "p \<in> P \<Longrightarrow> ends_at P (call_average E p a)"
  by (simp add: call_average_def ends_at_bind)

lemma call_list_ends [simp]: "ends_at P (call_list E a)"
  by (simp add: call_list_def Let_def)

lemma call_coalesce_ends [simp]: "ends_at P (call_coalesce a)"
  by (simp add: call_coalesce_def)

lemma call_substitute_ends [simp]: "2 < length a \<Longrightarrow> ends_at P (call_substitute E a)"
  by (auto simp: call_substitute_def intro!: nth_r_bind)

definition slicing_functions :: "string list" where
  "slicing_functions = [''LEFT'', ''RIGHT'', ''MIDDLE'']"

lemma call_function_ends:
  assumes "arity_ok name (length a)" and "p \<in> P" and "name \<notin> set slicing_functions"
    and "name \<noteq> ''IF''" and "name \<noteq> ''CASE''"
  shows "ends_at P (call_function E name p a)"
proof -
  from assms(1) obtain mm where mm: "map_of function_arities name = Some mm" "fst mm \<le> int (length a)"
    by (auto simp: arity_ok_def split: option.splits)
  then have "(name, mm) \<in> set function_arities" by (simp add: map_of_SomeD)
  with assms mm(2) show ?thesis
    unfolding function_arities_def set_simps insert_iff empty_iff
    by (elim disjE)
       (simp_all add: call_function_def slicing_functions_def nth_r_bind Let_def Suc_le_eq)
qed

fun calls :: "node \<Rightarrow> string set" where
  "calls (UnaryNode _ operand _) = calls operand"
| "calls (BinaryNode _ l r _) = calls l \<union> calls r"
| "calls (CallNode name args _) = insert name (\<Union>a \<in> set args. calls a)"
| "calls _ = {}"

lemma strict_binary_ends:
  assumes "op \<in> set binary_operators" and "op \<noteq> ''AND''" and "op \<noteq> ''OR''" and "p \<in> P"
  shows "ends_at P (strict_binary E op p left right)"
proof -
  obtain c where c: "compare_values E left right p = Inr c" using compare_total by blast
  have "ends_at P (arithmetic E op p left right)"
    using assms(4) by (auto simp: arithmetic_def intro!: as_number_bind)
  with c assms show ?thesis
    by (auto simp: strict_binary_def comparison_result_def binary_operators_def
          comparison_operators_def)
qed

lemma eval_ends:
  "wf_node n \<Longrightarrow> calls n \<inter> set slicing_functions = {} \<Longrightarrow>
   ends_at (node_positions n) (eval E R n)"
proof (induction n)
  case (UnaryNode op n p)
  then have "ends_at (node_positions (UnaryNode op n p)) (eval E R n)"
    by (auto elim: ends_at_mono)
  then show ?case
    using UnaryNode.prems by (auto simp: unary_result_def intro!: ends_at_bind)
next
  case (BinaryNode op l r p)
  then have "ends_at (node_positions (BinaryNode op l r p)) (eval E R l)"
    "ends_at (node_positions (BinaryNode op l r p)) (eval E R r)"
    by (auto simp: Int_Un_distrib2 elim: ends_at_mono)
  then show ?case
    using BinaryNode.prems by (auto intro!: ends_at_bind strict_binary_ends)
next
  case (CallNode name args p)
  let ?P = "node_positions (CallNode name args p)"
  have args: "ends_at ?P (eval E R a)" if "a \<in> set args" for a
    using CallNode.IH [OF that] CallNode.prems that by (fastforce elim!: ends_at_mono)
  have two: "2 \<le> length args" if "name = ''IF''"
    using CallNode.prems that by (simp add: arity_ok_def function_arities_def)
  have call: "ends_at ?P (call_function E name p vs)"
    if "map_r (eval E R) args = Inr vs" "name \<noteq> ''IF''" "name \<noteq> ''CASE''" for vs
    using call_function_ends [of name vs p ?P E] map_r_Inr_length [OF that(1)] that CallNode.prems
    by auto
  have ifc: "ends_at ?P (if_call (eval E R) args)" if "name = ''IF''"
    using two [OF that] by (rule ends_at_if_call [rotated]) (rule args)
  have casec: "ends_at ?P (case_loop (eval E R) args)"
    by (rule ends_at_case_loop) (rule args)
  have "ends_at ?P (bind_r (map_r (eval E R) args) (call_function E name p))"
    if "name \<noteq> ''IF''" "name \<noteq> ''CASE''"
    by (rule ends_at_bind [OF ends_at_map_r]) (use args call that in blast)+
  with ifc casec show ?case
    by (cases "name = ''IF''"; cases "name = ''CASE''") (simp_all del: node_positions.simps)
qed auto

lemma store_value_ends: "p \<in> P \<Longrightarrow> ends_at P (store_value E p t v)"
  by (cases t) (auto simp: store_value_def intro!: ends_at_bind)

lemma finite_collect_fields [simp]: "finite (collect_fields n)"
  by (induction n) auto

section \<open>Properties\<close>

text \<open>
  C7. Evaluating a formula that parsed, and that calls none of LEFT, RIGHT and MIDDLE, never panics:
  whatever is in the record it gives an answer or an error, and the error is placed at a part of
  the formula.
\<close>

theorem evaluate_never_panics:
  assumes "wf_node (e_root e)" and "calls (e_root e) \<inter> set slicing_functions = {}"
  shows "ends_at (node_positions (e_root e)) (evaluate E (Some e) R t)"
  using eval_ends [OF assms] store_value_ends [OF node_pos_in_positions]
  by (auto simp: evaluate_def)

text \<open>
  The answer depends on the record only through the fields \<open>Expr.Fields\<close> lists, which is what
  lets \<open>Order\<close> and the callers decide from that list which formulas a change can affect.
\<close>

theorem evaluate_depends_on_fields:
  assumes "\<forall>f \<in> set (expr_fields e). R f = R' f"
  shows "evaluate E (Some e) R t = evaluate E (Some e) R' t"
  using eval_depends_on_fields [of "e_root e" R R' E] assms
  by (simp add: evaluate_def expr_fields_def)

fun stored_fits :: "result_type \<Rightarrow> stored \<Rightarrow> bool" where
  "stored_fits t SNil = True"
| "stored_fits ResultNumber s = (\<exists>n. s = SFloat64 n)"
| "stored_fits ResultBoolean s = (\<exists>b. s = SBool b)"
| "stored_fits _ s = (\<exists>x. s = SString x)"


text \<open>
  The comparison never fails and is antisymmetric: the outcome is -1, 0 or 1, the same wherever
  the operator stands in the formula, and swapping the two sides negates it.
\<close>

theorem compare_antisymmetric:
  "\<exists>c \<in> {- 1, 0, 1}. compare_values E a b p = Inr c \<and> compare_values E b a q = Inr (- c)"
proof (cases "is_numeric E a \<and> is_numeric E b")
  case True
  then have "is_numeric E a" "is_numeric E b" by auto
  from this [THEN numeric_as_number] obtain x y
    where xy: "\<forall>p w. as_number E p w a = Inr x" "\<forall>p w. as_number E p w b = Inr y" by blast
  have "f_lt x y \<Longrightarrow> \<not> f_lt y x" by (rule f_lt_asym)
  with True xy show ?thesis by (cases a; cases b) (auto simp: compare_values_def is_empty_def)
next
  case False
  then show ?thesis
    by (cases a; cases b) (auto simp: compare_values_def is_empty_def str_compare_def)
qed

theorem evaluate_never_panics_witness:
  "ends_at {0, 4} (evaluate demo_env (Some \<lparr>e_root = CallNode ''ABS'' [FieldNode ''x'' 4] 0, e_src = ''abs(x)''\<rparr>)
     (\<lambda>_. Some (SString ''many'')) ResultNumber)"
  using evaluate_never_panics [of "\<lparr>e_root = CallNode ''ABS'' [FieldNode ''x'' 4] 0, e_src = ''abs(x)''\<rparr>"
      demo_env "\<lambda>_. Some (SString ''many'')" ResultNumber]
  by (simp add: arity_ok_def function_arities_def slicing_functions_def)

theorem evaluate_depends_on_fields_witness:
  "evaluate demo_env (Some \<lparr>e_root = FieldNode ''x'' 0, e_src = ''x''\<rparr>) (\<lambda>_. Some (SBool True)) ResultBoolean
   = evaluate demo_env (Some \<lparr>e_root = FieldNode ''x'' 0, e_src = ''x''\<rparr>)
       (\<lambda>f. if f = ''x'' then Some (SBool True) else None) ResultBoolean"
  by (rule evaluate_depends_on_fields) (simp add: expr_fields_def)

lemma case_loop_first:
  assumes "i < length bs"
    and "\<forall>j < i. \<exists>v. ev (fst (bs ! j)) = Inr v \<and> \<not> as_bool v"
    and "ev (fst (bs ! i)) = Inr v" and "as_bool v"
  shows "case_loop ev (concat (map (\<lambda>(t, b). [t, b]) bs) @ rest) = ev (snd (bs ! i))"
  using assms
proof (induction bs arbitrary: i)
  case (Cons tb bs)
  show ?case
  proof (cases i)
    case 0
    with Cons.prems show ?thesis by (cases tb) simp
  next
    case (Suc k)
    have "\<forall>j < k. \<exists>v. ev (fst (bs ! j)) = Inr v \<and> \<not> as_bool v"
      using Cons.prems(2) Suc by (metis Suc_less_eq nth_Cons_Suc)
    moreover obtain w where "ev (fst tb) = Inr w" "\<not> as_bool w"
      using Cons.prems(2) Suc by fastforce
    ultimately show ?thesis using Cons Suc by (auto split: prod.splits)
  qed
qed simp

text \<open>
  CASE takes the branch of its first true test: when the tests before it are false, the tests
  and branches after it and the default do not matter, not even by failing.
\<close>

theorem case_first_true_branch:
  assumes "i < length bs"
    and "\<forall>j < i. \<exists>v. eval E R (fst (bs ! j)) = Inr v \<and> \<not> as_bool v"
    and "eval E R (fst (bs ! i)) = Inr v" and "as_bool v"
  shows "eval E R (CallNode ''CASE'' (concat (map (\<lambda>(t, b). [t, b]) bs) @ rest) p)
         = eval E R (snd (bs ! i))"
  using case_loop_first [OF assms] by simp

theorem case_first_true_branch_witness:
  "eval demo_env (\<lambda>_. None) (CallNode ''CASE''
      [BoolNode False 5, UnaryNode ''-'' (TextNode ''a'' 13) 12, BoolNode True 18, TextNode ''yes'' 24] 0)
   = Inr (VText ''yes'')"
  using case_first_true_branch [of 1 "[(BoolNode False 5, UnaryNode ''-'' (TextNode ''a'' 13) 12),
      (BoolNode True 18, TextNode ''yes'' 24)]" demo_env "\<lambda>_. None" "VBool True" "[]" 0]
  by simp

lemma text_and_count_num:
  "0 \<le> r \<Longrightarrow> \<lfloor>r\<rfloor> < 2 ^ 63 \<Longrightarrow>
   text_and_count E p [VText s, VNum (Fin r)] = Inr (runes s, \<lfloor>r\<rfloor>)"
  by (auto simp: text_and_count_def nth_r_def f_lt_def rat_trunc_def)

lemma call_left_count:
  assumes "text_and_count E p args = Inr (rs, k)" and "0 \<le> k"
  shows "call_left E p args = Inr (VText (of_runes (take (nat k) rs)))"
  using assms by (auto simp: call_left_def slice_r_def Let_def)

lemma call_right_count:
  assumes "text_and_count E p args = Inr (rs, k)" and "0 \<le> k" and "length rs < 2 ^ 63"
  shows "call_right E p args = Inr (VText (of_runes (drop (length rs - nat k) rs)))"
proof (cases "k > int (length rs)")
  case True
  with assms show ?thesis by (auto simp: call_right_def slice_r_def Let_def)
next
  case False
  have w: "wrap64 (int (length rs) - k) = int (length rs) - k"
    by (rule wrap64_id) (use assms False in simp_all)
  have "nat (int (length rs) - k) = length rs - nat k"
    using assms(2) by (simp add: nat_diff_distrib)
  with False assms w show ?thesis by (simp add: call_right_def slice_r_def Let_def)
qed

lemma call_middle_count:
  assumes "f_to_int (env_oor E) x = ka" and "f_to_int (env_oor E) y = k" and "\<not> f_le y (Fin 0)"
    and "1 \<le> ka" and "0 \<le> k" and "ka + k < 2 ^ 63"
  shows "call_middle E p [VText s, VNum x, VNum y] =
      Inr (if length (runes s) < nat ka then VEmpty
           else VText (of_runes (take (nat k) (drop (nat ka - 1) (runes s)))))"
proof -
  let ?rs = "runes s"
  have w: "wrap64 (ka - 1) = ka - 1" "wrap64 (ka - 1 + k) = ka - 1 + k"
    by (rule wrap64_id; use assms in simp)+
  show ?thesis
  proof (cases "int (length ?rs) \<le> ka - 1")
    case True
    then have "length ?rs < nat ka" using assms(4) by simp
    with True assms w show ?thesis by (simp add: call_middle_def nth_r_def Let_def)
  next
    case False
    then have le: "\<not> length ?rs < nat ka" using assms(4) by simp
    have n: "nat (ka - 1) = nat ka - 1" using assms(4) by simp
    show ?thesis
    proof (cases "ka - 1 + k > int (length ?rs)")
      case True
      then have "length ?rs - nat (ka - 1) \<le> nat k" using False by linarith
      with True False le assms w n show ?thesis
        by (simp add: call_middle_def nth_r_def Let_def slice_r_def)
    next
      case in_range: False
      have "nat (ka - 1 + k) - nat (ka - 1) = nat k" using assms(4,5) by linarith
      with in_range False le assms w n show ?thesis
        by (simp add: call_middle_def nth_r_def Let_def slice_r_def)
    qed
  qed
qed

text \<open>
  With counts in the range of \<open>int\<close>, LEFT gives the first and RIGHT the last characters of the
  text, the count rounded down and cut to the length; MIDDLE counts its start from 1.
\<close>

theorem text_slices:
  assumes "0 < r" and "1 \<le> a" and "\<lfloor>a\<rfloor> + \<lfloor>r\<rfloor> < 2 ^ 63" and "length (runes s) < 2 ^ 63"
  shows "call_left E p [VText s, VNum (Fin r)] = Inr (VText (of_runes (take (nat \<lfloor>r\<rfloor>) (runes s)))) \<and>
    call_right E p [VText s, VNum (Fin r)] =
      Inr (VText (of_runes (drop (length (runes s) - nat \<lfloor>r\<rfloor>) (runes s)))) \<and>
    call_middle E p [VText s, VNum (Fin a), VNum (Fin r)] =
      Inr (if length (runes s) < nat \<lfloor>a\<rfloor> then VEmpty
           else VText (of_runes (take (nat \<lfloor>r\<rfloor>) (drop (nat \<lfloor>a\<rfloor> - 1) (runes s)))))"
proof -
  have r: "0 \<le> \<lfloor>r\<rfloor>" and a: "1 \<le> \<lfloor>a\<rfloor>" using assms(1,2) by (simp_all add: le_floor_iff)
  with assms(3) have lt: "\<lfloor>r\<rfloor> < 2 ^ 63" "\<lfloor>a\<rfloor> < 2 ^ 63" by linarith+
  have tc: "text_and_count E p [VText s, VNum (Fin r)] = Inr (runes s, \<lfloor>r\<rfloor>)"
    using assms(1) lt by (intro text_and_count_num) simp_all
  have i: "f_to_int (env_oor E) (Fin r) = \<lfloor>r\<rfloor>" "f_to_int (env_oor E) (Fin a) = \<lfloor>a\<rfloor>"
    using assms(1,2) lt r a by (auto simp: rat_trunc_def)
  have "\<not> f_le (Fin r) (Fin 0)" using assms(1) by (auto simp: f_le_def f_lt_def f_eq_def f_is_zero_def)
  then show ?thesis
    using call_left_count [OF tc r] call_right_count [OF tc r assms(4)]
      call_middle_count [OF i(2,1) _ a r assms(3)] by blast
qed

theorem text_slices_witness:
  "call_left demo_env 0 [VText ''abcd'', VNum (Fin (5 / 2))] = Inr (VText ''ab'') \<and>
   call_right demo_env 0 [VText ''abcd'', VNum (Fin (5 / 2))] = Inr (VText ''cd'') \<and>
   call_middle demo_env 0 [VText ''abcd'', VNum (Fin 2), VNum (Fin (5 / 2))] = Inr (VText ''bc'')"
proof -
  have rs: "runes ''abcd'' = [97, 98, 99, 100]" by (simp add: runes_ascii)
  have fl: "\<lfloor>5 / 2 :: rat\<rfloor> = 2" by (simp add: floor_eq_iff)
  have enc: "encode_rune 97 = ''a''" "encode_rune 98 = ''b''" "encode_rune 99 = ''c''"
    "encode_rune 100 = ''d''"
    by (simp_all add: encode_rune_ascii char_of_def bit_Suc_0_iff)
  show ?thesis
    using text_slices [of "5 / 2" 2 "''abcd''" demo_env 0] unfolding rs fl
    by (simp add: enc)
qed

text \<open>
  Out of that range the conversion of the count is not what the code assumes: on amd64 a count that
  is not a number, as from the text NaN, slips past the test for a negative count and panics.
\<close>

lemma left_of_NaN_panics:
  assumes "env_oor E = amd64_oor"
  shows "call_left E p [v, VNum NaN] = Inl Panic"
  using assms
  by (simp add: call_left_def text_and_count_def nth_r_def amd64_oor_def slice_r_def Let_def)

end
