(* ===== verification/Calc_Order.thy ===== *)
theory Calc_Order
  imports Calc_Eval
begin

text \<open>
  \<open>server/internal/calc/order.go\<close>: the order in which calculation fields are computed. The map
  \<open>reads\<close> is an association list (the code never depends on the iteration order of the map, since
  it sorts the names). \<open>visit\<close> is the closure of the code with its captured variables as the state;
  its recursion depth is bounded by fuel, one more than the number of fields, which
  \<open>visit_total\<close> shows to be enough.
\<close>

section \<open>The depth-first search\<close>

datatype order_fail = CycleError "string list" | VisitFuel

datatype visit_mark = Unvisited | InProgress | Done

record visit_state =
  v_mark :: "string \<Rightarrow> visit_mark"
  v_ordered :: "string list"
  v_stack :: "string list"

definition calc_deps :: "(string \<times> string list) list \<Rightarrow> string \<Rightarrow> string list" where
  "calc_deps reads field =
     (case map_of reads field of
        None \<Rightarrow> []
      | Some names \<Rightarrow> sort (filter (\<lambda>n. map_of reads n \<noteq> None) names))"

definition ring_from :: "string list \<Rightarrow> string \<Rightarrow> string list" where
  "ring_from stack field =
     (if field \<in> set stack then dropWhile (\<lambda>n. n \<noteq> field) stack else stack) @ [field]"

fun visit :: "(string \<Rightarrow> string list) \<Rightarrow> nat \<Rightarrow> string \<Rightarrow> visit_state \<Rightarrow> order_fail + visit_state" where
  "visit deps 0 field s = Inl VisitFuel"
| "visit deps (Suc n) field s =
     (case v_mark s field of
        Done \<Rightarrow> Inr s
      | InProgress \<Rightarrow> Inl (CycleError (ring_from (v_stack s) field))
      | Unvisited \<Rightarrow>
          bind_r (fold_r (visit deps n) (deps field)
                    (s\<lparr>v_mark := (v_mark s)(field := InProgress), v_stack := v_stack s @ [field]\<rparr>))
            (\<lambda>s. Inr (s\<lparr>v_stack := butlast (v_stack s), v_mark := (v_mark s)(field := Done),
                        v_ordered := v_ordered s @ [field]\<rparr>)))"

definition calc_names :: "(string \<times> string list) list \<Rightarrow> string list" where
  "calc_names reads = sort (remdups (map fst reads))"

definition calc_order :: "(string \<times> string list) list \<Rightarrow> order_fail + string list" where
  "calc_order reads =
     bind_r (fold_r (visit (calc_deps reads) (Suc (length (calc_names reads)))) (calc_names reads)
               \<lparr>v_mark = \<lambda>_. Unvisited, v_ordered = [], v_stack = []\<rparr>)
       (\<lambda>s. Inr (v_ordered s))"

section \<open>The invariant of the search\<close>

text \<open>Each element's dependencies stand before it.\<close>

definition deps_before :: "(string \<Rightarrow> string list) \<Rightarrow> string list \<Rightarrow> bool" where
  "deps_before deps xs \<longleftrightarrow> (\<forall>i < length xs. set (deps (xs ! i)) \<subseteq> set (take i xs))"

lemma deps_before_snoc:
  "deps_before deps (xs @ [x]) \<longleftrightarrow> deps_before deps xs \<and> set (deps x) \<subseteq> set xs"
  by (auto simp: deps_before_def nth_append less_Suc_eq)

text \<open>A path along the dependencies.\<close>

fun dep_path :: "(string \<Rightarrow> string list) \<Rightarrow> string list \<Rightarrow> bool" where
  "dep_path deps (a # b # xs) = (b \<in> set (deps a) \<and> dep_path deps (b # xs))"
| "dep_path deps _ = True"

definition is_ring :: "(string \<Rightarrow> string list) \<Rightarrow> string list \<Rightarrow> bool" where
  "is_ring deps c \<longleftrightarrow> 2 \<le> length c \<and> hd c = last c \<and> distinct (tl c) \<and> dep_path deps c"

lemma dep_path_append:
  "dep_path deps (xs @ y # ys) \<longleftrightarrow> dep_path deps (xs @ [y]) \<and> dep_path deps (y # ys)"
proof (induction xs)
  case (Cons x xs)
  then show ?case by (cases xs) auto
qed simp

text \<open>
  The invariant between visits: the stack is the set of fields in progress, in a path of
  dependencies; what is ordered is exactly what is done, without duplicates, dependencies first;
  every field seen is one of \<open>N\<close>.
\<close>

definition search_inv :: "(string \<Rightarrow> string list) \<Rightarrow> string set \<Rightarrow> visit_state \<Rightarrow> bool" where
  "search_inv deps N s \<longleftrightarrow>
     distinct (v_stack s) \<and> (\<forall>f. v_mark s f = InProgress \<longleftrightarrow> f \<in> set (v_stack s)) \<and>
     distinct (v_ordered s) \<and> (\<forall>f. v_mark s f = Done \<longleftrightarrow> f \<in> set (v_ordered s)) \<and>
     deps_before deps (v_ordered s) \<and> dep_path deps (v_stack s) \<and>
     set (v_stack s) \<subseteq> N \<and> set (v_ordered s) \<subseteq> N"

text \<open>What a successful visit of the fields \<open>fs\<close> makes of the state.\<close>

definition extends :: "string set \<Rightarrow> visit_state \<Rightarrow> visit_state \<Rightarrow> bool" where
  "extends fs s s' \<longleftrightarrow> v_stack s' = v_stack s \<and> prefix (v_ordered s) (v_ordered s') \<and>
     fs \<subseteq> set (v_ordered s')"

text \<open>The outcome of a visit: an extended state, or a ring; never out of fuel.\<close>

definition visit_ok :: "(string \<Rightarrow> string list) \<Rightarrow> string set \<Rightarrow> string set \<Rightarrow> visit_state
    \<Rightarrow> order_fail + visit_state \<Rightarrow> bool" where
  "visit_ok deps N fs s r \<longleftrightarrow>
     (case r of
        Inl VisitFuel \<Rightarrow> False
      | Inl (CycleError c) \<Rightarrow> is_ring deps c \<and> set c \<subseteq> N
      | Inr s' \<Rightarrow> search_inv deps N s' \<and> extends fs s s')"

lemma visit_ok_fold:
  assumes step: "\<And>f s. f \<in> set fs \<Longrightarrow> search_inv deps N s \<Longrightarrow> v_stack s = st \<Longrightarrow>
      st \<noteq> [] \<longrightarrow> f \<in> set (deps (last st)) \<Longrightarrow> visit_ok deps N {f} s (g f s)"
    and "search_inv deps N s" and "v_stack s = st" and "st \<noteq> [] \<longrightarrow> set fs \<subseteq> set (deps (last st))"
  shows "visit_ok deps N (set fs) s (fold_r g fs s)"
  using assms
proof (induction fs arbitrary: s)
  case Nil
  then show ?case by (simp add: visit_ok_def extends_def)
next
  case (Cons f fs)
  have v: "visit_ok deps N {f} s (g f s)" using Cons.prems by auto
  show ?case
  proof (cases "g f s")
    case (Inl e)
    with v show ?thesis by (auto simp: visit_ok_def split: order_fail.splits)
  next
    case (Inr s1)
    with v have s1: "search_inv deps N s1" "extends {f} s s1" by (auto simp: visit_ok_def)
    have "visit_ok deps N (set fs) s1 (fold_r g fs s1)"
      using Cons.prems s1 by (intro Cons.IH) (auto simp: extends_def)
    with Inr s1 show ?thesis
      by (auto simp: visit_ok_def extends_def split: sum.splits order_fail.splits
            dest: set_mono_prefix intro: prefix_order.trans)
  qed
qed

lemma ring_from_ring:
  assumes "distinct st" and "dep_path deps st" and "field \<in> set st" and "field \<in> set (deps (last st))"
  shows "is_ring deps (ring_from st field) \<and> set (ring_from st field) \<subseteq> set st"
proof -
  obtain xs ys where st: "st = xs @ field # ys" and xs: "field \<notin> set xs"
    using split_list_first [OF assms(3)] by blast
  have dw: "dropWhile (\<lambda>n. n \<noteq> field) st = field # ys"
    using xs by (auto simp: st dropWhile_append)
  have path: "dep_path deps (field # ys)" using assms(2) st dep_path_append by metis
  have "dep_path deps (field # ys @ [field])"
  proof -
    obtain zs z where z: "field # ys = zs @ [z]" by (metis list.distinct(1) rev_exhaust)
    then have "z = last st" using st by (metis last_appendR last_snoc list.distinct(1))
    then have "dep_path deps (zs @ z # [field])"
      using path assms(4) z by (subst dep_path_append) simp
    then show ?thesis using z by (metis append.assoc append_Cons append_Nil)
  qed
  with dw assms st show ?thesis by (auto simp: is_ring_def ring_from_def)
qed

lemma visit_sound:
  assumes "finite N" and closed: "\<And>f. f \<in> N \<Longrightarrow> set (deps f) \<subseteq> N"
  shows "search_inv deps N s \<Longrightarrow> f \<in> N \<Longrightarrow> (v_stack s \<noteq> [] \<longrightarrow> f \<in> set (deps (last (v_stack s)))) \<Longrightarrow>
    card N < n + length (v_stack s) \<Longrightarrow> visit_ok deps N {f} s (visit deps n f s)"
proof (induction n arbitrary: f s)
  case 0
  have "length (v_stack s) \<le> card N"
    using 0(1) assms(1) unfolding search_inv_def by (metis card_mono distinct_card)
  with 0 show ?case by simp
next
  case (Suc n)
  show ?case
  proof (cases "v_mark s f")
    case Done
    then have "f \<in> set (v_ordered s)" using Suc.prems(1) by (simp add: search_inv_def)
    with Done Suc.prems(1) show ?thesis by (simp add: visit_ok_def extends_def)
  next
    case InProgress
    then have "f \<in> set (v_stack s)" using Suc.prems(1) by (auto simp: search_inv_def)
    then have "is_ring deps (ring_from (v_stack s) f) \<and> set (ring_from (v_stack s) f) \<subseteq> set (v_stack s)"
      using Suc.prems by (intro ring_from_ring) (auto simp: search_inv_def)
    moreover have "set (v_stack s) \<subseteq> N" using Suc.prems(1) by (simp add: search_inv_def)
    ultimately show ?thesis using InProgress by (auto simp: visit_ok_def)
  next
    case Unvisited
    let ?s = "s\<lparr>v_mark := (v_mark s)(f := InProgress), v_stack := v_stack s @ [f]\<rparr>"
    have f: "f \<notin> set (v_stack s)" "f \<notin> set (v_ordered s)"
      using Suc.prems(1) Unvisited unfolding search_inv_def by (metis visit_mark.distinct(1,3))+
    have path: "dep_path deps (v_stack s @ [f])"
    proof (cases "v_stack s" rule: rev_cases)
      case (snoc xs x)
      with Suc.prems show ?thesis using dep_path_append [of deps xs x "[f]"]
        by (simp add: search_inv_def)
    qed simp
    have inv: "search_inv deps N ?s"
      using Suc.prems(1,2) f path by (auto simp: search_inv_def)
    have "visit_ok deps N (set (deps f)) ?s (fold_r (visit deps n) (deps f) ?s)"
    proof (rule visit_ok_fold [where st = "v_stack s @ [f]"])
      fix g t
      assume "g \<in> set (deps f)" "search_inv deps N t" "v_stack t = v_stack s @ [f]"
      then show "visit_ok deps N {g} t (visit deps n g t)"
        using closed [OF Suc.prems(2)] Suc.prems(4) by (intro Suc.IH) auto
    qed (use inv in auto)
    then show ?thesis
    proof (cases "fold_r (visit deps n) (deps f) ?s")
      case (Inl e)
      with Unvisited \<open>visit_ok _ _ _ _ _\<close> show ?thesis
        by (auto simp: visit_ok_def split: order_fail.splits)
    next
      case (Inr t)
      with \<open>visit_ok _ _ _ _ _\<close> have t: "search_inv deps N t" "extends (set (deps f)) ?s t"
        by (auto simp: visit_ok_def)
      let ?u = "t\<lparr>v_stack := butlast (v_stack t), v_mark := (v_mark t)(f := Done),
          v_ordered := v_ordered t @ [f]\<rparr>"
      have st: "v_stack t = v_stack s @ [f]" using t(2) by (simp add: extends_def)
      have "f \<notin> set (v_ordered t)" using t(1) st unfolding search_inv_def
        by (metis in_set_conv_decomp visit_mark.distinct(5))
      moreover have "dep_path deps (v_stack s)" using Suc.prems(1) by (simp add: search_inv_def)
      ultimately have "search_inv deps N ?u"
        using t st Suc.prems(2) f(1)
        by (auto simp: search_inv_def extends_def deps_before_snoc)
      moreover have "extends {f} s ?u" using t st by (auto simp: extends_def prefix_def)
      ultimately show ?thesis using Unvisited Inr by (simp add: visit_ok_def)
    qed
  qed
qed

lemma calc_order_ok:
  "visit_ok (calc_deps reads) (set (calc_names reads)) (set (calc_names reads))
     \<lparr>v_mark = \<lambda>_. Unvisited, v_ordered = [], v_stack = []\<rparr>
     (fold_r (visit (calc_deps reads) (Suc (length (calc_names reads)))) (calc_names reads)
        \<lparr>v_mark = \<lambda>_. Unvisited, v_ordered = [], v_stack = []\<rparr>)"
proof (rule visit_ok_fold [where st = "[]"])
  have closed: "set (calc_deps reads f) \<subseteq> set (calc_names reads)" for f
    by (auto simp: calc_deps_def calc_names_def split: option.splits dest: map_of_SomeD intro: rev_image_eqI)
  fix f s
  assume "f \<in> set (calc_names reads)" "search_inv (calc_deps reads) (set (calc_names reads)) s"
    "v_stack s = []"
  then show "visit_ok (calc_deps reads) (set (calc_names reads)) {f} s
      (visit (calc_deps reads) (Suc (length (calc_names reads))) f s)"
    using closed card_length [of "calc_names reads"] by (intro visit_sound) auto
qed (simp_all add: search_inv_def deps_before_def)

lemma calc_order_outcome:
  "case calc_order reads of
     Inr out \<Rightarrow> distinct out \<and> set out = fst ` set reads \<and> deps_before (calc_deps reads) out
   | Inl (CycleError c) \<Rightarrow> is_ring (calc_deps reads) c \<and> set c \<subseteq> fst ` set reads
   | Inl VisitFuel \<Rightarrow> False"
proof -
  have names: "set (calc_names reads) = fst ` set reads" by (simp add: calc_names_def)
  show ?thesis
    using calc_order_ok [of reads] unfolding calc_order_def
    by (auto simp: visit_ok_def search_inv_def extends_def names bind_r_def
          split: sum.splits order_fail.splits)
qed


text \<open>The place of a field in the order, and how a path of dependencies moves in it.\<close>

definition place :: "string list \<Rightarrow> string \<Rightarrow> nat" where
  "place out f = length (takeWhile (\<lambda>n. n \<noteq> f) out)"

lemma place_dep:
  assumes "deps_before deps out" and "a \<in> set out" and "b \<in> set (deps a)"
  shows "place out b < place out a \<and> b \<in> set out"
proof -
  obtain xs ys where out: "out = xs @ a # ys" and xs: "a \<notin> set xs"
    using split_list_first [OF assms(2)] by blast
  from assms(1) have "set (deps (out ! length xs)) \<subseteq> set (take (length xs) out)"
    unfolding deps_before_def using out by (metis add.commute length_append less_add_same_cancel2
        list.size(4) zero_less_Suc add_Suc_right length_Cons)
  then have b: "b \<in> set xs" using assms(3) out by auto
  have "place out a = length xs" using out xs
    by (auto simp: place_def takeWhile_append takeWhile_eq_all_conv)
  moreover have "place out b < length xs"
    using out takeWhile_append1 [OF b, of "\<lambda>n. n \<noteq> b" "a # ys"] b
    by (metis (mono_tags, lifting) length_takeWhile_le nless_le place_def takeWhile_eq_all_conv
        takeWhile_eq_take take_all)
  ultimately show ?thesis using b out by auto
qed

lemma place_path:
  "deps_before deps out \<Longrightarrow> dep_path deps (a # c) \<Longrightarrow> c \<noteq> [] \<Longrightarrow> a \<in> set out \<Longrightarrow>
   place out (last c) < place out a"
proof (induction c arbitrary: a)
  case (Cons b c)
  then have b: "place out b < place out a" "b \<in> set out" using place_dep [OF Cons.prems(1,4)] Cons.prems(2) by auto
  show ?case
  proof (cases "c = []")
    case False
    with Cons b have "place out (last c) < place out b" by auto
    with b False show ?thesis by simp
  qed (use b in simp)
qed simp

lemma ordered_no_ring:
  assumes "deps_before (calc_deps reads) out" and "set out = fst ` set reads"
  shows "\<not> is_ring (calc_deps reads) c"
proof
  assume ring: "is_ring (calc_deps reads) c"
  then obtain a b d where c: "c = a # b # d"
    unfolding is_ring_def by (cases c; cases "tl c") auto
  with ring have path: "dep_path (calc_deps reads) (a # b # d)" unfolding is_ring_def c by blast
  then have "b \<in> set (calc_deps reads a)" by simp
  then have "map_of reads a \<noteq> None" by (cases "map_of reads a") (auto simp: calc_deps_def)
  then have "a \<in> set out" using assms(2) by (simp add: map_of_eq_None_iff)
  then have "place out (last (b # d)) < place out a"
    using place_path [OF assms(1), of a "b # d"] path by simp
  with ring c show False by (auto simp: is_ring_def)
qed

section \<open>Properties\<close>

text \<open>
  C2. \<open>Order\<close> returns every calculation field exactly once, each after all the calculation fields
  its formula reads; or it reports a ring of fields that really read each other, closed at its
  start. It always returns one of the two, and it orders the fields exactly when there is no ring.
\<close>

theorem calc_order_correct:
  "(case calc_order reads of
      Inr out \<Rightarrow> distinct out \<and> set out = fst ` set reads \<and> deps_before (calc_deps reads) out
    | Inl (CycleError c) \<Rightarrow> is_ring (calc_deps reads) c \<and> set c \<subseteq> fst ` set reads
    | Inl VisitFuel \<Rightarrow> False) \<and>
   ((\<exists>out. calc_order reads = Inr out) \<longleftrightarrow> (\<nexists>c. is_ring (calc_deps reads) c))"
  using calc_order_outcome [of reads] ordered_no_ring [of reads]
  by (cases "calc_order reads") (auto split: order_fail.splits)

end
