(* ===== verification/Dbal_Dialect.thy ===== *)
theory Dbal_Dialect
  imports Go_Prelude
begin

text \<open>
  \<open>server/internal/dbal\<close>: the naming policy of \<open>identifiers.go\<close>, the value normalisations of
  \<open>dialect.go\<close>, and the interface \<open>Dialect\<close> with its two implementations \<open>postgres/dialect.go\<close> and
  \<open>mariadb/dialect.go\<close>. The interface is the record \<open>dialect\<close> of its methods; what its clients rely
  on is the locale \<open>sql_dialect\<close>, interpreted for both engines.
\<close>

section \<open>Identifiers\<close>

definition max_identifier_length :: nat where
  "max_identifier_length = 63"

datatype identifier_error =
    BadIdentifier string string
  | IdentifierTooLong string string
  | ReservedTable string

definition lower_letter :: "char \<Rightarrow> bool" where
  "lower_letter c \<longleftrightarrow> 97 \<le> byte_val c \<and> byte_val c \<le> (122::nat)"

definition ascii_digit :: "char \<Rightarrow> bool" where
  "ascii_digit c \<longleftrightarrow> 48 \<le> byte_val c \<and> byte_val c \<le> (57::nat)"

definition identifier_char :: "char \<Rightarrow> bool" where
  "identifier_char c \<longleftrightarrow> lower_letter c \<or> ascii_digit c \<or> c = CHR ''_''"

text \<open>\<open>^[a-z][a-z0-9_]*$\<close>; without the flag \<open>m\<close> the dollar is the end of the text.\<close>

definition matches_identifier :: "string \<Rightarrow> bool" where
  "matches_identifier s \<longleftrightarrow> (case s of [] \<Rightarrow> False | c # cs \<Rightarrow> lower_letter c \<and> list_all identifier_char cs)"

definition reserved_table_prefixes :: "string list" where
  "reserved_table_prefixes = [''sys_'', ''pg_'']"

definition reserved_table_names :: "string list" where
  "reserved_table_names = [''information_schema'', ''mysql'', ''performance_schema'', ''sys'']"

definition normalize_identifier :: "unicode \<Rightarrow> string \<Rightarrow> string" where
  "normalize_identifier U name = to_lower U (trim_space name)"

definition check_identifier :: "string \<Rightarrow> string \<Rightarrow> identifier_error + unit" where
  "check_identifier kind name =
     (if \<not> matches_identifier name then Inl (BadIdentifier kind name)
      else if max_identifier_length < length name then Inl (IdentifierTooLong kind name)
      else Inr ())"

definition is_reserved_table_name :: "unicode \<Rightarrow> string \<Rightarrow> bool" where
  "is_reserved_table_name U name =
     (let n = normalize_identifier U name
      in n \<in> set reserved_table_names \<or> list_ex (\<lambda>p. prefix p n) reserved_table_prefixes)"

definition check_user_table_name :: "unicode \<Rightarrow> string \<Rightarrow> identifier_error + unit" where
  "check_user_table_name U name =
     bind_r (check_identifier ''table'' name) (\<lambda>_.
       if is_reserved_table_name U name then Inl (ReservedTable name) else Inr ())"

section \<open>Types and value normalisation\<close>

datatype engine_type = EnginePostgres | EngineMariaDB | EngineSQLite

datatype field_type =
    FieldText | FieldNumber | FieldDate | FieldTimestamp | FieldBoolean | FieldContainer
  | FieldCalculation | FieldSummary | FieldOther string

record column_definition =
  cd_name :: string
  cd_type :: field_type
  cd_nullable :: bool
  cd_primary :: bool

record table_definition =
  td_name :: string
  td_columns :: "column_definition list"

definition trim_right_char :: "char \<Rightarrow> string \<Rightarrow> string" where
  "trim_right_char c s = rev (dropWhile (\<lambda>x. x = c) (rev s))"

definition trim_suffix :: "string \<Rightarrow> string \<Rightarrow> string" where
  "trim_suffix suf s = (if suffix suf s then take (length s - length suf) s else s)"

definition trim_numeric_text :: "string \<Rightarrow> string" where
  "trim_numeric_text text =
     (if \<not> contains text ''.'' then text
      else trim_suffix ''.'' (trim_right_char (CHR ''0'') text))"

text \<open>The \<open>any\<close> a driver returns, as far as \<open>NormalizeBool\<close> looks at it.\<close>

datatype driver_value = DBool bool | DInt64 int | DBytes string | DOther string

fun normalize_bool :: "driver_value \<Rightarrow> driver_value" where
  "normalize_bool (DBool b) = DBool b"
| "normalize_bool (DInt64 i) = DBool (i \<noteq> 0)"
| "normalize_bool (DBytes s) = DBool (s \<noteq> ''0'' \<and> \<not> equal_fold s ''false'' \<and> 0 < length s)"
| "normalize_bool (DOther s) = DOther s"

section \<open>The interface\<close>

record dialect =
  d_engine :: engine_type
  d_quote :: "string \<Rightarrow> string"
  d_placeholder :: "nat \<Rightarrow> string"
  d_map_type :: "field_type \<Rightarrow> string"
  d_create_table :: "table_definition \<Rightarrow> unit + string"
  d_add_column :: "string \<Rightarrow> column_definition \<Rightarrow> string"
  d_drop_column :: "string \<Rightarrow> string \<Rightarrow> string"
  d_alter_type :: "string \<Rightarrow> string \<Rightarrow> field_type \<Rightarrow> string"
  d_timestamp_column :: string
  d_cast_to_text :: "string \<Rightarrow> string"
  d_ci_like :: "string \<Rightarrow> string \<Rightarrow> string"
  d_numeric_value :: "string \<Rightarrow> string"

abbreviation dquote :: char where "dquote \<equiv> CHR 0x22"
abbreviation squote :: char where "squote \<equiv> CHR 0x27"
abbreviation backquote :: char where "backquote \<equiv> CHR 0x60"
abbreviation newline :: char where "newline \<equiv> CHR 0x0A"
abbreviation backslash :: char where "backslash \<equiv> CHR 0x5C"

text \<open>\<open>"%s"\<close> around the name with every quote doubled.\<close>

definition quote_with :: "char \<Rightarrow> string \<Rightarrow> string" where
  "quote_with q name = q # replace_all name [q] [q, q] @ [q]"

definition numeric_pattern :: string where
  "numeric_pattern = ''^-?[0-9]+('' @ [backslash] @ ''.[0-9]+)?$''"

text \<open>The clauses of a column that both engines write the same way.\<close>

definition column_clause :: "(string \<Rightarrow> string) \<Rightarrow> (column_definition \<Rightarrow> string) \<Rightarrow> column_definition \<Rightarrow> string"
  where
  "column_clause quote typ col =
     quote (cd_name col) @ '' '' @ typ col
       @ (if cd_primary col then '' PRIMARY KEY'' else [])
       @ (if \<not> cd_nullable col \<and> \<not> cd_primary col then '' NOT NULL'' else [])"

section \<open>PostgreSQL\<close>

definition pg_quote :: "string \<Rightarrow> string" where
  "pg_quote = quote_with dquote"

definition pg_placeholder :: "nat \<Rightarrow> string" where
  "pg_placeholder i = CHR ''$'' # show_nat i"

fun pg_map_type :: "field_type \<Rightarrow> string" where
  "pg_map_type FieldText = ''TEXT''"
| "pg_map_type FieldNumber = ''NUMERIC''"
| "pg_map_type FieldDate = ''DATE''"
| "pg_map_type FieldTimestamp = ''TIMESTAMPTZ''"
| "pg_map_type FieldBoolean = ''BOOLEAN''"
| "pg_map_type FieldContainer = ''BYTEA''"
| "pg_map_type _ = ''TEXT''"

definition pg_create_table :: "table_definition \<Rightarrow> unit + string" where
  "pg_create_table def =
     (if td_name def = [] then Inl ()
      else Inr (''CREATE TABLE '' @ pg_quote (td_name def) @ '' ('' @ [newline] @ ''  ''
        @ join ('','' @ [newline] @ ''  '')
            (map (column_clause pg_quote (\<lambda>c. pg_map_type (cd_type c))) (td_columns def))
        @ [newline] @ '');''))"

definition pg_add_column :: "string \<Rightarrow> column_definition \<Rightarrow> string" where
  "pg_add_column tbl col =
     ''ALTER TABLE '' @ pg_quote tbl @ '' ADD COLUMN '' @ pg_quote (cd_name col) @ '' ''
       @ pg_map_type (cd_type col) @ (if cd_nullable col then [] else '' NOT NULL'') @ '';''"

definition pg_alter_type :: "string \<Rightarrow> string \<Rightarrow> field_type \<Rightarrow> string" where
  "pg_alter_type tbl col new =
     (let target = pg_map_type new
      in ''ALTER TABLE '' @ pg_quote tbl @ '' ALTER COLUMN '' @ pg_quote col @ '' TYPE '' @ target
           @ '' USING NULLIF('' @ pg_quote col @ ''::text, '' @ [squote, squote] @ '')::'' @ target @ '';'')"

definition pg_cast_to_text :: "string \<Rightarrow> string" where
  "pg_cast_to_text e = ''CAST('' @ e @ '' AS TEXT)''"

definition pg_ci_like :: "string \<Rightarrow> string \<Rightarrow> string" where
  "pg_ci_like e ph = pg_cast_to_text e @ '' ILIKE '' @ ph"

definition pg_numeric_value :: "string \<Rightarrow> string" where
  "pg_numeric_value e =
     (let text = pg_cast_to_text e
      in ''(CASE WHEN '' @ text @ '' ~ '' @ [squote] @ numeric_pattern @ [squote] @ '' THEN CAST(''
           @ text @ '' AS NUMERIC) ELSE NULL END)'')"

definition pg_drop_column :: "string \<Rightarrow> string \<Rightarrow> string" where
  "pg_drop_column tbl col =
     ''ALTER TABLE '' @ pg_quote tbl @ '' DROP COLUMN IF EXISTS '' @ pg_quote col @ '';''"

definition postgres_dialect :: dialect where
  "postgres_dialect = \<lparr>d_engine = EnginePostgres, d_quote = pg_quote, d_placeholder = pg_placeholder,
     d_map_type = pg_map_type, d_create_table = pg_create_table, d_add_column = pg_add_column,
     d_drop_column = pg_drop_column, d_alter_type = pg_alter_type,
     d_timestamp_column = ''TIMESTAMPTZ DEFAULT CURRENT_TIMESTAMP'',
     d_cast_to_text = pg_cast_to_text, d_ci_like = pg_ci_like, d_numeric_value = pg_numeric_value\<rparr>"

section \<open>MariaDB\<close>

definition my_quote :: "string \<Rightarrow> string" where
  "my_quote = quote_with backquote"

definition my_placeholder :: "nat \<Rightarrow> string" where
  "my_placeholder i = ''?''"

fun my_map_type :: "field_type \<Rightarrow> string" where
  "my_map_type FieldText = ''LONGTEXT''"
| "my_map_type FieldNumber = ''DECIMAL(65, 10)''"
| "my_map_type FieldDate = ''DATE''"
| "my_map_type FieldTimestamp = ''DATETIME(6)''"
| "my_map_type FieldBoolean = ''BOOLEAN''"
| "my_map_type FieldContainer = ''LONGBLOB''"
| "my_map_type _ = ''LONGTEXT''"

definition my_column_type :: "column_definition \<Rightarrow> string" where
  "my_column_type col =
     (if cd_primary col \<and> my_map_type (cd_type col) = ''LONGTEXT''
      then ''VARCHAR('' @ show_nat (max_identifier_length * 4) @ '')''
      else my_map_type (cd_type col))"

definition my_create_table :: "table_definition \<Rightarrow> unit + string" where
  "my_create_table def =
     (if td_name def = [] then Inl ()
      else Inr (''CREATE TABLE '' @ my_quote (td_name def) @ '' ('' @ [newline] @ ''  ''
        @ join ('','' @ [newline] @ ''  '') (map (column_clause my_quote my_column_type) (td_columns def))
        @ [newline] @ '') ENGINE=InnoDB DEFAULT CHARSET=utf8mb4;''))"

definition my_add_column :: "string \<Rightarrow> column_definition \<Rightarrow> string" where
  "my_add_column tbl col =
     ''ALTER TABLE '' @ my_quote tbl @ '' ADD COLUMN '' @ my_quote (cd_name col) @ '' ''
       @ my_column_type col @ (if cd_nullable col then [] else '' NOT NULL'') @ '';''"

definition my_alter_type :: "string \<Rightarrow> string \<Rightarrow> field_type \<Rightarrow> string" where
  "my_alter_type tbl col new =
     ''ALTER TABLE '' @ my_quote tbl @ '' MODIFY '' @ my_quote col @ '' ''
       @ my_column_type \<lparr>cd_name = col, cd_type = new, cd_nullable = True, cd_primary = False\<rparr> @ '';''"

definition my_cast_to_text :: "string \<Rightarrow> string" where
  "my_cast_to_text e = ''CAST('' @ e @ '' AS CHAR)''"

definition my_ci_like :: "string \<Rightarrow> string \<Rightarrow> string" where
  "my_ci_like e ph = ''LOWER('' @ my_cast_to_text e @ '') LIKE LOWER('' @ ph @ '')''"

definition my_numeric_value :: "string \<Rightarrow> string" where
  "my_numeric_value e =
     (let text = my_cast_to_text e
      in ''(CASE WHEN '' @ text @ '' REGEXP '' @ [squote] @ numeric_pattern @ [squote] @ '' THEN CAST(''
           @ text @ '' AS DECIMAL(65,10)) ELSE NULL END)'')"

definition my_drop_column :: "string \<Rightarrow> string \<Rightarrow> string" where
  "my_drop_column tbl col =
     ''ALTER TABLE '' @ my_quote tbl @ '' DROP COLUMN '' @ my_quote col @ '';''"

definition mariadb_dialect :: dialect where
  "mariadb_dialect = \<lparr>d_engine = EngineMariaDB, d_quote = my_quote, d_placeholder = my_placeholder,
     d_map_type = my_map_type, d_create_table = my_create_table, d_add_column = my_add_column,
     d_drop_column = my_drop_column, d_alter_type = my_alter_type,
     d_timestamp_column = ''DATETIME(6) DEFAULT CURRENT_TIMESTAMP(6)'',
     d_cast_to_text = my_cast_to_text, d_ci_like = my_ci_like, d_numeric_value = my_numeric_value\<rparr>"

section \<open>Reading a quoted identifier back\<close>

text \<open>
  How a database reads a quoted identifier, from after the opening quote: a doubled quote stands
  for one, a single one closes it.
\<close>

fun read_quoted :: "char \<Rightarrow> string \<Rightarrow> (string \<times> string) option" where
  "read_quoted q [] = None"
| "read_quoted q [c] = (if c = q then Some ([], []) else None)"
| "read_quoted q (c # d # s) =
     (if c = q
      then (if d = q then map_option (\<lambda>(n, r). (q # n, r)) (read_quoted q s) else Some ([], d # s))
      else map_option (\<lambda>(n, r). (c # n, r)) (read_quoted q (d # s)))"

lemma read_quoted_body:
  "rest = [] \<or> hd rest \<noteq> q \<Longrightarrow>
   read_quoted q (concat (map (\<lambda>c. if c = q then [q, q] else [c]) name) @ q # rest) = Some (name, rest)"
proof (induction name)
  case Nil
  then show ?case by (cases rest) auto
next
  case (Cons c name)
  let ?t = "concat (map (\<lambda>c. if c = q then [q, q] else [c]) name) @ q # rest"
  obtain d s where "?t = d # s" by (cases ?t) auto
  with Cons show ?case by auto
qed

lemma read_quote_with:
  "rest = [] \<or> hd rest \<noteq> q \<Longrightarrow> read_quoted q (tl (quote_with q name @ rest)) = Some (name, rest)"
  by (simp add: quote_with_def replace_all_char read_quoted_body)

section \<open>What the clients of a dialect rely on\<close>

locale sql_dialect =
  fixes D :: dialect and q :: char
  assumes quote_opens: "d_quote D name = q # tl (d_quote D name)"
    and quote_read: "rest = [] \<or> hd rest \<noteq> q \<Longrightarrow> read_quoted q (tl (d_quote D name @ rest)) = Some (name, rest)"
begin

lemma quote_inject: "d_quote D m = d_quote D n \<longleftrightarrow> m = n"
  using quote_read [of "[]"] by (metis option.inject prod.inject)

lemma quote_no_leak:
  assumes "d_quote D m @ r = d_quote D n @ s" and "r = [] \<or> hd r \<noteq> q" and "s = [] \<or> hd s \<noteq> q"
  shows "m = n \<and> r = s"
  using quote_read [OF assms(2), of m] quote_read [OF assms(3), of n] unfolding assms(1)
  by (simp only: option.inject prod.inject)

end

lemma dialect_quotes [simp]:
  "d_quote postgres_dialect = quote_with dquote"
  "d_quote mariadb_dialect = quote_with backquote"
  unfolding postgres_dialect_def mariadb_dialect_def pg_quote_def my_quote_def
  by (simp_all only: dialect.simps)

lemma quote_with_opens: "quote_with q name = q # tl (quote_with q name)"
  by (simp add: quote_with_def)

lemma postgres_sql: "sql_dialect postgres_dialect dquote"
  by (rule sql_dialect.intro; unfold dialect_quotes) (rule quote_with_opens, erule read_quote_with)

interpretation pg: sql_dialect postgres_dialect dquote
  by (rule postgres_sql)

lemma mariadb_sql: "sql_dialect mariadb_dialect backquote"
  by (rule sql_dialect.intro; unfold dialect_quotes) (rule quote_with_opens, erule read_quote_with)

interpretation my: sql_dialect mariadb_dialect backquote
  by (rule mariadb_sql)

section \<open>Properties\<close>

text \<open>
  C6. A quoted identifier cannot leak into the statement around it, on either engine: whatever the
  name, what the database reads from the quote is the name itself, and the rest of the statement
  starts right after the closing quote. In particular two names never share a quoted form.
\<close>

theorem quoted_identifier_contained:
  assumes "D = postgres_dialect \<and> q = dquote \<or> D = mariadb_dialect \<and> q = backquote"
    and "rest = [] \<or> hd rest \<noteq> q"
  shows "hd (d_quote D name) = q \<and> read_quoted q (tl (d_quote D name @ rest)) = Some (name, rest) \<and>
    (d_quote D name = d_quote D other \<longleftrightarrow> name = other)"
  using assms pg.quote_read my.quote_read pg.quote_inject my.quote_inject
    pg.quote_opens [of name] my.quote_opens [of name]
  by (metis list.sel(1))

theorem quoted_identifier_contained_witness:
  "read_quoted dquote (tl (d_quote postgres_dialect (''a'' @ [dquote] @ ''; DROP'') @ '' TEXT''))
   = Some (''a'' @ [dquote] @ ''; DROP'', '' TEXT'')"
  using quoted_identifier_contained [of postgres_dialect dquote "'' TEXT''" "''a'' @ [dquote] @ ''; DROP''" "[]"]
  by simp

lemma is_space_not_identifier: "identifier_char c \<Longrightarrow> visible c"
  by (auto simp: identifier_char_def lower_letter_def ascii_digit_def visible_def)

lemma identifier_normalized:
  assumes "matches_identifier name"
  shows "normalize_identifier U name = name"
proof -
  from assms obtain c cs where name: "name = c # cs" "lower_letter c" "list_all identifier_char cs"
    by (auto simp: matches_identifier_def split: list.splits)
  then have all: "\<forall>x \<in> set name. identifier_char x" by (auto simp: list_all_iff identifier_char_def)
  then have "trim_space name = name"
    using name(1) is_space_not_identifier by (intro trim_space_visible) auto
  moreover have "to_lower U name = name"
  proof -
    have b: "byte_val x < 128 \<and> rune_lower U (byte_val x) = byte_val x" if "x \<in> set name" for x
      using all that by (auto simp: identifier_char_def lower_letter_def ascii_digit_def rune_lower_def)
    then have "is_ascii name" by (simp add: is_ascii_def)
    moreover have "map (rune_lower U) (map byte_val name) = map byte_val name"
      using b by simp
    ultimately show ?thesis by (simp only: to_lower_def runes_ascii of_runes_ascii)
  qed
  ultimately show ?thesis by (simp add: normalize_identifier_def)
qed

text \<open>
  A name accepted for a user table is at most 63 bytes of lower-case letters, digits and
  underscores after a letter, is already normalised, and is none of the names or prefixes reserved
  for the catalog and the engines.
\<close>

theorem accepted_table_name:
  "check_user_table_name U name = Inr () \<longleftrightarrow>
   matches_identifier name \<and> length name \<le> 63 \<and> name \<notin> set reserved_table_names \<and>
   \<not> prefix ''sys_'' name \<and> \<not> prefix ''pg_'' name"
proof (cases "matches_identifier name")
  case True
  then show ?thesis
    by (auto simp: check_user_table_name_def check_identifier_def is_reserved_table_name_def Let_def
         identifier_normalized max_identifier_length_def reserved_table_prefixes_def)
qed (simp add: check_user_table_name_def check_identifier_def)

lemma trim_right_char_replicate [simp]:
  "trim_right_char c (s @ replicate n c) = trim_right_char c s"
  by (simp add: trim_right_char_def dropWhile_append)

lemma trim_right_char_last: "trim_right_char c s = [] \<or> last (trim_right_char c s) \<noteq> c"
proof (cases "dropWhile (\<lambda>x. x = c) (rev s)")
  case (Cons d ds)
  then have "d \<noteq> c" using hd_dropWhile [of "\<lambda>x. x = c" "rev s"] by fastforce
  with Cons show ?thesis by (simp add: trim_right_char_def)
qed (simp add: trim_right_char_def)

lemma trim_right_char_keeps:
  "x \<noteq> c \<Longrightarrow> trim_right_char c (a @ x # b) = a @ x # trim_right_char c b"
  by (auto simp: trim_right_char_def dropWhile_append)

lemma trim_right_char_id: "s = [] \<or> last s \<noteq> c \<Longrightarrow> trim_right_char c s = s"
  by (cases s rule: rev_cases) (auto simp: trim_right_char_def)

lemma contains_char: "contains s [c] \<longleftrightarrow> c \<in> set s"
  by (auto simp: contains_def sublist_def in_set_conv_decomp)

lemma trim_numeric_text_point:
  assumes "CHR ''.'' \<notin> set b"
  shows "trim_numeric_text (a @ CHR ''.'' # b) =
    (if trim_right_char (CHR ''0'') b = [] then a else a @ CHR ''.'' # trim_right_char (CHR ''0'') b)"
proof -
  have "suffix ''.'' (a @ CHR ''.'' # trim_right_char (CHR ''0'') b) \<longleftrightarrow> trim_right_char (CHR ''0'') b = []"
  proof (cases "trim_right_char (CHR ''0'') b" rule: rev_cases)
    case (snoc xs x)
    have "set (trim_right_char (CHR ''0'') b) \<subseteq> set b"
      by (auto simp: trim_right_char_def dest: set_dropWhileD)
    with snoc assms have "x \<noteq> CHR ''.''" by auto
    with snoc show ?thesis by (auto simp: suffix_def)
  qed (simp add: suffix_def)
  then show ?thesis
    by (simp add: trim_numeric_text_def contains_char trim_right_char_keeps trim_suffix_def)
qed

text \<open>
  A stored number reads back as the same text however many zeros the engine padded its
  fraction with; the text it reads back as is left alone by a second reading, and has no point
  with only zeros after it.
\<close>

theorem numeric_text_canonical:
  assumes "CHR ''.'' \<notin> set a" and "CHR ''.'' \<notin> set b"
  shows "trim_numeric_text (a @ ''.'' @ b @ replicate n (CHR ''0'')) = trim_numeric_text (a @ ''.'' @ b) \<and>
    trim_numeric_text (trim_numeric_text (a @ ''.'' @ b)) = trim_numeric_text (a @ ''.'' @ b) \<and>
    (CHR ''.'' \<in> set (trim_numeric_text (a @ ''.'' @ b)) \<longrightarrow>
       last (trim_numeric_text (a @ ''.'' @ b)) \<notin> {CHR ''.'', CHR ''0''})"
proof -
  let ?t = "trim_right_char (CHR ''0'') b"
  have sub: "CHR ''.'' \<notin> set ?t"
    using assms(2) by (auto simp: trim_right_char_def dest: set_dropWhileD)
  have pad: "CHR ''.'' \<notin> set (b @ replicate n (CHR ''0''))" using assms(2) by auto
  have twice: "trim_right_char (CHR ''0'') ?t = ?t"
    by (rule trim_right_char_id [OF trim_right_char_last])
  have "trim_numeric_text a = a" using assms(1) by (simp add: trim_numeric_text_def contains_char)
  then show ?thesis
    using trim_numeric_text_point [OF pad, of a] trim_numeric_text_point [OF assms(2), of a]
      trim_numeric_text_point [OF sub, of a] trim_right_char_last [of "CHR ''0''" b] sub twice assms(1)
    by (auto dest: last_in_set)
qed

theorem numeric_text_canonical_witness:
  "trim_numeric_text ''12.5000000000'' = trim_numeric_text ''12.50''"
  using numeric_text_canonical [of "''12''" "''50''" 8] by (simp add: numeral_eq_Suc)

end
