(* ===== verification/Data_Calculations.thy ===== *)
theory Data_Calculations
  imports Calc_Order Dbal_Dialect
begin

text \<open>
  \<open>server/internal/data/calculations.go\<close>: the calculation fields of a table, put in the order they
  are computed in, and applied to a record that is inserted or updated. The rows of the catalog query
  and the stored row are arguments; \<open>json.Unmarshal\<close> of a stored formula is the parameter \<open>um\<close>.
\<close>

section \<open>The calculations of a table\<close>

record calculation =
  c_field :: string
  c_expr :: "expr option"
  c_result :: result_type

datatype data_calc_fail =
    RingOfFormulas "string list"
  | CannotCompute string calc_fail
  | OrderFuel

definition parse_stored_calculation ::
  "unicode \<Rightarrow> (string \<Rightarrow> (string \<times> string) option) \<Rightarrow> string \<Rightarrow> string \<times> result_type" where
  "parse_stored_calculation U um raw =
     (case um raw of
        Some (formula, result) \<Rightarrow>
          if formula \<noteq> [] then (formula, parse_result_type U result) else (raw, ResultText)
      | None \<Rightarrow> (raw, ResultText))"

text \<open>One row of the catalog query: a formula that does not parse is skipped.\<close>

definition parse_row :: "calc_env \<Rightarrow> (string \<Rightarrow> (string \<times> string) option) \<Rightarrow> string \<times> string
    \<Rightarrow> (string \<times> calculation) option" where
  "parse_row E um row =
     (case parse_stored_calculation (env_uni E) um (snd row) of
        (formula, result) \<Rightarrow>
          (case parse E formula of
             Inl _ \<Rightarrow> None
           | Inr e \<Rightarrow> Some (fst row, \<lparr>c_field = fst row, c_expr = Some e, c_result = result\<rparr>)))"

text \<open>The map the loop fills; a later row of the same name is found first.\<close>

definition parse_calculations :: "calc_env \<Rightarrow> (string \<Rightarrow> (string \<times> string) option)
    \<Rightarrow> (string \<times> string) list \<Rightarrow> (string \<times> calculation) list" where
  "parse_calculations E um rows = rev (List.map_filter (parse_row E um) rows)"

definition calc_reads :: "calculation \<Rightarrow> string list" where
  "calc_reads c = (case c_expr c of None \<Rightarrow> [] | Some e \<Rightarrow> expr_fields e)"

definition lookup_calculation :: "(string \<times> calculation) list \<Rightarrow> string \<Rightarrow> calculation" where
  "lookup_calculation parsed name =
     (case map_of parsed name of
        Some c \<Rightarrow> c
      | None \<Rightarrow> \<lparr>c_field = [], c_expr = None, c_result = ResultText\<rparr>)"

definition table_calculations :: "calc_env \<Rightarrow> (string \<Rightarrow> (string \<times> string) option)
    \<Rightarrow> (string \<times> string) list \<Rightarrow> data_calc_fail + calculation list" where
  "table_calculations E um rows =
     (let parsed = parse_calculations E um rows
      in if parsed = [] then Inr []
         else case calc_order (map (\<lambda>(n, c). (n, calc_reads c)) parsed) of
                Inl (CycleError ring) \<Rightarrow> Inl (RingOfFormulas ring)
              | Inl VisitFuel \<Rightarrow> Inl OrderFuel
              | Inr order \<Rightarrow> Inr (map (lookup_calculation parsed) order))"

section \<open>Applying them\<close>

definition compute :: "calc_env \<Rightarrow> calculation \<Rightarrow> crecord \<Rightarrow> data_calc_fail + stored" where
  "compute E c R =
     (case evaluate E (c_expr c) R (c_result c) of
        Inl f \<Rightarrow> Inl (CannotCompute (c_field c) f)
      | Inr v \<Rightarrow> Inr v)"

definition apply_calculations_to :: "calc_env \<Rightarrow> calculation list \<Rightarrow> crecord \<Rightarrow> data_calc_fail + crecord"
  where
  "apply_calculations_to E =
     fold_r (\<lambda>c R. bind_r (compute E c R) (\<lambda>v. Inr (R(c_field c \<mapsto> v))))"

definition apply_calculations :: "calc_env \<Rightarrow> (string \<Rightarrow> (string \<times> string) option)
    \<Rightarrow> (string \<times> string) list \<Rightarrow> crecord \<Rightarrow> data_calc_fail + crecord" where
  "apply_calculations E um rows R =
     bind_r (table_calculations E um rows) (\<lambda>cs. apply_calculations_to E cs R)"

text \<open>
  \<open>recalculateForUpdate\<close>: the loop carries the merged record and the updates; \<open>current\<close> is the row
  \<open>GetRow\<close> returned.
\<close>

definition update_step :: "calc_env \<Rightarrow> calculation \<Rightarrow> crecord \<times> crecord
    \<Rightarrow> data_calc_fail + crecord \<times> crecord" where
  "update_step E c mu =
     bind_r (compute E c (fst mu)) (\<lambda>v. Inr ((fst mu)(c_field c \<mapsto> v), (snd mu)(c_field c \<mapsto> v)))"

definition recalculate_for_update :: "calc_env \<Rightarrow> (string \<Rightarrow> (string \<times> string) option)
    \<Rightarrow> (string \<times> string) list \<Rightarrow> crecord \<Rightarrow> crecord \<Rightarrow> data_calc_fail + crecord" where
  "recalculate_for_update E um rows current updates =
     bind_r (table_calculations E um rows) (\<lambda>cs.
       if cs = [] then Inr updates
       else bind_r (fold_r (update_step E) cs (current ++ updates, updates)) (\<lambda>mu. Inr (snd mu)))"

definition storage_type :: "unicode \<Rightarrow> (string \<Rightarrow> (string \<times> string) option) \<Rightarrow> field_type
    \<Rightarrow> string option \<Rightarrow> field_type" where
  "storage_type U um ft formula =
     (case formula of
        None \<Rightarrow> ft
      | Some raw \<Rightarrow>
          if ft \<noteq> FieldCalculation then ft
          else case snd (parse_stored_calculation U um raw) of
                 ResultNumber \<Rightarrow> FieldNumber
               | ResultDate \<Rightarrow> FieldDate
               | ResultTimestamp \<Rightarrow> FieldTimestamp
               | ResultBoolean \<Rightarrow> FieldBoolean
               | ResultText \<Rightarrow> FieldText)"

section \<open>Lists of calculations in order\<close>

abbreviation calc_fields :: "calculation list \<Rightarrow> string set" where
  "calc_fields cs \<equiv> c_field ` set cs"

fun in_order :: "calculation list \<Rightarrow> bool" where
  "in_order [] = True"
| "in_order (c # cs) =
     (set (calc_reads c) \<inter> insert (c_field c) (calc_fields cs) = {} \<and> c_field c \<notin> calc_fields cs \<and>
      in_order cs)"

lemma compute_cong:
  assumes "\<forall>f \<in> set (calc_reads c). R f = R' f"
  shows "compute E c R = compute E c R'"
proof (cases "c_expr c")
  case (Some e)
  with assms have "eval E R (e_root e) = eval E R' (e_root e)"
    by (intro eval_depends_on_fields) (simp add: calc_reads_def expr_fields_def)
  with Some show ?thesis by (simp add: compute_def evaluate_def)
qed (simp add: compute_def evaluate_def)

lemma apply_calculations_to_simps [simp]:
  "apply_calculations_to E [] R = Inr R"
  "apply_calculations_to E (c # cs) R =
     bind_r (compute E c R) (\<lambda>v. apply_calculations_to E cs (R(c_field c \<mapsto> v)))"
  by (simp_all add: apply_calculations_to_def bind_r_def split: sum.split)

lemma apply_keeps_others:
  "apply_calculations_to E cs R = Inr R' \<Longrightarrow> f \<notin> calc_fields cs \<Longrightarrow> R' f = R f"
  by (induction cs arbitrary: R) (auto simp: bind_r_Inr_iff)

lemma apply_consistent:
  "in_order cs \<Longrightarrow> apply_calculations_to E cs R = Inr R' \<Longrightarrow> c \<in> set cs \<Longrightarrow>
   \<exists>v. compute E c R' = Inr v \<and> R' (c_field c) = Some v"
proof (induction cs arbitrary: R)
  case (Cons d cs)
  then obtain v where v: "compute E d R = Inr v"
    and rest: "apply_calculations_to E cs (R(c_field d \<mapsto> v)) = Inr R'"
    by (auto simp: bind_r_Inr_iff)
  show ?case
  proof (cases "c \<in> set cs")
    case False
    with Cons.prems have c: "c = d" by simp
    have "\<forall>f \<in> set (calc_reads d). R' f = R f"
      using apply_keeps_others [OF rest] Cons.prems(1) by (auto simp: disjoint_iff)
    then have "compute E d R' = Inr v" using compute_cong v by metis
    moreover have "R' (c_field d) = Some v"
      using apply_keeps_others [OF rest] Cons.prems(1) by auto
    ultimately show ?thesis using c by blast
  qed (use Cons rest in auto)
qed simp

text \<open>A value the caller sent for a calculation field is overwritten before anything reads it.\<close>

lemma apply_discards:
  "in_order cs \<Longrightarrow> \<forall>f. f \<notin> calc_fields cs \<longrightarrow> R f = S f \<Longrightarrow>
   apply_calculations_to E cs R = apply_calculations_to E cs S"
proof (induction cs arbitrary: R S)
  case Nil
  then have "R = S" by auto
  then show ?case by simp
next
  case (Cons c cs)
  then have "compute E c R = compute E c S" by (intro compute_cong) (auto simp: disjoint_iff)
  moreover have "apply_calculations_to E cs (R(c_field c \<mapsto> v))
      = apply_calculations_to E cs (S(c_field c \<mapsto> v))" for v
    using Cons by (intro Cons.IH) auto
  ultimately show ?case by simp
qed

lemma parse_calculations_named:
  "(n, c) \<in> set (parse_calculations E um rows) \<Longrightarrow> c_field c = n"
proof -
  assume "(n, c) \<in> set (parse_calculations E um rows)"
  then obtain row where "parse_row E um row = Some (n, c)"
    by (auto simp: parse_calculations_def List.map_filter_def)
  then show ?thesis by (auto simp: parse_row_def split: prod.splits sum.splits)
qed

lemma in_order_of_deps:
  assumes named: "\<And>n. n \<in> set out \<Longrightarrow> c_field (L n) = n"
    and "distinct out"
    and before: "\<And>i n. i < length out \<Longrightarrow> n \<in> set (calc_reads (L (out ! i))) \<Longrightarrow> n \<in> set out \<Longrightarrow>
      n \<in> set (take i out)"
  shows "in_order (map L out)"
  using assms
proof (induction out rule: rev_induct)
  case (snoc n out)
  have IH: "in_order (map L out)"
  proof (rule snoc.IH)
    fix i m
    assume "i < length out" "m \<in> set (calc_reads (L (out ! i)))" "m \<in> set out"
    then show "m \<in> set (take i out)" using snoc.prems(3) [of i m] by (simp add: nth_append)
  qed (use snoc.prems in auto)
  have append: "in_order (cs @ [c])"
    if "in_order cs" "c_field c \<notin> calc_fields cs" "\<forall>d \<in> set cs. c_field c \<notin> set (calc_reads d)"
      "c_field c \<notin> set (calc_reads c)" for cs c
    using that by (induction cs) auto
  have late: "n \<notin> set (calc_reads (L m))" if m: "m \<in> set out" for m
  proof
    assume n: "n \<in> set (calc_reads (L m))"
    from m obtain i where i: "i < length out" "out ! i = m" by (auto simp: in_set_conv_nth)
    then have "n \<in> set (take i out)" using snoc.prems(3) [of i n] n by (simp add: nth_append)
    then show False using snoc.prems(2) by (auto dest: in_set_takeD)
  qed
  moreover have "n \<notin> set (calc_reads (L n))"
    using snoc.prems(3) [of "length out" n] snoc.prems(2) by auto
  moreover have "c_field (L n) \<notin> calc_fields (map L out)"
    using snoc.prems(1,2) by auto
  ultimately have "in_order (map L out @ [L n])"
    using IH snoc.prems(1) by (intro append) auto
  then show ?case by simp
qed simp

lemma table_calculations_in_order:
  assumes "table_calculations E um rows = Inr cs"
  shows "in_order cs"
proof -
  define parsed where "parsed = parse_calculations E um rows"
  define reads where "reads = map (\<lambda>(n, c). (n, calc_reads c)) parsed"
  show ?thesis
  proof (cases "parsed = []")
    case True
    with assms show ?thesis by (simp add: table_calculations_def parsed_def Let_def)
  next
    case False
    with assms obtain out where out: "calc_order reads = Inr out" "cs = map (lookup_calculation parsed) out"
      by (auto simp: table_calculations_def Let_def parsed_def reads_def
            split: sum.splits order_fail.splits)
    with calc_order_outcome [of reads]
    have o: "distinct out" "set out = fst ` set reads" "deps_before (calc_deps reads) out" by auto
    have mo: "map_of reads n = map_option calc_reads (map_of parsed n)" for n
      unfolding reads_def by (induction parsed) auto
    have keys: "set out = fst ` set parsed" using o(2) by (force simp: reads_def)
    have lk: "map_of parsed n = Some (lookup_calculation parsed n)" if "n \<in> set out" for n
      using that keys by (cases "map_of parsed n") (auto simp: lookup_calculation_def map_of_eq_None_iff)
    have "in_order (map (lookup_calculation parsed) out)"
    proof (rule in_order_of_deps [OF _ o(1)])
      fix n
      assume "n \<in> set out"
      then have "(n, lookup_calculation parsed n) \<in> set parsed" using lk map_of_SomeD by metis
      then show "c_field (lookup_calculation parsed n) = n"
        using parse_calculations_named unfolding parsed_def by metis
    next
      fix i n
      assume i: "i < length out" and n: "n \<in> set (calc_reads (lookup_calculation parsed (out ! i)))" "n \<in> set out"
      have "map_of reads (out ! i) = Some (calc_reads (lookup_calculation parsed (out ! i)))"
        using lk [of "out ! i"] i by (simp add: mo)
      moreover have "map_of reads n \<noteq> None" using lk [OF n(2)] by (simp add: mo)
      ultimately have "n \<in> set (calc_deps reads (out ! i))" using n(1) by (auto simp: calc_deps_def)
      then show "n \<in> set (take i out)" using o(3) i by (auto simp: deps_before_def)
    qed
    with out show ?thesis by simp
  qed
qed

section \<open>Properties\<close>

text \<open>
  C1. After the calculations of a table were applied to a record, every calculation field holds
  exactly what its formula evaluates to on the finished record, all of them at once; no other field
  has changed. So one pass in dependency order reaches the fixed point.
\<close>

theorem applied_calculations_consistent:
  assumes "table_calculations E um rows = Inr cs" and "apply_calculations_to E cs R = Inr R'"
  shows "(\<forall>c \<in> set cs. \<exists>v. evaluate E (c_expr c) R' (c_result c) = Inr v \<and> R' (c_field c) = Some v) \<and>
    (\<forall>f. f \<notin> calc_fields cs \<longrightarrow> R' f = R f)"
proof -
  have "compute E c R' = Inr v \<longleftrightarrow> evaluate E (c_expr c) R' (c_result c) = Inr v" for c v
    by (auto simp: compute_def split: sum.splits)
  then show ?thesis
    using apply_consistent [OF table_calculations_in_order [OF assms(1)] assms(2)]
      apply_keeps_others [OF assms(2)] by simp
qed

text \<open>
  Whatever the caller sent for a calculation field is discarded: two records that differ only
  in calculation fields come out the same, or fail the same way.
\<close>

theorem caller_values_discarded:
  assumes "table_calculations E um rows = Inr cs" and "\<forall>f. f \<notin> calc_fields cs \<longrightarrow> R f = S f"
  shows "apply_calculations E um rows R = apply_calculations E um rows S"
  using apply_discards [OF table_calculations_in_order [OF assms(1)] assms(2)] assms(1)
  by (simp add: apply_calculations_def)

lemma update_loop:
  "fold_r (update_step E) cs (cur ++ u, u) = Inr (m, u') \<Longrightarrow>
   m = cur ++ u' \<and> apply_calculations_to E cs (cur ++ u) = Inr m \<and>
   (\<forall>f. f \<notin> calc_fields cs \<longrightarrow> u' f = u f)"
proof (induction cs arbitrary: u)
  case (Cons c cs)
  then obtain v where v: "compute E c (cur ++ u) = Inr v"
    by (auto simp: update_step_def bind_r_Inr_iff)
  let ?u = "u(c_field c \<mapsto> v)"
  have upd: "(cur ++ u)(c_field c \<mapsto> v) = cur ++ ?u" by simp
  have "fold_r (update_step E) cs (cur ++ ?u, ?u) = Inr (m, u')"
    using Cons.prems v unfolding fold_r.simps update_step_def fst_conv snd_conv by (simp only: bind_r_simps upd)
  from Cons.IH [OF this]
  have ih: "m = cur ++ u'" "apply_calculations_to E cs (cur ++ ?u) = Inr m"
    "\<forall>f. f \<notin> calc_fields cs \<longrightarrow> u' f = ?u f" by blast+
  have "apply_calculations_to E (c # cs) (cur ++ u) = Inr m"
    using ih(2) unfolding apply_calculations_to_simps v bind_r_simps upd .
  with ih show ?case by auto
qed simp

text \<open>
  The updates \<open>recalculateForUpdate\<close> leaves make the row consistent: in the row the update
  results in, every calculation field holds what its formula evaluates to on that row, and the
  updates of the other fields are the caller's.
\<close>

theorem update_recalculated:
  assumes "table_calculations E um rows = Inr cs"
    and "recalculate_for_update E um rows current updates = Inr u"
  shows "(\<forall>c \<in> set cs. \<exists>v. evaluate E (c_expr c) (current ++ u) (c_result c) = Inr v \<and>
      (current ++ u) (c_field c) = Some v) \<and>
    (\<forall>f. f \<notin> calc_fields cs \<longrightarrow> u f = updates f)"
proof (cases "cs = []")
  case True
  with assms show ?thesis by (simp add: recalculate_for_update_def)
next
  case False
  with assms obtain m where "fold_r (update_step E) cs (current ++ updates, updates) = Inr (m, u)"
    by (auto simp: recalculate_for_update_def bind_r_Inr_iff)
  from update_loop [OF this]
  have m: "m = current ++ u" "apply_calculations_to E cs (current ++ updates) = Inr m"
    "\<forall>f. f \<notin> calc_fields cs \<longrightarrow> u f = updates f" by auto
  have "compute E c m = Inr v \<longleftrightarrow> evaluate E (c_expr c) m (c_result c) = Inr v" for c v
    by (auto simp: compute_def split: sum.splits)
  then show ?thesis
    using apply_consistent [OF table_calculations_in_order [OF assms(1)] m(2)] m(1,3) by auto
qed

section \<open>Witnesses\<close>

text \<open>One calculation field, \<open>y = abs(x)\<close>.\<close>

definition demo_calculation :: calculation where
  "demo_calculation = \<lparr>c_field = ''y'', c_expr = Some \<lparr>e_root = CallNode ''ABS'' [FieldNode ''x'' 4] 0,
     e_src = ''abs(x)''\<rparr>, c_result = ResultText\<rparr>"

lemma demo_table: "table_calculations demo_env (\<lambda>_. None) [(''y'', ''abs(x)'')] = Inr [demo_calculation]"
proof -
  have pc: "parse_calculations demo_env (\<lambda>_. None) [(''y'', ''abs(x)'')] = [(''y'', demo_calculation)]"
    by (simp add: parse_calculations_def map_filter_simps parse_row_def parse_stored_calculation_def
        parse_abs_demo demo_calculation_def)
  have rd: "calc_reads demo_calculation = [''x'']"
    by (simp add: calc_reads_def demo_calculation_def expr_fields_def)
  have "calc_order [(''y'', [''x''])] = Inr [''y'']"
    by (simp add: calc_order_def calc_names_def calc_deps_def)
  then show ?thesis
    by (simp add: table_calculations_def pc rd Let_def lookup_calculation_def)
qed

lemma demo_compute:
  "R ''x'' = None \<Longrightarrow> compute demo_env demo_calculation R = Inr (SString ''0'')"
  by (simp add: compute_def demo_calculation_def evaluate_def call_function_def number1_def nth_r_def
      store_value_def is_empty_def format_number_def f_eq_def f_lt_def rat_trunc_def show_int_def
      show_nat.simps char_of_def bit_Suc_0_iff)

lemma demo_field: "c_field demo_calculation = ''y''"
  by (simp add: demo_calculation_def)

theorem applied_calculations_consistent_witness:
  "evaluate demo_env (c_expr demo_calculation) [''y'' \<mapsto> SString ''0''] (c_result demo_calculation)
   = Inr (SString ''0'')"
proof -
  have "apply_calculations_to demo_env [demo_calculation] Map.empty = Inr [''y'' \<mapsto> SString ''0'']"
    by (simp add: demo_compute demo_field)
  from applied_calculations_consistent [OF demo_table this] show ?thesis
    by (auto simp: demo_field)
qed

theorem caller_values_discarded_witness:
  "apply_calculations demo_env (\<lambda>_. None) [(''y'', ''abs(x)'')] [''y'' \<mapsto> SString ''7'']
   = apply_calculations demo_env (\<lambda>_. None) [(''y'', ''abs(x)'')] Map.empty"
  by (rule caller_values_discarded [OF demo_table]) (simp add: demo_calculation_def)

theorem update_recalculated_witness:
  "evaluate demo_env (c_expr demo_calculation) [''y'' \<mapsto> SString ''0'', ''z'' \<mapsto> SBool True]
     (c_result demo_calculation) = Inr (SString ''0'')"
proof -
  have "recalculate_for_update demo_env (\<lambda>_. None) [(''y'', ''abs(x)'')] Map.empty
      [''y'' \<mapsto> SString ''7'', ''z'' \<mapsto> SBool True] = Inr [''y'' \<mapsto> SString ''0'', ''z'' \<mapsto> SBool True]"
    by (auto simp: recalculate_for_update_def demo_table update_step_def demo_compute demo_field)
  from update_recalculated [OF demo_table this] show ?thesis
    by (auto simp: demo_field)
qed

end
