(* ===== verification/Data_Query.thy ===== *)
theory Data_Query
  imports Data_Calculations
begin

text \<open>
  The parts of \<open>server/internal/data/service.go\<close> and \<open>related.go\<close> that the statements of the data
  services share: the registered fields of a table, sort orders and pages, and the relationships of
  the catalog. What the catalog queries answer is the record \<open>catalog\<close>; an answer may be an error.
  A Go map of fields is an association list, the first entry of a name counting.
\<close>

section \<open>Errors and the catalog\<close>

datatype data_error =
    TableNotFound string
  | UnknownField string string
  | RecordNotFound string
  | InvalidValue string string
  | RelationshipNotFound string
  | SelfJoinUnnamed string string
  | DoesNotReach string string
  | NoSuchSide string string
  | OtherSideIs string string string
  | UnsupportedOperator string string
  | CreationNotAllowed string
  | NoMatchValue string string
  | DatabaseError string

record relation_side =
  rs_occurrence_id :: string
  rs_occurrence_name :: string
  rs_table :: string
  rs_column :: string

record relationship =
  rl_id :: string
  rl_name :: string
  rl_operator :: string
  rl_left :: relation_side
  rl_right :: relation_side
  rl_allow_creation :: bool
  rl_cascade_delete :: bool
  rl_sort_related :: string

type_synonym field_set = "(string \<times> field_type) list"

record catalog =
  cat_columns :: "string \<Rightarrow> data_error + (string \<times> field_type \<times> string option) list"
  cat_relationship :: "string \<Rightarrow> data_error + relationship option"

section \<open>Fields\<close>

definition table_fields :: "unicode \<Rightarrow> (string \<Rightarrow> (string \<times> string) option) \<Rightarrow> catalog \<Rightarrow> string
    \<Rightarrow> data_error + field_set" where
  "table_fields U um cat table_name =
     (if is_reserved_table_name U table_name then Inl (TableNotFound table_name)
      else bind_r (cat_columns cat table_name) (\<lambda>rows.
        let fs = rev (map (\<lambda>(name, ft, formula). (name, storage_type U um ft formula)) rows)
        in if fs = [] then Inl (TableNotFound table_name) else Inr fs))"

definition check_field :: "field_set \<Rightarrow> string \<Rightarrow> string \<Rightarrow> data_error + unit" where
  "check_field fs table_name name =
     (if map_of fs name = None then Inl (UnknownField table_name name) else Inr ())"

definition select_list :: "dialect \<Rightarrow> field_set \<Rightarrow> string" where
  "select_list D fs = join '', '' (map (d_quote D) (sort (remdups (map fst fs))))"

section \<open>Sort orders and pages\<close>

record sort_field =
  sf_field :: string
  sf_descending :: bool

record query_options =
  qo_limit :: int
  qo_offset :: int
  qo_sort_by :: string
  qo_sort_asc :: bool
  qo_sort :: "sort_field list"

definition sort_order :: "query_options \<Rightarrow> sort_field list" where
  "sort_order opt =
     (if qo_sort opt \<noteq> [] then filter (\<lambda>l. trim_space (sf_field l) \<noteq> []) (qo_sort opt)
      else if qo_sort_by opt \<noteq> []
      then [\<lparr>sf_field = qo_sort_by opt, sf_descending = \<not> qo_sort_asc opt\<rparr>]
      else [])"

definition order_part :: "dialect \<Rightarrow> sort_field \<Rightarrow> string" where
  "order_part D l = d_quote D (sf_field l) @ '' '' @ (if sf_descending l then ''DESC'' else ''ASC'')"

fun order_parts :: "dialect \<Rightarrow> field_set \<Rightarrow> string \<Rightarrow> string set \<Rightarrow> sort_field list
    \<Rightarrow> data_error + string list" where
  "order_parts D fs table_name seen [] = Inr []"
| "order_parts D fs table_name seen (l # ls) =
     bind_r (check_field fs table_name (sf_field l)) (\<lambda>_.
       if sf_field l \<in> seen then order_parts D fs table_name seen ls
       else bind_r (order_parts D fs table_name (insert (sf_field l) seen) ls)
              (\<lambda>ps. Inr (order_part D l # ps)))"

definition order_by_clause :: "dialect \<Rightarrow> field_set \<Rightarrow> string \<Rightarrow> sort_field list \<Rightarrow> data_error + string"
  where
  "order_by_clause D fs table_name order =
     (if order = [] then Inr []
      else bind_r (order_parts D fs table_name {} order) (\<lambda>ps.
        if ps = [] then Inr [] else Inr (''ORDER BY '' @ join '', '' ps)))"

definition max_page_size :: int where
  "max_page_size = 1000"

definition page_limit :: "int \<Rightarrow> int \<Rightarrow> int" where
  "page_limit dflt n =
     (if n \<le> 0 then dflt else if max_page_size < n then max_page_size else n)"

definition page_offset :: "int \<Rightarrow> int" where
  "page_offset offset = (if offset < 0 then 0 else offset)"

definition get_row_query :: "dialect \<Rightarrow> field_set \<Rightarrow> string \<Rightarrow> string" where
  "get_row_query D fs table_name =
     ''SELECT '' @ select_list D fs @ '' FROM '' @ d_quote D table_name @ '' WHERE ''
       @ d_quote D ''id'' @ '' = '' @ d_placeholder D 1 @ '' LIMIT 1''"

definition list_rows_query :: "unicode \<Rightarrow> (string \<Rightarrow> (string \<times> string) option) \<Rightarrow> catalog \<Rightarrow> dialect
    \<Rightarrow> string \<Rightarrow> query_options \<Rightarrow> data_error + string" where
  "list_rows_query U um cat D table_name opt =
     bind_r (table_fields U um cat table_name) (\<lambda>fs.
       bind_r (order_by_clause D fs table_name (sort_order opt)) (\<lambda>order.
         Inr (''SELECT '' @ select_list D fs @ '' FROM '' @ d_quote D table_name @ '' '' @ order
           @ '' LIMIT '' @ show_int (page_limit 100 (qo_limit opt))
           @ '' OFFSET '' @ show_int (page_offset (qo_offset opt)))))"

section \<open>Relationships\<close>

abbreviation ge_sign :: string where "ge_sign \<equiv> [CHR 0xE2, CHR 0x89, CHR 0xA5]"
abbreviation le_sign :: string where "le_sign \<equiv> [CHR 0xE2, CHR 0x89, CHR 0xA4]"
abbreviation ne_sign :: string where "ne_sign \<equiv> [CHR 0xE2, CHR 0x89, CHR 0xA0]"

definition relational_operators :: "(string \<times> string) list" where
  "relational_operators =
     [(''='', ''=''), (''=='', ''=''), (ne_sign, ''<>''), (''<>'', ''<>''), (''!='', ''<>''),
      (''<'', ''<''), (le_sign, ''<=''), (''<='', ''<=''), (''>'', ''>''), (ge_sign, ''>=''),
      (''>='', ''>='')]"

definition sql_operator :: "relationship \<Rightarrow> data_error + string" where
  "sql_operator r =
     (case map_of relational_operators (trim_space (rl_operator r)) of
        None \<Rightarrow> Inl (UnsupportedOperator (rl_name r) (rl_operator r))
      | Some op \<Rightarrow> Inr op)"

definition rel_sides :: "relationship \<Rightarrow> string \<Rightarrow> string \<Rightarrow> data_error + relation_side \<times> relation_side"
  where
  "rel_sides r from occ =
     bind_r
       (if occ = []
        then (if rs_table (rl_left r) = from \<and> rs_table (rl_right r) = from
              then Inl (SelfJoinUnnamed (rl_name r) from)
              else if rs_table (rl_left r) = from then Inr (rl_left r, rl_right r)
              else if rs_table (rl_right r) = from then Inr (rl_right r, rl_left r)
              else Inl (DoesNotReach (rl_name r) from))
        else if occ = rs_occurrence_id (rl_right r) \<or> occ = rs_occurrence_name (rl_right r)
        then Inr (rl_left r, rl_right r)
        else if occ = rs_occurrence_id (rl_left r) \<or> occ = rs_occurrence_name (rl_left r)
        then Inr (rl_right r, rl_left r)
        else Inl (NoSuchSide (rl_name r) occ))
       (\<lambda>(source, target).
          if rs_table source \<noteq> from then Inl (OtherSideIs (rl_name r) (rs_table source) from)
          else Inr (source, target))"

definition lookup_relationship :: "catalog \<Rightarrow> string \<Rightarrow> data_error + relationship" where
  "lookup_relationship cat rid =
     bind_r (cat_relationship cat rid) (\<lambda>r.
       case r of None \<Rightarrow> Inl (RelationshipNotFound rid) | Some r \<Rightarrow> Inr r)"

definition sort_part :: "string \<Rightarrow> sort_field option" where
  "sort_part part =
     (case trim_space part of
        [] \<Rightarrow> None
      | c # rest \<Rightarrow>
          let descending = (c = CHR ''-'');
              field = (if c = CHR ''-'' \<or> c = CHR ''+'' then trim_space rest else c # rest)
          in if field = [] then None else Some \<lparr>sf_field = field, sf_descending = descending\<rparr>)"

definition parse_sort_spec :: "string \<Rightarrow> sort_field list" where
  "parse_sort_spec spec = List.map_filter sort_part (split_char (CHR '','') spec)"

definition related_sort_order :: "unicode \<Rightarrow> relationship \<Rightarrow> relation_side \<Rightarrow> field_set \<Rightarrow> query_options
    \<Rightarrow> sort_field list" where
  "related_sort_order U r target fs opt =
     (if sort_order opt \<noteq> [] then sort_order opt
      else if rs_occurrence_id target \<noteq> rs_occurrence_id (rl_right r) then []
      else let spec = trim_space (rl_sort_related r);
               word = to_lower U spec;
               order = (if word = [] then []
                        else if word = ''asc'' \<or> word = ''ascending''
                        then [\<lparr>sf_field = rs_column target, sf_descending = False\<rparr>]
                        else if word = ''desc'' \<or> word = ''descending''
                        then [\<lparr>sf_field = rs_column target, sf_descending = True\<rparr>]
                        else parse_sort_spec spec)
           in filter (\<lambda>l. map_of fs (sf_field l) \<noteq> None) order)"

text \<open>
  \<open>matchValue\<close>: the statement is answered by \<open>read\<close>; bytes count as text. \<open>KOther\<close> is a value that is
  neither.
\<close>

datatype match_key = KNull | KText string | KBytes string | KOther string

fun empty_match_value :: "match_key \<Rightarrow> bool" where
  "empty_match_value KNull = True"
| "empty_match_value (KText s) = (trim_space s = [])"
| "empty_match_value (KBytes s) = (trim_space s = [])"
| "empty_match_value (KOther s) = False"

fun text_key :: "match_key \<Rightarrow> match_key" where
  "text_key (KBytes s) = KText s"
| "text_key k = k"

definition match_value_query :: "dialect \<Rightarrow> string \<Rightarrow> string \<Rightarrow> string" where
  "match_value_query D table_name column =
     ''SELECT '' @ d_quote D column @ '' FROM '' @ d_quote D table_name @ '' WHERE ''
       @ d_quote D ''id'' @ '' = '' @ d_placeholder D 1 @ '' LIMIT 1''"

definition match_value :: "unicode \<Rightarrow> (string \<Rightarrow> (string \<times> string) option) \<Rightarrow> catalog \<Rightarrow> dialect
    \<Rightarrow> (string \<Rightarrow> string \<Rightarrow> data_error + match_key) \<Rightarrow> string \<Rightarrow> string \<Rightarrow> string \<Rightarrow> data_error + match_key"
  where
  "match_value U um cat D read table_name column i =
     bind_r (table_fields U um cat table_name) (\<lambda>fs.
     bind_r (check_field fs table_name column) (\<lambda>_.
     bind_r (read (match_value_query D table_name column) i) (\<lambda>raw. Inr (text_key raw))))"

text \<open>
  \<open>RelatedRows\<close> up to the statement it runs: \<open>None\<close> when the match value relates to nothing, otherwise
  the statement and the value of its placeholder.
\<close>

definition related_rows :: "unicode \<Rightarrow> (string \<Rightarrow> (string \<times> string) option) \<Rightarrow> catalog \<Rightarrow> dialect
    \<Rightarrow> (string \<Rightarrow> string \<Rightarrow> data_error + match_key) \<Rightarrow> string \<Rightarrow> string \<Rightarrow> string \<Rightarrow> string
    \<Rightarrow> query_options \<Rightarrow> data_error + (string \<times> match_key) option" where
  "related_rows U um cat D read from record_id rid occ opt =
     bind_r (lookup_relationship cat rid) (\<lambda>r.
     bind_r (rel_sides r from occ) (\<lambda>(source, target).
     bind_r (sql_operator r) (\<lambda>oper.
     bind_r (table_fields U um cat (rs_table target)) (\<lambda>fs.
     bind_r (check_field fs (rs_table target) (rs_column target)) (\<lambda>_.
     bind_r (match_value U um cat D read (rs_table source) (rs_column source) record_id) (\<lambda>key.
       if empty_match_value key then Inr None
       else bind_r (order_by_clause D fs (rs_table target) (related_sort_order U r target fs opt)) (\<lambda>order.
         Inr (Some (''SELECT '' @ select_list D fs @ '' FROM '' @ d_quote D (rs_table target)
           @ '' WHERE '' @ d_quote D (rs_column target) @ '' '' @ oper @ '' '' @ d_placeholder D 1
           @ '' '' @ order @ '' LIMIT '' @ show_int (page_limit 100 (qo_limit opt))
           @ '' OFFSET '' @ show_int (page_offset (qo_offset opt)), key)))))))))"

text \<open>
  \<open>CreateRelatedRow\<close> up to the insert: the table and the values of the new record.
\<close>

definition create_related_row :: "unicode \<Rightarrow> (string \<Rightarrow> (string \<times> string) option) \<Rightarrow> catalog
    \<Rightarrow> dialect \<Rightarrow> (string \<Rightarrow> string \<Rightarrow> data_error + match_key) \<Rightarrow> (match_key \<Rightarrow> 'v) \<Rightarrow> string \<Rightarrow> string
    \<Rightarrow> string \<Rightarrow> string \<Rightarrow> (string \<Rightarrow> 'v option) \<Rightarrow> data_error + (string \<times> (string \<Rightarrow> 'v option))" where
  "create_related_row U um cat D read as_value from record_id rid occ values =
     bind_r (lookup_relationship cat rid) (\<lambda>r.
     bind_r (rel_sides r from occ) (\<lambda>(source, target).
       if \<not> rl_allow_creation r then Inl (CreationNotAllowed (rl_name r))
       else bind_r (sql_operator r) (\<lambda>oper.
         if oper \<noteq> ''='' then Inl (CreationNotAllowed (rl_name r))
         else bind_r (match_value U um cat D read (rs_table source) (rs_column source) record_id) (\<lambda>key.
           if empty_match_value key then Inl (NoMatchValue (rs_table source) (rs_column source))
           else Inr (rs_table target, values(rs_column target \<mapsto> as_value key))))))"

end
