(* ===== verification/Data_Find.thy ===== *)
theory Data_Find
  imports Data_Query "HOL-Library.Multiset"
begin

text \<open>
  Find mode: \<open>ParseFile4BaseFindCriteria\<close>, \<open>criterionClause\<close>, \<open>buildFindWhere\<close>, \<open>buildFindClauses\<close> and
  \<open>ExecuteFind\<close> of \<open>server/internal/data/service.go\<close>, and the criteria on related fields of
  \<open>related.go\<close>. The values a criterion carries are kept by their \<open>%v\<close> rendering, \<open>None\<close> being nil.
  The counter of placeholders and the list of values, which the code passes by pointer, are the
  state \<open>nat \<times> find_value list\<close>.

  The condition a find asks for is also given as a tree (\<open>find_cond\<close>) of criteria (\<open>find_atom\<close>);
  the lemmas show that the text the code builds is the rendering of that tree.
\<close>

section \<open>Requests\<close>

record find_criterion =
  fc_field :: string
  fc_operator :: string
  fc_value :: "string option"
  fc_value_to :: "string option"
  fc_relationship :: string
  fc_occurrence :: string

record find_request =
  fr_criteria :: "find_criterion list"
  fr_omit :: bool

datatype find_value = FindNumber f64 | FindText string

text \<open>What a find needs of its surroundings: \<open>strconv.ParseFloat\<close> and today's date.\<close>

record find_env =
  fe_parse_float :: "string \<Rightarrow> f64 option"
  fe_today :: string

definition is_related :: "find_criterion \<Rightarrow> bool" where
  "is_related c \<longleftrightarrow> trim_space (fc_relationship c) \<noteq> []"

definition criterion :: "string \<Rightarrow> string \<Rightarrow> string \<Rightarrow> find_criterion" where
  "criterion field oper v =
     \<lparr>fc_field = field, fc_operator = oper, fc_value = Some v, fc_value_to = None,
      fc_relationship = [], fc_occurrence = []\<rparr>"

section \<open>The operators typed into a field\<close>

definition ellipsis :: string where
  "ellipsis = ''...''"

definition expand_today :: "find_env \<Rightarrow> string \<Rightarrow> string" where
  "expand_today E trimmed =
     (if trimmed = ''//'' then fe_today E
      else if contains trimmed ''//'' then replace_all trimmed ''//'' (fe_today E)
      else trimmed)"

definition sql_wildcard :: "string \<Rightarrow> string" where
  "sql_wildcard s =
     replace_all (replace_all (replace_all s ''*'' ''%'') ''@'' ''_'') ''?'' ''_''"

definition parse_operator :: "string \<Rightarrow> string \<Rightarrow> find_criterion" where
  "parse_operator field t =
     (case cut_at ellipsis t of
        Some (a, b) \<Rightarrow>
          (criterion field ''RANGE'' (trim_space a))\<lparr>fc_value_to := Some (trim_space b)\<rparr>
      | None \<Rightarrow>
          if t = ''='' then criterion field ''IS_EMPTY'' []
          else if prefix ''=='' t then criterion field ''=='' (trim_space (drop 2 t))
          else if prefix ''='' t then criterion field ''='' (trim_space (drop 1 t))
          else if t = ''*'' then criterion field ''IS_NOT_EMPTY'' []
          else if prefix ''>='' t then criterion field ''>='' (trim_space (drop 2 t))
          else if prefix ''<='' t then criterion field ''<='' (trim_space (drop 2 t))
          else if prefix ''>'' t then criterion field ''>'' (trim_space (drop 1 t))
          else if prefix ''<'' t then criterion field ''<'' (trim_space (drop 1 t))
          else if prefix ''!='' t then criterion field ''!='' (trim_space (drop 2 t))
          else if prefix ''!'' t then criterion field ''!='' (trim_space (drop 1 t))
          else if contains t ''*'' \<or> contains t ''@'' \<or> contains t ''?''
          then criterion field ''LIKE'' (sql_wildcard t)
          else criterion field ''LIKE'' (''%'' @ t @ ''%''))"

definition parse_find_criteria :: "find_env \<Rightarrow> string \<Rightarrow> string \<Rightarrow> find_criterion" where
  "parse_find_criteria E field raw =
     (let trimmed = trim_space raw
      in if trimmed = []
         then \<lparr>fc_field = field, fc_operator = [], fc_value = None, fc_value_to = None,
               fc_relationship = [], fc_occurrence = []\<rparr>
         else parse_operator field (expand_today E trimmed))"

section \<open>The clause of a criterion\<close>

text \<open>\<open>fmt.Sprintf("%v", value)\<close>.\<close>

definition shown :: "string option \<Rightarrow> string" where
  "shown v = (case v of None \<Rightarrow> ''<nil>'' | Some s \<Rightarrow> s)"

definition empty_literal :: string where
  "empty_literal = [squote, squote]"

definition criterion_clause :: "find_env \<Rightarrow> dialect \<Rightarrow> string \<Rightarrow> find_criterion \<Rightarrow> nat \<times> find_value list
    \<Rightarrow> string \<times> nat \<times> find_value list" where
  "criterion_clause E D col crit st =
     (case st of (idx, values) \<Rightarrow>
       let oper = fc_operator crit; v = shown (fc_value crit); v2 = shown (fc_value_to crit);
           txt = d_cast_to_text D col; num = d_numeric_value D col; p = d_placeholder D idx
       in if oper = ''IS_EMPTY'' then
            (''('' @ col @ '' IS NULL OR '' @ txt @ '' = '' @ empty_literal @ '')'', idx, values)
          else if oper = ''IS_NOT_EMPTY'' then
            (''('' @ col @ '' IS NOT NULL AND '' @ txt @ '' <> '' @ empty_literal @ '')'', idx, values)
          else if oper = ''RANGE'' then
            (case (fe_parse_float E v, fe_parse_float E v2) of
               (Some n1, Some n2) \<Rightarrow>
                 (num @ '' BETWEEN '' @ p @ '' AND '' @ d_placeholder D (idx + 1), idx + 2,
                  values @ [FindNumber n1, FindNumber n2])
             | _ \<Rightarrow>
                 (txt @ '' BETWEEN '' @ p @ '' AND '' @ d_placeholder D (idx + 1), idx + 2,
                  values @ [FindText v, FindText v2]))
          else if oper = ''LIKE'' then (d_ci_like D col p, idx + 1, values @ [FindText v])
          else if oper = ''='' \<or> oper = ''=='' then
            (''LOWER('' @ txt @ '') = LOWER('' @ p @ '')'', idx + 1, values @ [FindText v])
          else if oper = ''!='' then
            (''('' @ col @ '' IS NULL OR LOWER('' @ txt @ '') <> LOWER('' @ p @ ''))'', idx + 1,
             values @ [FindText v])
          else if oper \<in> {''>'', ''<'', ''>='', ''<=''} then
            (case fe_parse_float E v of
               Some n \<Rightarrow> (num @ '' '' @ oper @ '' '' @ p, idx + 1, values @ [FindNumber n])
             | None \<Rightarrow> (txt @ '' '' @ oper @ '' '' @ p, idx + 1, values @ [FindText v]))
          else (d_ci_like D col p, idx + 1, values @ [FindText (''%'' @ v @ ''%'')]))"

section \<open>Criteria on related fields\<close>

record find_target =
  ft_table :: string
  ft_source :: string
  ft_column :: string
  ft_operator :: string
  ft_fields :: field_set
  ft_relationship :: string

type_synonym find_targets = "(string \<times> find_target) list"

definition related_find_key :: "find_criterion \<Rightarrow> string" where
  "related_find_key c = trim_space (fc_relationship c) @ [CHR 0x00] @ trim_space (fc_occurrence c)"

definition resolve_target :: "unicode \<Rightarrow> (string \<Rightarrow> (string \<times> string) option) \<Rightarrow> catalog \<Rightarrow> string
    \<Rightarrow> find_criterion \<Rightarrow> data_error + find_target" where
  "resolve_target U um cat table_name c =
     bind_r (lookup_relationship cat (trim_space (fc_relationship c))) (\<lambda>r.
     bind_r (rel_sides r table_name (trim_space (fc_occurrence c))) (\<lambda>(source, target).
     bind_r (sql_operator r) (\<lambda>oper.
     bind_r (table_fields U um cat (rs_table target)) (\<lambda>fs.
       Inr \<lparr>ft_table = rs_table target, ft_source = rs_column source, ft_column = rs_column target,
            ft_operator = oper, ft_fields = fs, ft_relationship = rl_name r\<rparr>))))"

definition resolve_find_relations :: "unicode \<Rightarrow> (string \<Rightarrow> (string \<times> string) option) \<Rightarrow> catalog
    \<Rightarrow> string \<Rightarrow> find_request list \<Rightarrow> data_error + find_targets" where
  "resolve_find_relations U um cat table_name requests =
     fold_r (\<lambda>c targets.
         if \<not> is_related c then Inr targets
         else if map_of targets (related_find_key c) \<noteq> None then Inr targets
         else bind_r (resolve_target U um cat table_name c)
                (\<lambda>t. Inr ((related_find_key c, t) # targets)))
       (concat (map fr_criteria requests)) []"

definition rel_alias :: string where
  "rel_alias = ''f4b_rel''"

definition related_criterion_clause :: "find_env \<Rightarrow> dialect \<Rightarrow> string \<Rightarrow> find_targets \<Rightarrow> find_criterion
    \<Rightarrow> nat \<times> find_value list \<Rightarrow> data_error + string \<times> nat \<times> find_value list" where
  "related_criterion_clause E D table_name targets crit st =
     (case map_of targets (related_find_key crit) of
        None \<Rightarrow> Inl (RelationshipNotFound (fc_relationship crit))
      | Some t \<Rightarrow>
          bind_r (check_field (ft_fields t) (ft_table t) (fc_field crit)) (\<lambda>_.
            let parent = d_quote D table_name @ ''.'' @ d_quote D (ft_source t);
                child = rel_alias @ ''.'' @ d_quote D (ft_column t)
            in case criterion_clause E D (rel_alias @ ''.'' @ d_quote D (fc_field crit)) crit st of
                 (inner, st') \<Rightarrow>
                   Inr (''('' @ parent @ '' IS NOT NULL AND '' @ d_cast_to_text D parent @ '' <> ''
                     @ empty_literal @ '' AND EXISTS (SELECT 1 FROM '' @ d_quote D (ft_table t) @ '' ''
                     @ rel_alias @ '' WHERE '' @ child @ '' '' @ ft_operator t @ '' '' @ parent
                     @ '' AND '' @ inner @ ''))'', st')))"

section \<open>The condition of a find\<close>

definition build_find_where :: "string list \<Rightarrow> string list \<Rightarrow> string" where
  "build_find_where include omit =
     (let parts = (if include \<noteq> [] then [''('' @ join '' OR '' include @ '')''] else [])
                  @ (if omit \<noteq> [] then [''NOT ('' @ join '' OR '' omit @ '')''] else [])
      in if parts = [] then [] else ''WHERE '' @ join '' AND '' parts)"

text \<open>A criterion without an operator, whose value holds one, is parsed.\<close>

definition has_operator :: "string \<Rightarrow> bool" where
  "has_operator s \<longleftrightarrow>
     prefix ''='' s \<or> prefix ''!'' s \<or> prefix ''>'' s \<or> prefix ''<'' s \<or> contains s ellipsis \<or>
     contains s ''*'' \<or> contains s ''@'' \<or> contains s ''?'' \<or> contains s ''//''"

definition effective_criterion :: "find_env \<Rightarrow> find_criterion \<Rightarrow> find_criterion" where
  "effective_criterion E c =
     (case fc_value c of
        Some v \<Rightarrow>
          if (fc_operator c = [] \<or> fc_operator c = ''LIKE'') \<and> has_operator (trim_space v)
          then (parse_find_criteria E (fc_field c) (trim_space v))
                 \<lparr>fc_relationship := fc_relationship c, fc_occurrence := fc_occurrence c\<rparr>
          else c
      | None \<Rightarrow> c)"

definition any_clause :: "find_env \<Rightarrow> dialect \<Rightarrow> field_set \<Rightarrow> string \<Rightarrow> find_targets \<Rightarrow> find_criterion
    \<Rightarrow> nat \<times> find_value list \<Rightarrow> data_error + string \<times> nat \<times> find_value list" where
  "any_clause E D fs table_name targets c st =
     (if is_related c then related_criterion_clause E D table_name targets c st
      else bind_r (check_field fs table_name (fc_field c)) (\<lambda>_.
             Inr (criterion_clause E D (d_quote D (fc_field c)) c st)))"

fun and_clauses :: "find_env \<Rightarrow> dialect \<Rightarrow> field_set \<Rightarrow> string \<Rightarrow> find_targets \<Rightarrow> find_criterion list
    \<Rightarrow> nat \<times> find_value list \<Rightarrow> data_error + string list \<times> nat \<times> find_value list" where
  "and_clauses E D fs table_name targets [] st = Inr ([], st)"
| "and_clauses E D fs table_name targets (c # cs) st =
     (if fc_field c = [] then and_clauses E D fs table_name targets cs st
      else bind_r (any_clause E D fs table_name targets (effective_criterion E c) st) (\<lambda>(clause, st).
             bind_r (and_clauses E D fs table_name targets cs st) (\<lambda>(rest, st).
               Inr (clause # rest, st))))"

text \<open>The loop over the requests carries the two lists of clauses as well.\<close>

definition request_step :: "find_env \<Rightarrow> dialect \<Rightarrow> field_set \<Rightarrow> string \<Rightarrow> find_targets \<Rightarrow> find_request
    \<Rightarrow> (string list \<times> string list) \<times> nat \<times> find_value list
    \<Rightarrow> data_error + (string list \<times> string list) \<times> nat \<times> find_value list" where
  "request_step E D fs table_name targets rq s =
     (case s of ((include, omit), st) \<Rightarrow>
       bind_r (and_clauses E D fs table_name targets (fr_criteria rq) st) (\<lambda>(clauses, st).
         if clauses = [] then Inr ((include, omit), st)
         else let joined = ''('' @ join '' AND '' clauses @ '')''
              in Inr (if fr_omit rq then (include, omit @ [joined]) else (include @ [joined], omit), st)))"

definition build_find_clauses :: "find_env \<Rightarrow> dialect \<Rightarrow> field_set \<Rightarrow> string \<Rightarrow> find_request list
    \<Rightarrow> find_targets \<Rightarrow> data_error + string \<times> find_value list" where
  "build_find_clauses E D fs table_name requests targets =
     bind_r (fold_r (request_step E D fs table_name targets) requests (([], []), (1, [])))
       (\<lambda>((include, omit), (_, values)). Inr (build_find_where include omit, values))"

text \<open>\<open>ExecuteFind\<close> up to the statement it runs and the values it passes.\<close>

definition execute_find :: "find_env \<Rightarrow> unicode \<Rightarrow> (string \<Rightarrow> (string \<times> string) option) \<Rightarrow> catalog
    \<Rightarrow> dialect \<Rightarrow> string \<Rightarrow> find_request list \<Rightarrow> query_options
    \<Rightarrow> data_error + string \<times> find_value list" where
  "execute_find E U um cat D table_name requests opt =
     (if requests = []
      then bind_r (list_rows_query U um cat D table_name opt) (\<lambda>q. Inr (q, []))
      else
        bind_r (table_fields U um cat table_name) (\<lambda>fs.
        bind_r (resolve_find_relations U um cat table_name requests) (\<lambda>targets.
        bind_r (build_find_clauses E D fs table_name requests targets) (\<lambda>(whr, values).
        bind_r (order_by_clause D fs table_name (sort_order opt)) (\<lambda>order.
          Inr (''SELECT '' @ select_list D fs @ '' FROM '' @ d_quote D table_name @ '' '' @ whr @ '' ''
            @ order @ '' LIMIT '' @ show_int (page_limit 500 (qo_limit opt))
            @ '' OFFSET '' @ show_int (page_offset (qo_offset opt)), values))))))"

section \<open>The tree of a find\<close>

text \<open>
  What a criterion asks of its column, the text of its clause from the number of its first
  placeholder, and the values it passes.
\<close>

datatype find_op =
    OpEmpty | OpNotEmpty | OpRange bool | OpLike | OpEqual | OpNotEqual | OpCompare bool string

fun op_arity :: "find_op \<Rightarrow> nat" where
  "op_arity OpEmpty = 0"
| "op_arity OpNotEmpty = 0"
| "op_arity (OpRange numeric) = 2"
| "op_arity _ = 1"

definition find_op_of :: "find_env \<Rightarrow> find_criterion \<Rightarrow> find_op \<times> find_value list" where
  "find_op_of E c =
     (let oper = fc_operator c; v = shown (fc_value c); v2 = shown (fc_value_to c)
      in if oper = ''IS_EMPTY'' then (OpEmpty, [])
         else if oper = ''IS_NOT_EMPTY'' then (OpNotEmpty, [])
         else if oper = ''RANGE''
         then (case (fe_parse_float E v, fe_parse_float E v2) of
                 (Some n1, Some n2) \<Rightarrow> (OpRange True, [FindNumber n1, FindNumber n2])
               | _ \<Rightarrow> (OpRange False, [FindText v, FindText v2]))
         else if oper = ''LIKE'' then (OpLike, [FindText v])
         else if oper = ''='' \<or> oper = ''=='' then (OpEqual, [FindText v])
         else if oper = ''!='' then (OpNotEqual, [FindText v])
         else if oper \<in> {''>'', ''<'', ''>='', ''<=''}
         then (case fe_parse_float E v of
                 Some n \<Rightarrow> (OpCompare True oper, [FindNumber n])
               | None \<Rightarrow> (OpCompare False oper, [FindText v]))
         else (OpLike, [FindText (''%'' @ v @ ''%'')]))"

definition measured :: "dialect \<Rightarrow> bool \<Rightarrow> string \<Rightarrow> string" where
  "measured D numeric col = (if numeric then d_numeric_value D col else d_cast_to_text D col)"

fun render_op :: "dialect \<Rightarrow> string \<Rightarrow> nat \<Rightarrow> find_op \<Rightarrow> string" where
  "render_op D col i OpEmpty =
     ''('' @ col @ '' IS NULL OR '' @ d_cast_to_text D col @ '' = '' @ empty_literal @ '')''"
| "render_op D col i OpNotEmpty =
     ''('' @ col @ '' IS NOT NULL AND '' @ d_cast_to_text D col @ '' <> '' @ empty_literal @ '')''"
| "render_op D col i (OpRange numeric) =
     measured D numeric col @ '' BETWEEN '' @ d_placeholder D i @ '' AND '' @ d_placeholder D (i + 1)"
| "render_op D col i OpLike = d_ci_like D col (d_placeholder D i)"
| "render_op D col i OpEqual =
     ''LOWER('' @ d_cast_to_text D col @ '') = LOWER('' @ d_placeholder D i @ '')''"
| "render_op D col i OpNotEqual =
     ''('' @ col @ '' IS NULL OR LOWER('' @ d_cast_to_text D col @ '') <> LOWER('' @ d_placeholder D i @ ''))''"
| "render_op D col i (OpCompare numeric oper) =
     measured D numeric col @ '' '' @ oper @ '' '' @ d_placeholder D i"

lemma find_op_of_arity: "length (snd (find_op_of E c)) = op_arity (fst (find_op_of E c))"
  by (auto simp: find_op_of_def Let_def split: option.splits)

lemma criterion_clause_renders:
  "criterion_clause E D col c (i, vs) =
   (render_op D col i (fst (find_op_of E c)), i + op_arity (fst (find_op_of E c)),
    vs @ snd (find_op_of E c))"
  by (auto simp: criterion_clause_def find_op_of_def Let_def measured_def split: option.splits)

text \<open>An atom is a criterion on a field of the table itself or of a related one.\<close>

datatype find_atom = FindAtom (atom_target: "find_target option") (atom_field: string)
  (atom_op: find_op) (atom_first: nat)

definition render_atom :: "dialect \<Rightarrow> string \<Rightarrow> find_atom \<Rightarrow> string" where
  "render_atom D table_name a =
     (case atom_target a of
        None \<Rightarrow> render_op D (d_quote D (atom_field a)) (atom_first a) (atom_op a)
      | Some t \<Rightarrow>
          (let parent = d_quote D table_name @ ''.'' @ d_quote D (ft_source t)
           in ''('' @ parent @ '' IS NOT NULL AND '' @ d_cast_to_text D parent @ '' <> '' @ empty_literal
             @ '' AND EXISTS (SELECT 1 FROM '' @ d_quote D (ft_table t) @ '' '' @ rel_alias @ '' WHERE ''
             @ rel_alias @ ''.'' @ d_quote D (ft_column t) @ '' '' @ ft_operator t @ '' '' @ parent
             @ '' AND '' @ render_op D (rel_alias @ ''.'' @ d_quote D (atom_field a)) (atom_first a)
                 (atom_op a) @ ''))''))"

definition find_atom_of :: "find_env \<Rightarrow> find_targets \<Rightarrow> find_criterion \<Rightarrow> nat \<Rightarrow> find_atom" where
  "find_atom_of E targets c i =
     FindAtom (if is_related c then map_of targets (related_find_key c) else None) (fc_field c)
       (fst (find_op_of E c)) i"

definition atom_params :: "find_atom \<Rightarrow> nat list" where
  "atom_params a = [atom_first a ..< atom_first a + op_arity (atom_op a)]"

definition atom_registered :: "field_set \<Rightarrow> find_targets \<Rightarrow> find_atom \<Rightarrow> bool" where
  "atom_registered fs targets a \<longleftrightarrow>
     (case atom_target a of
        None \<Rightarrow> map_of fs (atom_field a) \<noteq> None
      | Some t \<Rightarrow> t \<in> snd ` set targets \<and> map_of (ft_fields t) (atom_field a) \<noteq> None)"

fun find_atoms :: "find_env \<Rightarrow> find_targets \<Rightarrow> find_criterion list \<Rightarrow> nat \<Rightarrow> find_atom list" where
  "find_atoms E targets [] i = []"
| "find_atoms E targets (c # cs) i =
     find_atom_of E targets c i # find_atoms E targets cs (i + op_arity (fst (find_op_of E c)))"

definition find_values :: "find_env \<Rightarrow> find_criterion list \<Rightarrow> find_value list" where
  "find_values E cs = concat (map (\<lambda>c. snd (find_op_of E c)) cs)"

definition request_criteria :: "find_env \<Rightarrow> find_request \<Rightarrow> find_criterion list" where
  "request_criteria E rq = map (effective_criterion E) (filter (\<lambda>c. fc_field c \<noteq> []) (fr_criteria rq))"

text \<open>The requests that say anything, in the order they are given, each with the atoms it joins.\<close>

fun find_tree :: "find_env \<Rightarrow> find_targets \<Rightarrow> find_request list \<Rightarrow> nat \<Rightarrow> (bool \<times> find_atom list) list" where
  "find_tree E targets [] i = []"
| "find_tree E targets (rq # rqs) i =
     (let cs = request_criteria E rq; rest = find_tree E targets rqs (i + length (find_values E cs))
      in if cs = [] then rest else (fr_omit rq, find_atoms E targets cs i) # rest)"

definition included :: "(bool \<times> 'a) list \<Rightarrow> 'a list" where
  "included tree = map snd (filter (\<lambda>r. \<not> fst r) tree)"

definition omitted :: "(bool \<times> 'a) list \<Rightarrow> 'a list" where
  "omitted tree = map snd (filter fst tree)"

definition render_request :: "dialect \<Rightarrow> string \<Rightarrow> find_atom list \<Rightarrow> string" where
  "render_request D table_name as = ''('' @ join '' AND '' (map (render_atom D table_name) as) @ '')''"

definition render_tree :: "dialect \<Rightarrow> string \<Rightarrow> (bool \<times> find_atom list) list \<Rightarrow> string" where
  "render_tree D table_name tree =
     build_find_where (map (render_request D table_name) (included tree))
       (map (render_request D table_name) (omitted tree))"

text \<open>The placeholders in the order of the text.\<close>

definition tree_params :: "(bool \<times> find_atom list) list \<Rightarrow> nat list" where
  "tree_params tree = concat (map atom_params (concat (included tree @ omitted tree)))"

lemma criterion_field [simp]: "fc_field (criterion f oper v) = f"
  by (simp add: criterion_def)

lemma parse_operator_field [simp]: "fc_field (parse_operator f t) = f"
proof (cases "cut_at ellipsis t")
  case None
  then show ?thesis
    unfolding parse_operator_def None option.case if_distrib [of fc_field] criterion_field if_cancel by simp
next
  case (Some ab)
  then show ?thesis
    unfolding parse_operator_def by (cases ab) simp
qed

lemma effective_field [simp]: "fc_field (effective_criterion E c) = fc_field c"
  by (auto simp: effective_criterion_def parse_find_criteria_def Let_def split: option.split)

lemma any_clause_renders:
  assumes "any_clause E D fs table_name targets c (i, vs) = Inr (clause, st)"
  shows "clause = render_atom D table_name (find_atom_of E targets c i) \<and>
    st = (i + length (snd (find_op_of E c)), vs @ snd (find_op_of E c)) \<and>
    atom_registered fs targets (find_atom_of E targets c i)"
proof (cases "is_related c")
  case True
  then obtain t where t: "map_of targets (related_find_key c) = Some t"
    "map_of (ft_fields t) (fc_field c) \<noteq> None"
    using assms by (auto simp: any_clause_def related_criterion_clause_def check_field_def bind_r_Inr_iff
        split: option.splits if_splits)
  then have "t \<in> snd ` set targets" by (force dest: map_of_SomeD)
  with True t assms show ?thesis
    by (auto simp: any_clause_def related_criterion_clause_def check_field_def criterion_clause_renders
        find_atom_of_def render_atom_def atom_registered_def Let_def find_op_of_arity)
next
  case False
  with assms show ?thesis
    by (auto simp: any_clause_def check_field_def criterion_clause_renders find_atom_of_def
        render_atom_def atom_registered_def find_op_of_arity split: if_splits)
qed

lemma and_clauses_render:
  "and_clauses E D fs table_name targets cs (i, vs) = Inr (clauses, st) \<Longrightarrow>
   (let es = map (effective_criterion E) (filter (\<lambda>c. fc_field c \<noteq> []) cs)
    in clauses = map (render_atom D table_name) (find_atoms E targets es i) \<and>
       st = (i + length (find_values E es), vs @ find_values E es) \<and>
       list_all (atom_registered fs targets) (find_atoms E targets es i))"
proof (induction cs arbitrary: i vs clauses st)
  case Nil
  then show ?case by (simp add: find_values_def)
next
  case (Cons c cs)
  show ?case
  proof (cases "fc_field c = []")
    case True
    with Cons show ?thesis by simp
  next
    case False
    then obtain cl i' vs' rest where
      1: "any_clause E D fs table_name targets (effective_criterion E c) (i, vs) = Inr (cl, (i', vs'))"
      and 2: "and_clauses E D fs table_name targets cs (i', vs') = Inr (rest, st)" "clauses = cl # rest"
      using Cons.prems by (auto simp: bind_r_Inr_iff)
    from any_clause_renders [OF 1] Cons.IH [OF 2(1)] 2(2) False show ?thesis
      by (auto simp: Let_def find_values_def find_op_of_arity add.assoc)
  qed
qed

lemma find_atoms_Nil [simp]: "find_atoms E targets cs i = [] \<longleftrightarrow> cs = []"
  by (cases cs) auto

lemma request_step_renders:
  assumes "request_step E D fs table_name targets rq ((inc, om), (i, vs)) = Inr s"
  shows "let cs = request_criteria E rq; as = find_atoms E targets cs i
    in s = ((if cs = [] \<or> fr_omit rq then inc else inc @ [render_request D table_name as],
             if cs = [] \<or> \<not> fr_omit rq then om else om @ [render_request D table_name as]),
            (i + length (find_values E cs), vs @ find_values E cs)) \<and>
       list_all (atom_registered fs targets) as"
proof -
  obtain clauses st where
    a: "and_clauses E D fs table_name targets (fr_criteria rq) (i, vs) = Inr (clauses, st)"
    using assms by (auto simp: request_step_def bind_r_Inr_iff)
  from and_clauses_render [OF a] assms a show ?thesis
    by (auto simp: request_step_def request_criteria_def render_request_def Let_def)
qed

lemma find_loop_renders:
  "fold_r (request_step E D fs table_name targets) rqs ((inc, om), (i, vs)) = Inr ((inc', om'), (i', vs')) \<Longrightarrow>
   (let tree = find_tree E targets rqs i; vals = concat (map (\<lambda>rq. find_values E (request_criteria E rq)) rqs)
    in inc' = inc @ map (render_request D table_name) (included tree) \<and>
       om' = om @ map (render_request D table_name) (omitted tree) \<and>
       vs' = vs @ vals \<and> i' = i + length vals \<and>
       list_all (\<lambda>r. list_all (atom_registered fs targets) (snd r)) tree)"
proof (induction rqs arbitrary: inc om i vs)
  case Nil
  then show ?case by (simp add: included_def omitted_def)
next
  case (Cons rq rqs)
  then obtain s where s: "request_step E D fs table_name targets rq ((inc, om), (i, vs)) = Inr s"
    and rest: "fold_r (request_step E D fs table_name targets) rqs s = Inr ((inc', om'), (i', vs'))"
    by (auto simp: bind_r_Inr_iff)
  show ?case
    using request_step_renders [OF s] rest Cons.IH
    by (fastforce simp: Let_def included_def omitted_def)
qed

lemma find_atoms_params:
  "concat (map atom_params (find_atoms E targets cs i)) = [i ..< i + length (find_values E cs)]"
proof (induction cs arbitrary: i)
  case (Cons c cs)
  have "[i ..< i + op_arity (fst (find_op_of E c)) + length (find_values E cs)]
      = [i ..< i + op_arity (fst (find_op_of E c))]
        @ [i + op_arity (fst (find_op_of E c)) ..< i + op_arity (fst (find_op_of E c)) + length (find_values E cs)]"
    by (rule upt_add_eq_append) simp
  with Cons show ?case
    by (simp add: atom_params_def find_atom_of_def find_values_def find_op_of_arity add.assoc)
qed (simp add: find_values_def)

lemma request_order_params:
  "concat (map atom_params (concat (map snd (find_tree E targets rqs i))))
   = [i ..< i + length (concat (map (\<lambda>rq. find_values E (request_criteria E rq)) rqs))]"
proof (induction rqs arbitrary: i)
  case (Cons rq rqs)
  let ?n = "length (find_values E (request_criteria E rq))"
  let ?m = "length (concat (map (\<lambda>rq. find_values E (request_criteria E rq)) rqs))"
  have "[i ..< i + ?n + ?m] = [i ..< i + ?n] @ [i + ?n ..< i + ?n + ?m]"
    by (rule upt_add_eq_append) simp
  with Cons [of "i + ?n"] find_atoms_params [of E targets "request_criteria E rq" i] show ?case
    by (auto simp: Let_def add.assoc find_values_def)
qed simp

lemma text_order_perm:
  "mset (tree_params tree) = mset (concat (map atom_params (concat (map snd tree))))"
  by (induction tree) (auto simp: tree_params_def included_def omitted_def)

lemma tree_omits:
  "map fst (find_tree E targets rqs i) = map fr_omit (filter (\<lambda>rq. request_criteria E rq \<noteq> []) rqs)"
  by (induction rqs arbitrary: i) (auto simp: Let_def)

lemma build_renders:
  assumes "build_find_clauses E D fs table_name requests targets = Inr (whr, values)"
  defines "tree \<equiv> find_tree E targets requests 1"
  shows "whr = render_tree D table_name tree" (is ?text)
    and "mset (tree_params tree) = mset [1 ..< length values + 1]" (is ?params)
    and "list_all (\<lambda>r. list_all (atom_registered fs targets) (snd r)) tree" (is ?registered)
    and "values = concat (map (\<lambda>rq. find_values E (request_criteria E rq)) requests)" (is ?vals)
proof -
  from assms(1) obtain inc om n where
    loop: "fold_r (request_step E D fs table_name targets) requests (([], []), (1, [])) = Inr ((inc, om), (n, values))"
    and whr: "whr = build_find_where inc om"
    by (auto simp: build_find_clauses_def bind_r_Inr_iff)
  from find_loop_renders [OF loop] whr request_order_params [of E targets requests 1]
  show ?text and ?params and ?registered and ?vals
    by (auto simp: Let_def tree_def render_tree_def text_order_perm)
qed

lemma table_fields_user_table:
  "table_fields U um cat t = Inr fs \<Longrightarrow> \<not> is_reserved_table_name U t \<and> fs \<noteq> []"
  by (auto simp: table_fields_def bind_r_Inr_iff Let_def split: if_splits)

section \<open>Properties of finds\<close>


text \<open>Whether no request that omits passes a value before one that includes does.\<close>

fun omits_last :: "find_env \<Rightarrow> find_request list \<Rightarrow> bool" where
  "omits_last E [] = True"
| "omits_last E (rq # rqs) =
     ((fr_omit rq \<and> find_values E (request_criteria E rq) \<noteq> [] \<longrightarrow>
         (\<forall>r \<in> set rqs. \<not> fr_omit r \<longrightarrow> find_values E (request_criteria E r) = [])) \<and>
      omits_last E rqs)"

text \<open>The placeholders of a list of requests, and how the two orders come apart.\<close>

definition params_of :: "find_atom list list \<Rightarrow> nat list" where
  "params_of rs = concat (map atom_params (concat rs))"

lemma params_of_simps [simp]:
  "params_of [] = []"
  "params_of (as # rs) = concat (map atom_params as) @ params_of rs"
  by (simp_all add: params_of_def)

lemma split_requests [simp]:
  "included [] = []" "omitted [] = []"
  "included ((om, as) # tree) = (if om then included tree else as # included tree)"
  "omitted ((om, as) # tree) = (if om then as # omitted tree else omitted tree)"
  by (simp_all add: included_def omitted_def)

lemma tree_params_split: "tree_params tree = params_of (included tree) @ params_of (omitted tree)"
  by (simp add: tree_params_def params_of_def)

lemma request_params:
  "params_of (map snd (find_tree E targets rqs i))
   = [i ..< i + length (concat (map (\<lambda>rq. find_values E (request_criteria E rq)) rqs))]"
  using request_order_params by (simp add: params_of_def)

lemma find_tree_Cons:
  "find_tree E targets (rq # rqs) i =
   (if request_criteria E rq = [] then find_tree E targets rqs (i + length (find_values E (request_criteria E rq)))
    else (fr_omit rq, find_atoms E targets (request_criteria E rq) i)
           # find_tree E targets rqs (i + length (find_values E (request_criteria E rq))))"
  by (simp add: Let_def)

lemma find_values_Nil [simp]: "find_values E [] = []"
  by (simp add: find_values_def)

lemma included_params_empty:
  "params_of (included (find_tree E targets rqs i)) = [] \<longleftrightarrow>
   (\<forall>r \<in> set rqs. \<not> fr_omit r \<longrightarrow> find_values E (request_criteria E r) = [])"
proof (induction rqs arbitrary: i)
  case (Cons rq rqs)
  show ?case
    using Cons find_atoms_params [of E targets "request_criteria E rq" i]
    by (auto simp add: find_tree_Cons simp del: find_tree.simps)
qed simp

lemma included_params_ge:
  "k \<in> set (params_of (included (find_tree E targets rqs i))) \<Longrightarrow> i \<le> k"
proof -
  assume "k \<in> set (params_of (included (find_tree E targets rqs i)))"
  then have "k \<in> set (params_of (map snd (find_tree E targets rqs i)))"
    by (force simp: included_def params_of_def)
  then show ?thesis unfolding request_params by simp
qed

lemma tree_params_nothing_included:
  "params_of (included tree) = [] \<Longrightarrow> tree_params tree = params_of (map snd tree)"
  by (induction tree) (auto simp: tree_params_split split: if_splits)

lemma omits_last_nothing_included:
  "\<forall>r \<in> set rqs. \<not> fr_omit r \<longrightarrow> find_values E (request_criteria E r) = [] \<Longrightarrow> omits_last E rqs"
  by (induction rqs) auto

lemma text_order_iff:
  "tree_params (find_tree E targets rqs i) = params_of (map snd (find_tree E targets rqs i))
   \<longleftrightarrow> omits_last E rqs"
proof (induction rqs arbitrary: i)
  case Nil
  show ?case by (simp add: tree_params_split)
next
  case (Cons rq rqs)
  let ?cs = "request_criteria E rq"
  let ?j = "i + length (find_values E ?cs)"
  let ?T = "find_tree E targets rqs ?j"
  note params = find_atoms_params [of E targets ?cs i]
  show ?case
  proof (cases "fr_omit rq \<and> find_values E ?cs \<noteq> []")
    case False
    then have last: "omits_last E (rq # rqs) \<longleftrightarrow> omits_last E rqs" by auto
    from False have "fr_omit rq \<Longrightarrow> concat (map atom_params (find_atoms E targets ?cs i)) = []"
      unfolding params by simp
    then have "tree_params (find_tree E targets (rq # rqs) i) = params_of (map snd (find_tree E targets (rq # rqs) i))
        \<longleftrightarrow> tree_params ?T = params_of (map snd ?T)"
      unfolding find_tree_Cons tree_params_split
      by (cases "fr_omit rq"; cases "?cs = []") (simp_all only: if_True if_False split_requests params_of_simps
          list.map snd_conv append_assoc append_Nil same_append_eq simp_thms)
    then show ?thesis unfolding last Cons .
  next
    case True
    then have "?cs \<noteq> []" by auto
    with True have tree: "find_tree E targets (rq # rqs) i = (True, find_atoms E targets ?cs i) # ?T"
      unfolding find_tree_Cons by simp
    have x: "[i ..< ?j] = i # [Suc i ..< ?j]" using True by (simp add: upt_conv_Cons)
    show ?thesis
    proof (cases "params_of (included ?T)")
      case Nil
      then have last: "omits_last E (rq # rqs)"
        using omits_last_nothing_included [of rqs E] unfolding included_params_empty by simp
      have "params_of (omitted ?T) = params_of (map snd ?T)"
        using tree_params_nothing_included [OF Nil] Nil by (simp add: tree_params_split)
      then have "tree_params (find_tree E targets (rq # rqs) i) = params_of (map snd (find_tree E targets (rq # rqs) i))"
        by (simp only: tree tree_params_split split_requests params_of_simps list.map snd_conv Nil if_True append_Nil)
      with last show ?thesis by blast
    next
      case (Cons k ks)
      then have "?j \<le> k" by (intro included_params_ge [of k E targets rqs ?j]) simp
      moreover have "0 < length (find_values E ?cs)" using True by simp
      ultimately have "i < k" by linarith
      then have "tree_params (find_tree E targets (rq # rqs) i) \<noteq> params_of (map snd (find_tree E targets (rq # rqs) i))"
        by (simp only: tree tree_params_split split_requests params_of_simps list.map snd_conv Cons if_True
            params x append_Cons list.inject) simp
      moreover have "\<not> omits_last E (rq # rqs)"
        using Cons True included_params_empty [of E targets rqs ?j] by auto
      ultimately show ?thesis by blast
    qed
  qed
qed



text \<open>A find for the tests below: \<open>city\<close> omitted, then \<open>name\<close> included.\<close>

definition demo_find_env :: find_env where
  "demo_find_env = \<lparr>fe_parse_float = (\<lambda>s. None), fe_today = ''2026-01-01''\<rparr>"

definition demo_requests :: "find_request list" where
  "demo_requests =
     [\<lparr>fr_criteria = [criterion ''city'' ''=='' ''x''], fr_omit = True\<rparr>,
      \<lparr>fr_criteria = [criterion ''name'' ''=='' ''y''], fr_omit = False\<rparr>]"

definition demo_fields :: field_set where
  "demo_fields = [(''city'', FieldText), (''name'', FieldText)]"

lemma demo_criterion:
  "effective_criterion E (criterion f ''=='' v) = criterion f ''=='' v"
  "is_related (criterion f oper v) = False"
  "find_op_of E (criterion f ''=='' v) = (OpEqual, [FindText v])"
  by (simp_all add: effective_criterion_def criterion_def is_related_def find_op_of_def shown_def)

lemma demo_build:
  "build_find_clauses demo_find_env D demo_fields ''people'' demo_requests [] =
   Inr (render_tree D ''people'' (find_tree demo_find_env [] demo_requests 1), [FindText ''x'', FindText ''y''])"
proof -
  have "\<exists>whr. build_find_clauses demo_find_env D demo_fields ''people'' demo_requests [] =
    Inr (whr, [FindText ''x'', FindText ''y''])"
    by (simp add: build_find_clauses_def demo_requests_def request_step_def any_clause_def demo_criterion
        check_field_def demo_fields_def criterion_clause_renders)
  then obtain whr where "build_find_clauses demo_find_env D demo_fields ''people'' demo_requests [] =
    Inr (whr, [FindText ''x'', FindText ''y''])" ..
  with build_renders(1) [OF this] show ?thesis by simp
qed

lemma demo_not_last: "\<not> omits_last demo_find_env demo_requests"
  by (simp add: demo_requests_def request_criteria_def demo_criterion find_values_def)


section \<open>The found set\<close>

text \<open>SQL's conditions have three values, \<open>None\<close> being unknown; a row is selected when its is true.\<close>

definition sql_and :: "bool option list \<Rightarrow> bool option" where
  "sql_and vs = (if Some False \<in> set vs then Some False else if None \<in> set vs then None else Some True)"

definition sql_or :: "bool option list \<Rightarrow> bool option" where
  "sql_or vs = (if Some True \<in> set vs then Some True else if None \<in> set vs then None else Some False)"

text \<open>Whether the condition of \<open>render_tree\<close> selects a row, from what its criteria say of the row.\<close>

definition selects :: "(find_atom \<Rightarrow> bool option) \<Rightarrow> (bool \<times> find_atom list) list \<Rightarrow> bool" where
  "selects v tree =
     (let request = (\<lambda>r. sql_and (map v r));
          parts = (if included tree \<noteq> [] then [sql_or (map request (included tree))] else [])
            @ (if omitted tree \<noteq> [] then [map_option Not (sql_or (map request (omitted tree)))] else [])
      in parts = [] \<or> sql_and parts = Some True)"

lemma sql_true:
  "sql_and vs = Some True \<longleftrightarrow> (\<forall>x \<in> set vs. x = Some True)"
  "sql_or vs = Some True \<longleftrightarrow> Some True \<in> set vs"
  by (auto simp: sql_and_def sql_or_def) (metis (full_types) not_None_eq)+

lemma sql_false:
  "sql_and vs = Some False \<longleftrightarrow> Some False \<in> set vs"
  "sql_or vs = Some False \<longleftrightarrow> (\<forall>x \<in> set vs. x = Some False)"
  by (auto simp: sql_and_def sql_or_def) (metis (full_types) not_None_eq)+

lemma selects_iff:
  "selects v tree \<longleftrightarrow>
   (included tree = [] \<or> (\<exists>r \<in> set (included tree). \<forall>a \<in> set r. v a = Some True)) \<and>
   (\<forall>r \<in> set (omitted tree). \<exists>a \<in> set r. v a = Some False)"
proof -
  have inc: "sql_or (map (\<lambda>r. sql_and (map v r)) rs) = Some True \<longleftrightarrow> (\<exists>r \<in> set rs. \<forall>a \<in> set r. v a = Some True)" for rs
  proof -
    have "sql_or (map (\<lambda>r. sql_and (map v r)) rs) = Some True \<longleftrightarrow> (\<exists>r \<in> set rs. sql_and (map v r) = Some True)"
      unfolding sql_true(2) set_map image_iff by (simp only: eq_commute)
    then show ?thesis by (simp add: sql_true(1))
  qed
  have om: "map_option Not (sql_or (map (\<lambda>r. sql_and (map v r)) rs)) = Some True \<longleftrightarrow>
      (\<forall>r \<in> set rs. \<exists>a \<in> set r. v a = Some False)" for rs
  proof -
    have "map_option Not (sql_or (map (\<lambda>r. sql_and (map v r)) rs)) = Some True \<longleftrightarrow>
        sql_or (map (\<lambda>r. sql_and (map v r)) rs) = Some False"
      by auto
    also have "\<dots> \<longleftrightarrow> (\<forall>r \<in> set rs. sql_and (map v r) = Some False)"
      by (simp add: sql_false(2))
    also have "\<dots> \<longleftrightarrow> (\<forall>r \<in> set rs. \<exists>a \<in> set r. v a = Some False)"
      unfolding sql_false(1) set_map image_iff by (simp only: eq_commute)
    finally show ?thesis .
  qed
  show ?thesis
  proof (cases "omitted tree = []")
    case True
    then show ?thesis
      unfolding inc [symmetric] by (cases "included tree = []") (simp_all add: selects_def sql_true(1))
  next
    case False
    then show ?thesis
      unfolding inc [symmetric] om [symmetric]
      by (cases "included tree = []") (simp_all add: selects_def Let_def sql_true(1))
  qed
qed



lemma demo_table_fields:
  "table_fields ascii_only (\<lambda>_. None)
     \<lparr>cat_columns = (\<lambda>_. Inr [(''name'', FieldText, None), (''city'', FieldText, None)]),
      cat_relationship = (\<lambda>_. Inr None)\<rparr> ''people'' = Inr demo_fields"
proof -
  have "\<not> is_reserved_table_name ascii_only ''people''"
    by (simp add: is_reserved_table_name_def identifier_normalized matches_identifier_def lower_letter_def
        identifier_char_def reserved_table_names_def reserved_table_prefixes_def Let_def)
  then show ?thesis by (simp add: table_fields_def demo_fields_def storage_type_def)
qed


end
