(* ===== verification/Data_Cascade.thy ===== *)
theory Data_Cascade
  imports Data_Query
begin

text \<open>
  Deleting a record with the records that belong to it: \<open>deleteRow\<close> of
  \<open>server/internal/data/service.go\<close> and \<open>cascadeDelete\<close> of \<open>related.go\<close>. A record is named by its
  table and id (the code joins the two with a NUL byte, which no table name holds); the state is the
  set of records of the database and the set \<open>seen\<close>. There is no transaction, so an error leaves the
  state as it is at that moment.

  How the engine answers the statements is the record \<open>cascade_env\<close>: the relationships that cascade
  from a table, the match value of a record, the ids of the rows of a related query. The depth of the
  recursion and the turns of the page loop are bounded by fuel; \<open>delete_row_total\<close> shows that one
  more than the number of records is enough for either.
\<close>

section \<open>State\<close>

type_synonym record_id = "string \<times> string"

record cascade =
  cs_db :: "record_id set"
  cs_seen :: "record_id set"

record cascade_env =
  ce_unicode :: unicode
  ce_unmarshal :: "string \<Rightarrow> (string \<times> string) option"
  ce_catalog :: catalog
  ce_dialect :: dialect
  ce_cascading :: "string \<Rightarrow> data_error + string list"
  ce_read :: "record_id set \<Rightarrow> string \<Rightarrow> string \<Rightarrow> data_error + match_key"
  ce_answer :: "record_id set \<Rightarrow> string \<Rightarrow> match_key \<Rightarrow> data_error + string list"
  ce_refuses :: "record_id \<Rightarrow> data_error option"

datatype delete_fail = Refused data_error | DeleteFuel

type_synonym 'a deletion = "cascade \<Rightarrow> (delete_fail + 'a) \<times> cascade"

section \<open>Operations\<close>

text \<open>The page of related ids: \<open>RelatedRows\<close> with \<open>MaxPageSize\<close>, and the \<open>id\<close> of every row.\<close>

definition page_options :: query_options where
  "page_options = \<lparr>qo_limit = max_page_size, qo_offset = 0, qo_sort_by = [], qo_sort_asc = False, qo_sort = []\<rparr>"

definition children_page :: "cascade_env \<Rightarrow> record_id set \<Rightarrow> record_id \<Rightarrow> string \<Rightarrow> relationship
    \<Rightarrow> data_error + string list" where
  "children_page E db rcd rid r =
     bind_r (related_rows (ce_unicode E) (ce_unmarshal E) (ce_catalog E) (ce_dialect E) (ce_read E db)
              (fst rcd) (snd rcd) rid (rs_occurrence_id (rl_right r)) page_options)
       (\<lambda>plan. case plan of None \<Rightarrow> Inr [] | Some (q, key) \<Rightarrow> ce_answer E db q key)"

fun children_lost :: "data_error \<Rightarrow> bool" where
  "children_lost (TableNotFound t) = True"
| "children_lost (UnknownField t f) = True"
| "children_lost _ = False"

text \<open>The loop over one page; the counter is \<open>deleted\<close>.\<close>

fun delete_children :: "(record_id \<Rightarrow> unit deletion) \<Rightarrow> string \<Rightarrow> string list \<Rightarrow> nat \<Rightarrow> nat deletion" where
  "delete_children del tbl [] deleted s = (Inr deleted, s)"
| "delete_children del tbl (c # cs) deleted s =
     (if c = [] \<or> (tbl, c) \<in> cs_seen s then delete_children del tbl cs deleted s
      else case del (tbl, c) s of
             (Inl e, s) \<Rightarrow> (Inl e, s)
           | (Inr _, s) \<Rightarrow> delete_children del tbl cs (deleted + 1) s)"

primrec page_loop :: "cascade_env \<Rightarrow> (record_id \<Rightarrow> unit deletion) \<Rightarrow> record_id \<Rightarrow> string \<Rightarrow> relationship
    \<Rightarrow> nat \<Rightarrow> unit deletion" where
  "page_loop E del rcd rid r 0 s = (Inl DeleteFuel, s)"
| "page_loop E del rcd rid r (Suc k) s =
     (case children_page E (cs_db s) rcd rid r of
        Inl e \<Rightarrow> (if children_lost e then Inr () else Inl (Refused e), s)
      | Inr ids \<Rightarrow>
          (case delete_children del (rs_table (rl_right r)) ids 0 s of
             (Inl e, s) \<Rightarrow> (Inl e, s)
           | (Inr deleted, s) \<Rightarrow> if deleted = 0 then (Inr (), s) else page_loop E del rcd rid r k s))"

fun cascade_all :: "cascade_env \<Rightarrow> (record_id \<Rightarrow> unit deletion) \<Rightarrow> nat \<Rightarrow> record_id \<Rightarrow> string list
    \<Rightarrow> unit deletion" where
  "cascade_all E del k rcd [] s = (Inr (), s)"
| "cascade_all E del k rcd (rid # rids) s =
     (case lookup_relationship (ce_catalog E) rid of
        Inl e \<Rightarrow> (Inl (Refused e), s)
      | Inr r \<Rightarrow>
          (case page_loop E del rcd rid r k s of
             (Inl e, s) \<Rightarrow> (Inl e, s)
           | (Inr _, s) \<Rightarrow> cascade_all E del k rcd rids s))"

definition cascade_delete :: "cascade_env \<Rightarrow> (record_id \<Rightarrow> unit deletion) \<Rightarrow> nat \<Rightarrow> record_id \<Rightarrow> unit deletion"
  where
  "cascade_delete E del k rcd s =
     (case ce_cascading E (fst rcd) of
        Inl e \<Rightarrow> (Inl (Refused e), s)
      | Inr rids \<Rightarrow> cascade_all E del k rcd rids s)"

text \<open>The \<open>DELETE\<close> statement and the test of the rows it affected.\<close>

definition delete_record :: "cascade_env \<Rightarrow> record_id \<Rightarrow> unit deletion" where
  "delete_record E rcd s =
     (case ce_refuses E rcd of
        Some e \<Rightarrow> (Inl (Refused e), s)
      | None \<Rightarrow>
          if rcd \<notin> cs_db s then (Inl (Refused (RecordNotFound (snd rcd))), s)
          else (Inr (), s\<lparr>cs_db := cs_db s - {rcd}\<rparr>))"

primrec delete_row :: "cascade_env \<Rightarrow> nat \<Rightarrow> nat \<Rightarrow> record_id \<Rightarrow> unit deletion" where
  "delete_row E k 0 rcd s = (Inl DeleteFuel, s)"
| "delete_row E k (Suc n) rcd s =
     (case table_fields (ce_unicode E) (ce_unmarshal E) (ce_catalog E) (fst rcd) of
        Inl e \<Rightarrow> (Inl (Refused e), s)
      | Inr _ \<Rightarrow>
          if rcd \<in> cs_seen s then (Inr (), s)
          else case cascade_delete E (delete_row E k n) k rcd (s\<lparr>cs_seen := insert rcd (cs_seen s)\<rparr>) of
                 (Inl e, s) \<Rightarrow> (Inl e, s)
               | (Inr _, s) \<Rightarrow> delete_record E rcd s)"

text \<open>\<open>DeleteRow\<close>.\<close>

definition delete_row_top :: "cascade_env \<Rightarrow> record_id \<Rightarrow> record_id set \<Rightarrow> (delete_fail + unit) \<times> cascade" where
  "delete_row_top E rcd db =
     delete_row E (Suc (card db)) (Suc (Suc (card db))) rcd \<lparr>cs_db = db, cs_seen = {}\<rparr>"

section \<open>What belongs to a record\<close>

text \<open>
  \<open>R rid x y\<close>: by the values the engine compares, the relationship \<open>rid\<close> relates \<open>y\<close> to \<open>x\<close>. A record
  belongs to another when a relationship that cascades from the table of the other relates them.
\<close>

definition related_by :: "cascade_env \<Rightarrow> (string \<Rightarrow> record_id \<Rightarrow> record_id \<Rightarrow> bool) \<Rightarrow> string \<Rightarrow> record_id
    \<Rightarrow> record_id \<Rightarrow> bool" where
  "related_by E R rid x y \<longleftrightarrow>
     (\<exists>r. lookup_relationship (ce_catalog E) rid = Inr r \<and> fst y = rs_table (rl_right r) \<and> R rid x y)"

definition belongs :: "cascade_env \<Rightarrow> (string \<Rightarrow> record_id \<Rightarrow> record_id \<Rightarrow> bool) \<Rightarrow> record_id \<Rightarrow> record_id \<Rightarrow> bool"
  where
  "belongs E R x y \<longleftrightarrow>
     (\<exists>rids. ce_cascading E (fst x) = Inr rids \<and> (\<exists>rid \<in> set rids. related_by E R rid x y))"

abbreviation reaches :: "cascade_env \<Rightarrow> (string \<Rightarrow> record_id \<Rightarrow> record_id \<Rightarrow> bool) \<Rightarrow> record_id \<Rightarrow> record_id \<Rightarrow> bool"
  where
  "reaches E R \<equiv> (belongs E R)\<^sup>*\<^sup>*"

text \<open>
  What the code relies on of the engine: the match value of a record that is not there cannot be
  read; a page holds ids of related records only, and all of them when it is not full; a relationship
  whose table or field is gone from the catalog relates nothing.
\<close>

definition honest_engine :: "cascade_env \<Rightarrow> (string \<Rightarrow> record_id \<Rightarrow> record_id \<Rightarrow> bool) \<Rightarrow> bool" where
  "honest_engine E R \<longleftrightarrow>
     (\<forall>db x rids rid r. ce_cascading E (fst x) = Inr rids \<longrightarrow> rid \<in> set rids \<longrightarrow>
        lookup_relationship (ce_catalog E) rid = Inr r \<longrightarrow>
        (let M = {c. (rs_table (rl_right r), c) \<in> db \<and> R rid x (rs_table (rl_right r), c)}
         in case children_page E db x rid r of
              Inl e \<Rightarrow> children_lost e \<longrightarrow> M = {}
            | Inr ids \<Rightarrow> x \<in> db \<and> set ids \<subseteq> M \<and> (card (set ids) < 1000 \<longrightarrow> set ids = M)))"

lemma honest_page:
  assumes "honest_engine E R" and "ce_cascading E (fst x) = Inr rids" and "rid \<in> set rids"
    and "lookup_relationship (ce_catalog E) rid = Inr r" and "children_page E db x rid r = Inr ids"
  shows "x \<in> db" and "c \<in> set ids \<Longrightarrow> (rs_table (rl_right r), c) \<in> db \<and> related_by E R rid x (rs_table (rl_right r), c)"
    and "card (set ids) < 1000 \<Longrightarrow> y \<in> db \<Longrightarrow> related_by E R rid x y \<Longrightarrow> snd y \<in> set ids"
proof -
  let ?M = "{c. (rs_table (rl_right r), c) \<in> db \<and> R rid x (rs_table (rl_right r), c)}"
  have h: "x \<in> db \<and> set ids \<subseteq> ?M \<and> (card (set ids) < 1000 \<longrightarrow> set ids = ?M)"
    using assms(1) [unfolded honest_engine_def Let_def, rule_format, OF assms(2-4), of db]
    unfolding assms(5) sum.case .
  show "x \<in> db" using h by (rule conjunct1)
  show "c \<in> set ids \<Longrightarrow> (rs_table (rl_right r), c) \<in> db \<and> related_by E R rid x (rs_table (rl_right r), c)"
    using h assms(4) unfolding related_by_def by auto
  show "card (set ids) < 1000 \<Longrightarrow> y \<in> db \<Longrightarrow> related_by E R rid x y \<Longrightarrow> snd y \<in> set ids"
    using h assms(4) unfolding related_by_def by (cases y) auto
qed

lemma honest_lost:
  assumes "honest_engine E R" and "ce_cascading E (fst x) = Inr rids" and "rid \<in> set rids"
    and "lookup_relationship (ce_catalog E) rid = Inr r" and "children_page E db x rid r = Inl e"
    and "children_lost e" and "y \<in> db"
  shows "\<not> related_by E R rid x y"
proof -
  have "{c. (rs_table (rl_right r), c) \<in> db \<and> R rid x (rs_table (rl_right r), c)} = {}"
    using assms(1) [unfolded honest_engine_def Let_def, rule_format, OF assms(2-4), of db] assms(6)
    unfolding assms(5) sum.case by simp
  with assms(4,7) show ?thesis unfolding related_by_def by (cases y) auto
qed

section \<open>Everything removed is reached\<close>

definition confined :: "cascade_env \<Rightarrow> (string \<Rightarrow> record_id \<Rightarrow> record_id \<Rightarrow> bool) \<Rightarrow> record_id \<Rightarrow> cascade \<Rightarrow> cascade \<Rightarrow> bool"
  where
  "confined E R x s s' \<longleftrightarrow>
     cs_db s' \<subseteq> cs_db s \<and> cs_seen s \<subseteq> cs_seen s' \<and> (\<forall>y \<in> cs_db s - cs_db s'. reaches E R x y)"

lemma confined_refl [simp]: "confined E R x s s"
  by (simp add: confined_def)

lemma confined_trans: "confined E R x s s' \<Longrightarrow> confined E R x s' s'' \<Longrightarrow> confined E R x s s''"
  unfolding confined_def by blast

lemma confined_child: "belongs E R x y \<Longrightarrow> confined E R y s s' \<Longrightarrow> confined E R x s s'"
  unfolding confined_def by (meson converse_rtranclp_into_rtranclp)

lemma delete_children_closed:
  assumes "\<And>s. Q s s" and "\<And>s s' s''. Q s s' \<Longrightarrow> Q s' s'' \<Longrightarrow> Q s s''"
    and "\<And>c s. c \<in> set cs \<Longrightarrow> Q s (snd (del (tbl, c) s))"
  shows "Q s (snd (delete_children del tbl cs d s))"
  using assms(3)
proof (induction del tbl cs d s rule: delete_children.induct)
  case (2 del tbl c cs d s)
  show ?case
  proof (cases "c = [] \<or> (tbl, c) \<in> cs_seen s")
    case True
    with 2 show ?thesis by auto
  next
    case False
    obtain res s1 where del: "del (tbl, c) s = (res, s1)" by (cases "del (tbl, c) s")
    have first: "Q s s1" using 2(3) [of c s] del by simp
    show ?thesis
    proof (cases res)
      case (Inl e)
      with False del first show ?thesis by simp
    next
      case (Inr u)
      then have "Q s1 (snd (delete_children del tbl cs (d + 1) s1))"
        using 2(2) [OF False del [symmetric]] 2(3) by auto
      with False del first Inr show ?thesis by (auto intro: assms(2))
    qed
  qed
qed (simp add: assms(1))

lemma delete_children_confined:
  assumes "\<And>c s. c \<in> set cs \<Longrightarrow> confined E R x s (snd (del (tbl, c) s))"
  shows "confined E R x s (snd (delete_children del tbl cs d s))"
  by (rule delete_children_closed [of "confined E R x"]) (auto intro: assms confined_trans)

lemma page_loop_confined:
  assumes "\<And>y s. belongs E R x y \<Longrightarrow> confined E R y s (snd (del y s))" and "honest_engine E R"
    and "ce_cascading E (fst x) = Inr rids" and "rid \<in> set rids"
    and "lookup_relationship (ce_catalog E) rid = Inr r"
  shows "confined E R x s (snd (page_loop E del x rid r k s))"
proof (induction k arbitrary: s)
  case (Suc k)
  show ?case
  proof (cases "children_page E (cs_db s) x rid r")
    case (Inr ids)
    obtain res s1 where pass: "delete_children del (rs_table (rl_right r)) ids 0 s = (res, s1)"
      by (cases "delete_children del (rs_table (rl_right r)) ids 0 s")
    have "confined E R x s (snd (delete_children del (rs_table (rl_right r)) ids 0 s))"
      using honest_page(2) [OF assms(2-5) Inr] assms(3,4)
      by (intro delete_children_confined confined_child [OF _ assms(1)]) (auto simp: belongs_def)
    with pass Inr Suc [of s1] show ?thesis
      by (cases res) (auto intro: confined_trans)
  qed simp
qed simp

lemma cascade_all_confined:
  assumes "\<And>y s. belongs E R x y \<Longrightarrow> confined E R y s (snd (del y s))" and "honest_engine E R"
    and "ce_cascading E (fst x) = Inr rids"
  shows "set rs \<subseteq> set rids \<Longrightarrow> confined E R x s (snd (cascade_all E del k x rs s))"
proof (induction rs arbitrary: s)
  case (Cons rid rs)
  show ?case
  proof (cases "lookup_relationship (ce_catalog E) rid")
    case (Inr r)
    obtain res s1 where loop: "page_loop E del x rid r k s = (res, s1)"
      by (cases "page_loop E del x rid r k s")
    have "confined E R x s (snd (page_loop E del x rid r k s))"
      using Cons.prems by (intro page_loop_confined [OF assms _ Inr]) auto
    with loop Inr Cons show ?thesis by (cases res) (auto intro: confined_trans)
  qed simp
qed simp

lemma delete_row_confined:
  assumes "honest_engine E R"
  shows "confined E R x s (snd (delete_row E k n x s))"
proof (induction n arbitrary: x s)
  case (Suc n)
  let ?s = "s\<lparr>cs_seen := insert x (cs_seen s)\<rparr>"
  obtain res s1 where c: "cascade_delete E (delete_row E k n) k x ?s = (res, s1)"
    by (cases "cascade_delete E (delete_row E k n) k x ?s")
  have "confined E R x ?s (snd (cascade_delete E (delete_row E k n) k x ?s))"
    by (cases "ce_cascading E (fst x)")
      (auto simp: cascade_delete_def intro!: cascade_all_confined [OF Suc assms])
  then have "confined E R x s s1" by (auto simp: c confined_def)
  moreover have "confined E R x s1 (snd (delete_record E x s1))"
    by (auto simp: delete_record_def confined_def split: option.split)
  ultimately show ?case
    by (auto simp: c split: sum.split prod.split intro: confined_trans)
qed simp

section \<open>The deletion ends\<close>

definition later :: "cascade \<Rightarrow> cascade \<Rightarrow> bool" where
  "later s s' \<longleftrightarrow> cs_db s' \<subseteq> cs_db s \<and> cs_seen s \<subseteq> cs_seen s'"

lemma later_refl [simp]: "later s s"
  by (simp add: later_def)

lemma later_trans: "later s s' \<Longrightarrow> later s' s'' \<Longrightarrow> later s s''"
  unfolding later_def by blast

lemma confined_later: "confined E R x s s' \<Longrightarrow> later s s'"
  by (simp add: confined_def later_def)

text \<open>A successful deletion of a record that was not on its way out removes it.\<close>

lemma delete_row_removes:
  assumes "honest_engine E R" and "delete_row E k n x s = (Inr u, s')" and "x \<notin> cs_seen s"
  shows "x \<in> cs_db s \<and> x \<notin> cs_db s'"
proof (cases n)
  case (Suc m)
  let ?s = "s\<lparr>cs_seen := insert x (cs_seen s)\<rparr>"
  obtain v s1 where c: "cascade_delete E (delete_row E k m) k x ?s = (Inr v, s1)"
    and d: "delete_record E x s1 = (Inr u, s')"
    using assms(2,3) Suc by (auto split: sum.splits prod.splits)
  have "confined E R x ?s (snd (cascade_delete E (delete_row E k m) k x ?s))"
    by (cases "ce_cascading E (fst x)")
      (auto simp: cascade_delete_def intro!: cascade_all_confined [OF delete_row_confined [OF assms(1)] assms(1)])
  with c have "cs_db s1 \<subseteq> cs_db s" by (auto simp: confined_def)
  with d show ?thesis by (auto simp: delete_record_def split: option.splits if_splits)
qed (use assms(2) in simp)

lemma delete_children_total:
  assumes "\<And>c s'. c \<in> set cs \<Longrightarrow> later s s' \<Longrightarrow> fst (del (tbl, c) s') \<noteq> Inl DeleteFuel"
    and "\<And>c s'. later s' (snd (del (tbl, c) s'))"
    and "\<And>c s' u s''. del (tbl, c) s' = (Inr u, s'') \<Longrightarrow> (tbl, c) \<notin> cs_seen s' \<Longrightarrow> cs_db s'' \<subset> cs_db s'"
  shows "fst (delete_children del tbl cs d s) \<noteq> Inl DeleteFuel \<and>
    (\<forall>d' s'. delete_children del tbl cs d s = (Inr d', s') \<longrightarrow>
       d \<le> d' \<and> cs_db s' \<subseteq> cs_db s \<and> (d < d' \<longrightarrow> cs_db s' \<subset> cs_db s))"
  using assms
proof (induction del tbl cs d s rule: delete_children.induct)
  case (2 del tbl c cs d s)
  show ?case
  proof (cases "c = [] \<or> (tbl, c) \<in> cs_seen s")
    case True
    with 2 show ?thesis by auto
  next
    case False
    obtain res s1 where del: "del (tbl, c) s = (res, s1)" by (cases "del (tbl, c) s")
    have l: "later s s1" using 2(4) [of s c] del by simp
    show ?thesis
    proof (cases res)
      case (Inl e)
      with False del 2(3) [of c s] show ?thesis by simp
    next
      case (Inr u)
      have "cs_db s1 \<subset> cs_db s" using 2(5) [of c s u s1] del Inr False by simp
      moreover have "fst (delete_children del tbl cs (d + 1) s1) \<noteq> Inl DeleteFuel \<and>
        (\<forall>d' s'. delete_children del tbl cs (d + 1) s1 = (Inr d', s') \<longrightarrow>
           d + 1 \<le> d' \<and> cs_db s' \<subseteq> cs_db s1 \<and> (d + 1 < d' \<longrightarrow> cs_db s' \<subset> cs_db s1))"
        using 2(3-5) Inr l by (intro 2(2) [OF False del [symmetric]]) (auto intro: later_trans)
      ultimately show ?thesis using False del Inr by auto
    qed
  qed
qed simp

lemma page_loop_total:
  assumes "\<And>y s'. belongs E R x y \<Longrightarrow> x \<in> cs_db s \<Longrightarrow> later s s' \<Longrightarrow> fst (del y s') \<noteq> Inl DeleteFuel"
    and "\<And>y s'. later s' (snd (del y s'))"
    and "\<And>y s' u s''. del y s' = (Inr u, s'') \<Longrightarrow> y \<notin> cs_seen s' \<Longrightarrow> cs_db s'' \<subset> cs_db s'"
    and honest: "honest_engine E R" "ce_cascading E (fst x) = Inr rids" "rid \<in> set rids"
      "lookup_relationship (ce_catalog E) rid = Inr r"
    and "finite (cs_db s)" and "card (cs_db s) < k"
  shows "fst (page_loop E del x rid r k s) \<noteq> Inl DeleteFuel"
  using assms(1,8,9)
proof (induction k arbitrary: s)
  case (Suc k)
  show ?case
  proof (cases "children_page E (cs_db s) x rid r")
    case (Inr ids)
    let ?pass = "delete_children del (rs_table (rl_right r)) ids 0 s"
    have total: "fst ?pass \<noteq> Inl DeleteFuel \<and>
      (\<forall>d' s'. ?pass = (Inr d', s') \<longrightarrow> 0 \<le> d' \<and> cs_db s' \<subseteq> cs_db s \<and> (0 < d' \<longrightarrow> cs_db s' \<subset> cs_db s))"
    proof (rule delete_children_total)
      fix c s' assume "c \<in> set ids" "later s s'"
      moreover from this have "belongs E R x (rs_table (rl_right r), c)"
        using honest_page(2) [OF honest Inr] honest(2,3) unfolding belongs_def by blast
      ultimately show "fst (del (rs_table (rl_right r), c) s') \<noteq> Inl DeleteFuel"
        using honest_page(1) [OF honest Inr] Suc.prems(1) by blast
    qed (use assms(2,3) in blast)+
    obtain res s1 where pass: "?pass = (res, s1)" by (cases ?pass)
    show ?thesis
    proof (cases res)
      case (Inl e)
      with total pass Inr show ?thesis by auto
    next
      case res: (Inr d)
      show ?thesis
      proof (cases "d = 0")
        case True
        with pass Inr res show ?thesis by simp
      next
        case False
        have "later s (snd ?pass)"
          by (rule delete_children_closed [of later]) (auto intro: assms(2) later_trans)
        then have l: "later s s1" using pass by simp
        have "cs_db s1 \<subset> cs_db s" using total pass res False by auto
        then have "card (cs_db s1) < card (cs_db s)" using Suc.prems(2) by (rule psubset_card_mono [rotated])
        moreover have "finite (cs_db s1)" using \<open>cs_db s1 \<subset> cs_db s\<close> Suc.prems(2) finite_subset by blast
        ultimately have "fst (page_loop E del x rid r k s1) \<noteq> Inl DeleteFuel"
          using Suc.prems(1,3) \<open>cs_db s1 \<subset> cs_db s\<close> l by (intro Suc.IH) (auto intro: later_trans)
        with pass Inr res False show ?thesis by simp
      qed
    qed
  qed (simp split: if_splits)
qed simp

lemma page_loop_later:
  assumes "\<And>y s. later s (snd (del y s))"
  shows "later s (snd (page_loop E del x rid r k s))"
proof (induction k arbitrary: s)
  case (Suc k)
  show ?case
  proof (cases "children_page E (cs_db s) x rid r")
    case (Inr ids)
    obtain res s1 where pass: "delete_children del (rs_table (rl_right r)) ids 0 s = (res, s1)"
      by (cases "delete_children del (rs_table (rl_right r)) ids 0 s")
    have "later s (snd (delete_children del (rs_table (rl_right r)) ids 0 s))"
      by (rule delete_children_closed [of later]) (auto intro: assms later_trans)
    with pass Inr Suc [of s1] show ?thesis
      by (cases res) (auto intro: later_trans)
  qed simp
qed simp

lemma cascade_all_total:
  assumes "\<And>y s'. belongs E R x y \<Longrightarrow> x \<in> cs_db s \<Longrightarrow> later s s' \<Longrightarrow> fst (del y s') \<noteq> Inl DeleteFuel"
    and "\<And>y s'. later s' (snd (del y s'))"
    and "\<And>y s' u s''. del y s' = (Inr u, s'') \<Longrightarrow> y \<notin> cs_seen s' \<Longrightarrow> cs_db s'' \<subset> cs_db s'"
    and "honest_engine E R" and "ce_cascading E (fst x) = Inr rids"
    and "finite (cs_db s)" and "card (cs_db s) < k"
  shows "set rs \<subseteq> set rids \<Longrightarrow> fst (cascade_all E del k x rs s) \<noteq> Inl DeleteFuel"
  using assms(1,6,7)
proof (induction rs arbitrary: s)
  case (Cons rid rs)
  show ?case
  proof (cases "lookup_relationship (ce_catalog E) rid")
    case (Inr r)
    obtain res s1 where loop: "page_loop E del x rid r k s = (res, s1)"
      by (cases "page_loop E del x rid r k s")
    have total: "fst (page_loop E del x rid r k s) \<noteq> Inl DeleteFuel"
    proof (rule page_loop_total)
      show "rid \<in> set rids" using Cons.prems(1) by simp
    qed (use Cons.prems assms(2-5) Inr in blast)+
    have l: "later s s1" using page_loop_later [of del, OF assms(2)] loop by (metis snd_conv)
    then have db: "cs_db s1 \<subseteq> cs_db s" by (simp add: later_def)
    then have "finite (cs_db s1)" "card (cs_db s1) < k"
      using Cons.prems(3,4) finite_subset card_mono [OF Cons.prems(3) db] by auto
    then have "fst (cascade_all E del k x rs s1) \<noteq> Inl DeleteFuel"
      using Cons.prems(1,2) db l by (intro Cons.IH) (auto intro: later_trans)
    with loop Inr total show ?thesis by (cases res) auto
  qed simp
qed simp

text \<open>Fuel of one more than the records, for the pages, and than the records not yet seen, for the depth.\<close>

lemma delete_row_total:
  assumes "honest_engine E R"
  shows "finite (cs_db s) \<Longrightarrow> card (cs_db s) < k \<Longrightarrow> card (cs_db s - cs_seen s) < n \<Longrightarrow>
    fst (delete_row E k n x s) \<noteq> Inl DeleteFuel"
proof (induction n arbitrary: x s)
  case (Suc n)
  let ?s = "s\<lparr>cs_seen := insert x (cs_seen s)\<rparr>"
  have removal: "cs_db s'' \<subset> cs_db s'" if "delete_row E k n y s' = (Inr u, s'')" "y \<notin> cs_seen s'" for y s' u s''
    using delete_row_removes [OF assms that] delete_row_confined [OF assms, of y s' k n] that
    by (auto simp: confined_def)
  have shrinks: "later s' (snd (delete_row E k n y s'))" for y s'
    by (rule confined_later [OF delete_row_confined [OF assms]])
  have depth: "fst (delete_row E k n y s') \<noteq> Inl DeleteFuel"
    if "x \<in> cs_db ?s" "later ?s s'" "x \<notin> cs_seen s" for y s'
  proof (rule Suc.IH)
    have db: "cs_db s' \<subseteq> cs_db s" "insert x (cs_seen s) \<subseteq> cs_seen s'" using that by (auto simp: later_def)
    then show "finite (cs_db s')" "card (cs_db s') < k"
      using Suc.prems(1,2) finite_subset card_mono [OF Suc.prems(1) db(1)] by auto
    have "cs_db s' - cs_seen s' \<subset> cs_db s - cs_seen s" using db that by auto
    from psubset_card_mono [OF finite_Diff [OF Suc.prems(1)] this]
    show "card (cs_db s' - cs_seen s') < n" using Suc.prems(3) by linarith
  qed
  show ?case
  proof (cases "x \<in> cs_seen s")
    case False
    have "fst (cascade_delete E (delete_row E k n) k x ?s) \<noteq> Inl DeleteFuel"
    proof (cases "ce_cascading E (fst x)")
      case (Inr rids)
      have "fst (cascade_all E (delete_row E k n) k x rids ?s) \<noteq> Inl DeleteFuel"
      proof (rule cascade_all_total [OF _ shrinks removal assms Inr])
        show "fst (delete_row E k n y s') \<noteq> Inl DeleteFuel" if "x \<in> cs_db ?s" "later ?s s'" for y s'
          using depth [OF that False] .
      qed (use Suc.prems(1,2) in simp_all)
      with Inr show ?thesis by (simp add: cascade_delete_def)
    qed (simp add: cascade_delete_def)
    moreover have "fst (delete_record E x s1) \<noteq> Inl DeleteFuel" for s1
      by (simp add: delete_record_def split: option.split)
    ultimately show ?thesis
      using False by (cases "cascade_delete E (delete_row E k n) k x ?s") (auto split: sum.split)
  qed (simp split: sum.split)
qed simp

section \<open>Nothing that belongs to a removed record stays\<close>

text \<open>
  What a successful deletion does: the records on their way out that are still there are the same as
  before; everything removed is newly seen; what belongs to a newly seen record is gone, or was on its
  way out before.
\<close>

definition swept :: "cascade_env \<Rightarrow> (string \<Rightarrow> record_id \<Rightarrow> record_id \<Rightarrow> bool) \<Rightarrow> cascade \<Rightarrow> cascade \<Rightarrow> bool"
  where
  "swept E R s s' \<longleftrightarrow>
     later s s' \<and> cs_seen s' \<inter> cs_db s' = cs_seen s \<inter> cs_db s \<and> cs_db s - cs_db s' \<subseteq> cs_seen s' - cs_seen s \<and>
     (\<forall>x \<in> cs_seen s' - cs_seen s. \<forall>y \<in> cs_db s'. belongs E R x y \<longrightarrow> y \<in> cs_seen s)"

lemma swept_refl [simp]: "swept E R s s"
  by (simp add: swept_def)

lemma swept_trans: "swept E R s s' \<Longrightarrow> swept E R s' s'' \<Longrightarrow> swept E R s s''"
proof -
  assume a: "swept E R s s'" and b: "swept E R s' s''"
  have "y \<in> cs_seen s" if "x \<in> cs_seen s'' - cs_seen s" "y \<in> cs_db s''" "belongs E R x y" for x y
  proof (cases "x \<in> cs_seen s'")
    case True
    then show ?thesis using a b that unfolding swept_def later_def by blast
  next
    case False
    then have "y \<in> cs_seen s' \<inter> cs_db s'" using b that unfolding swept_def later_def by blast
    then show ?thesis using a unfolding swept_def by blast
  qed
  moreover have "later s s''" using a b later_trans unfolding swept_def by blast
  moreover have "cs_db s - cs_db s'' \<subseteq> cs_seen s'' - cs_seen s"
    using a b unfolding swept_def later_def by blast
  moreover have "cs_seen s'' \<inter> cs_db s'' = cs_seen s \<inter> cs_db s"
    using a b unfolding swept_def by (metis (no_types))
  ultimately show "swept E R s s''" unfolding swept_def by blast
qed

text \<open>The records on their way out are those the one in hand belongs to.\<close>

definition on_stack :: "cascade_env \<Rightarrow> (string \<Rightarrow> record_id \<Rightarrow> record_id \<Rightarrow> bool) \<Rightarrow> record_id \<Rightarrow> cascade \<Rightarrow> bool"
  where
  "on_stack E R x s \<longleftrightarrow> (\<forall>a \<in> cs_seen s \<inter> cs_db s. reaches E R a x)"

lemma on_stack_swept: "on_stack E R x s \<Longrightarrow> swept E R s s' \<Longrightarrow> on_stack E R x s'"
  by (simp add: on_stack_def swept_def)

lemma on_stack_child: "on_stack E R x s \<Longrightarrow> belongs E R x y \<Longrightarrow> on_stack E R y s"
  unfolding on_stack_def by (meson rtranclp.rtrancl_into_rtrancl)

text \<open>A record has fewer records that it both belongs to and has belonging to it than a page holds.\<close>

definition few_rings :: "cascade_env \<Rightarrow> (string \<Rightarrow> record_id \<Rightarrow> record_id \<Rightarrow> bool) \<Rightarrow> record_id set \<Rightarrow> bool" where
  "few_rings E R db \<longleftrightarrow> (\<forall>x. card {a \<in> db. belongs E R x a \<and> reaches E R a x} < 1000)"

lemma delete_children_swept:
  assumes "\<And>c s' u s''. c \<in> set cs \<Longrightarrow> later s s' \<Longrightarrow> on_stack E R (tbl, c) s' \<Longrightarrow> (tbl, c) \<notin> cs_seen s' \<Longrightarrow>
      del (tbl, c) s' = (Inr u, s'') \<Longrightarrow> swept E R s' s''"
    and "\<And>c. c \<in> set cs \<Longrightarrow> on_stack E R (tbl, c) s"
    and "delete_children del tbl cs d s = (Inr d', s')"
  shows "swept E R s s' \<and> d \<le> d' \<and> (d' = d \<longrightarrow> s' = s \<and> (\<forall>c \<in> set cs. c = [] \<or> (tbl, c) \<in> cs_seen s))"
  using assms
proof (induction del tbl cs d s rule: delete_children.induct)
  case (2 del tbl c cs d s)
  show ?case
  proof (cases "c = [] \<or> (tbl, c) \<in> cs_seen s")
    case True
    then have "swept E R s s' \<and> d \<le> d' \<and> (d' = d \<longrightarrow> s' = s \<and> (\<forall>c \<in> set cs. c = [] \<or> (tbl, c) \<in> cs_seen s))"
      using 2(4,5) by (intro 2(1) 2(3)) auto
    with True show ?thesis by auto
  next
    case False
    with 2(5) obtain u s1 where del: "del (tbl, c) s = (Inr u, s1)"
      and rest: "delete_children del tbl cs (d + 1) s1 = (Inr d', s')"
      by (auto split: sum.splits prod.splits)
    have first: "swept E R s s1" using 2(3) [OF _ later_refl 2(4) _ del] False by simp
    then have "later s s1" by (simp add: swept_def)
    then have "swept E R s1 s' \<and> d + 1 \<le> d' \<and> (d' = d + 1 \<longrightarrow> s' = s1 \<and> (\<forall>c \<in> set cs. c = [] \<or> (tbl, c) \<in> cs_seen s1))"
    proof (intro 2(2) [OF False del [symmetric] refl _ _ rest])
      fix e s2 v s3
      assume "e \<in> set cs" "later s1 s2" "on_stack E R (tbl, e) s2" "(tbl, e) \<notin> cs_seen s2"
        "del (tbl, e) s2 = (Inr v, s3)"
      with \<open>later s s1\<close> show "swept E R s2 s3" by (intro 2(3)) (auto intro: later_trans)
    qed (use 2(4) in \<open>auto intro: on_stack_swept [OF _ first]\<close>)
    with first show ?thesis by (auto intro: swept_trans)
  qed
qed simp

text \<open>A page whose records are all on their way out is not full, so it was the whole set.\<close>

lemma exhausted_page:
  assumes honest: "honest_engine E R" "ce_cascading E (fst x) = Inr rids" "rid \<in> set rids"
      "lookup_relationship (ce_catalog E) rid = Inr r"
    and page: "children_page E (cs_db s) x rid r = Inr ids"
    and seen: "\<forall>c \<in> set ids. c = [] \<or> (rs_table (rl_right r), c) \<in> cs_seen s"
    and stack: "on_stack E R x s" and rings: "few_rings E R db0" and db: "cs_db s \<subseteq> db0" "finite db0"
      "\<forall>t. (t, []) \<notin> db0"
    and y: "y \<in> cs_db s" "related_by E R rid x y"
  shows "y \<in> cs_seen s"
proof -
  let ?T = "rs_table (rl_right r)"
  let ?ring = "{a \<in> db0. belongs E R x a \<and> reaches E R a x}"
  have "(?T, c) \<in> ?ring" if "c \<in> set ids" for c
  proof -
    from honest_page(2) [OF honest page that] have c: "(?T, c) \<in> cs_db s" "related_by E R rid x (?T, c)"
      by auto
    with db have "c \<noteq> []" by blast
    with seen that have "(?T, c) \<in> cs_seen s" by blast
    with c stack have "reaches E R (?T, c) x" by (simp add: on_stack_def)
    with c db honest(2,3) show ?thesis by (auto simp: belongs_def)
  qed
  then have "(\<lambda>c. (?T, c)) ` set ids \<subseteq> ?ring" by auto
  then have "card ((\<lambda>c. (?T, c)) ` set ids) \<le> card ?ring"
    using db(2) by (intro card_mono) auto
  moreover have "card ((\<lambda>c. (?T, c)) ` set ids) = card (set ids)"
    by (intro card_image) (auto simp: inj_on_def)
  moreover have "card ?ring < 1000" using rings unfolding few_rings_def by blast
  ultimately have "snd y \<in> set ids" using honest_page(3) [OF honest page _ y] by linarith
  moreover have "fst y = ?T" using y(2) honest(4) by (auto simp: related_by_def)
  moreover have "snd y \<noteq> []" using y(1) db by (metis prod.collapse subsetD)
  ultimately show ?thesis using seen by (metis prod.collapse)
qed

lemma page_loop_swept:
  assumes "\<And>y s' u s''. belongs E R x y \<Longrightarrow> later s s' \<Longrightarrow> on_stack E R y s' \<Longrightarrow> y \<notin> cs_seen s' \<Longrightarrow>
      del y s' = (Inr u, s'') \<Longrightarrow> swept E R s' s''"
    and honest: "honest_engine E R" "ce_cascading E (fst x) = Inr rids" "rid \<in> set rids"
      "lookup_relationship (ce_catalog E) rid = Inr r"
    and rings: "few_rings E R db0" "finite db0" "\<forall>t. (t, []) \<notin> db0"
    and "on_stack E R x s" and "cs_db s \<subseteq> db0"
    and "page_loop E del x rid r k s = (Inr u, s')"
  shows "swept E R s s' \<and> (\<forall>y \<in> cs_db s'. related_by E R rid x y \<longrightarrow> y \<in> cs_seen s)"
  using assms(1,9-11)
proof (induction k arbitrary: s)
  case (Suc k)
  show ?case
  proof (cases "children_page E (cs_db s) x rid r")
    case (Inl e)
    then have "children_lost e" "s' = s" using Suc.prems(4) by (auto split: if_splits)
    then show ?thesis using honest_lost [OF honest Inl] by auto
  next
    case (Inr ids)
    let ?T = "rs_table (rl_right r)"
    from Suc.prems(4) Inr obtain d s1 where pass: "delete_children del ?T ids 0 s = (Inr d, s1)"
      and rest: "if d = 0 then s' = s1 else page_loop E del x rid r k s1 = (Inr u, s')"
      by (auto split: sum.splits prod.splits if_splits)
    have child: "belongs E R x (?T, c)" if "c \<in> set ids" for c
      using honest_page(2) [OF honest Inr that] honest(2,3) unfolding belongs_def by blast
    have "swept E R s s1 \<and> 0 \<le> d \<and> (d = 0 \<longrightarrow> s1 = s \<and> (\<forall>c \<in> set ids. c = [] \<or> (?T, c) \<in> cs_seen s))"
    proof (rule delete_children_swept [OF _ _ pass])
      fix c s' v s''
      assume "c \<in> set ids" "later s s'" "on_stack E R (?T, c) s'" "(?T, c) \<notin> cs_seen s'"
        "del (?T, c) s' = (Inr v, s'')"
      then show "swept E R s' s''" using child Suc.prems(1) by blast
    qed (use child Suc.prems(2) on_stack_child in blast)
    then have swept: "swept E R s s1"
      and all: "d = 0 \<Longrightarrow> s1 = s \<and> (\<forall>c \<in> set ids. c = [] \<or> (?T, c) \<in> cs_seen s)" by auto
    show ?thesis
    proof (cases "d = 0")
      case True
      with all rest have "s' = s" "\<forall>c \<in> set ids. c = [] \<or> (?T, c) \<in> cs_seen s" by auto
      then show ?thesis
        using exhausted_page [OF honest Inr _ Suc.prems(2) rings(1) Suc.prems(3) rings(2,3)] by auto
    next
      case False
      have l: "later s s1" and same: "cs_seen s1 \<inter> cs_db s1 = cs_seen s \<inter> cs_db s"
        using swept by (auto simp: swept_def)
      have "swept E R s1 s' \<and> (\<forall>y \<in> cs_db s'. related_by E R rid x y \<longrightarrow> y \<in> cs_seen s1)"
      proof (rule Suc.IH)
        show "page_loop E del x rid r k s1 = (Inr u, s')" using rest False by simp
        show "cs_db s1 \<subseteq> db0" using l Suc.prems(3) by (auto simp: later_def)
        show "on_stack E R x s1" by (rule on_stack_swept [OF Suc.prems(2) swept])
      qed (use Suc.prems(1) l later_trans in blast)
      moreover have "cs_db s' \<subseteq> cs_db s1" using calculation by (auto simp: swept_def later_def)
      ultimately show ?thesis using swept same by (blast intro: swept_trans)
    qed
  qed
qed simp

lemma cascade_all_swept:
  assumes "\<And>y s' u s''. belongs E R x y \<Longrightarrow> later s s' \<Longrightarrow> on_stack E R y s' \<Longrightarrow> y \<notin> cs_seen s' \<Longrightarrow>
      del y s' = (Inr u, s'') \<Longrightarrow> swept E R s' s''"
    and honest: "honest_engine E R" "ce_cascading E (fst x) = Inr rids"
    and rings: "few_rings E R db0" "finite db0" "\<forall>t. (t, []) \<notin> db0"
    and "on_stack E R x s" and "cs_db s \<subseteq> db0" and "set rs \<subseteq> set rids"
    and "cascade_all E del k x rs s = (Inr u, s')"
  shows "swept E R s s' \<and> (\<forall>rid \<in> set rs. \<forall>y \<in> cs_db s'. related_by E R rid x y \<longrightarrow> y \<in> cs_seen s)"
  using assms(1,7-10)
proof (induction rs arbitrary: s)
  case (Cons rid rs)
  from Cons.prems(5) obtain r v s1 where r: "lookup_relationship (ce_catalog E) rid = Inr r"
    and loop: "page_loop E del x rid r k s = (Inr v, s1)" and rest: "cascade_all E del k x rs s1 = (Inr u, s')"
    by (auto split: sum.splits prod.splits)
  have rid: "rid \<in> set rids" using Cons.prems(4) by simp
  have first: "swept E R s s1 \<and> (\<forall>y \<in> cs_db s1. related_by E R rid x y \<longrightarrow> y \<in> cs_seen s)"
    by (rule page_loop_swept [OF Cons.prems(1) honest rid r rings Cons.prems(2,3) loop])
  then have l: "later s s1" and same: "cs_seen s1 \<inter> cs_db s1 = cs_seen s \<inter> cs_db s"
    by (auto simp: swept_def)
  have "swept E R s1 s' \<and> (\<forall>rid \<in> set rs. \<forall>y \<in> cs_db s'. related_by E R rid x y \<longrightarrow> y \<in> cs_seen s1)"
  proof (rule Cons.IH)
    show "cs_db s1 \<subseteq> db0" using l Cons.prems(3) by (auto simp: later_def)
    show "on_stack E R x s1" using on_stack_swept [OF Cons.prems(2)] first by blast
    show "set rs \<subseteq> set rids" using Cons.prems(4) by simp
  qed (use Cons.prems(1) l later_trans rest in blast)+
  moreover have "cs_db s' \<subseteq> cs_db s1" using calculation by (auto simp: swept_def later_def)
  ultimately show ?case using first same by (auto intro: swept_trans)
qed simp

lemma delete_row_swept:
  assumes "honest_engine E R" and rings: "few_rings E R db0" "finite db0" "\<forall>t. (t, []) \<notin> db0"
  shows "on_stack E R x s \<Longrightarrow> cs_db s \<subseteq> db0 \<Longrightarrow> x \<notin> cs_seen s \<Longrightarrow> delete_row E k n x s = (Inr u, s') \<Longrightarrow>
    swept E R s s'"
proof (induction n arbitrary: x s u s')
  case (Suc n)
  let ?s = "s\<lparr>cs_seen := insert x (cs_seen s)\<rparr>"
  obtain v s1 where c: "cascade_delete E (delete_row E k n) k x ?s = (Inr v, s1)"
    and d: "delete_record E x s1 = (Inr u, s')"
    using Suc.prems(3,4) by (auto split: sum.splits prod.splits)
  from c obtain rids where rids: "ce_cascading E (fst x) = Inr rids"
    and all: "cascade_all E (delete_row E k n) k x rids ?s = (Inr v, s1)"
    by (auto simp: cascade_delete_def split: sum.splits)
  have "swept E R ?s s1 \<and> (\<forall>rid \<in> set rids. \<forall>y \<in> cs_db s1. related_by E R rid x y \<longrightarrow> y \<in> cs_seen ?s)"
  proof (rule cascade_all_swept [OF _ assms(1) rids rings _ _ subset_refl all])
    show "swept E R s2 s3" if "later ?s s2" "on_stack E R y s2" "y \<notin> cs_seen s2" "delete_row E k n y s2 = (Inr w, s3)"
      for y s2 w s3
      using that Suc.prems(2) by (intro Suc.IH [OF that(2) _ that(3,4)]) (auto simp: later_def)
    show "on_stack E R x ?s" using Suc.prems(1) by (auto simp: on_stack_def)
    show "cs_db ?s \<subseteq> db0" using Suc.prems(2) by simp
  qed
  then have sw: "swept E R ?s s1"
    and own: "\<And>y. y \<in> cs_db s1 \<Longrightarrow> belongs E R x y \<Longrightarrow> y \<in> insert x (cs_seen s)"
    using rids by (auto simp: belongs_def)
  from d have s': "x \<in> cs_db s1" "cs_db s' = cs_db s1 - {x}" "cs_seen s' = cs_seen s1"
    by (auto simp: delete_record_def split: option.splits if_splits)
  have l: "cs_db s1 \<subseteq> cs_db s" "insert x (cs_seen s) \<subseteq> cs_seen s1"
    using sw by (auto simp: swept_def later_def)
  have same: "cs_seen s1 \<inter> cs_db s1 = insert x (cs_seen s) \<inter> cs_db s" using sw by (simp add: swept_def)
  have gone: "cs_db s - cs_db s1 \<subseteq> cs_seen s1 - insert x (cs_seen s)" using sw by (simp add: swept_def)
  have others: "\<And>z y. z \<in> cs_seen s1 - insert x (cs_seen s) \<Longrightarrow> y \<in> cs_db s1 \<Longrightarrow> belongs E R z y \<Longrightarrow> y \<in> insert x (cs_seen s)"
    using sw by (auto simp: swept_def)
  have "later s s'" using l s' by (auto simp: later_def)
  moreover have "cs_seen s' \<inter> cs_db s' = cs_seen s \<inter> cs_db s" using same s' Suc.prems(3) l by auto
  moreover have "cs_db s - cs_db s' \<subseteq> cs_seen s' - cs_seen s" using gone s' l Suc.prems(3) by auto
  moreover have "y \<in> cs_seen s" if "z \<in> cs_seen s' - cs_seen s" "y \<in> cs_db s'" "belongs E R z y" for z y
    using that own [of y] others [of z y] s' by (cases "z = x") auto
  ultimately show ?case unfolding swept_def by blast
qed simp

section \<open>Properties\<close>

text \<open>
  C11. Deleting a record always ends, also when relationships form rings, and whatever its outcome
  nothing is removed but the record and what belongs to it through relationships that cascade.
\<close>

theorem cascade_confined:
  assumes "honest_engine E R" and "finite db" and "delete_row_top E x db = (res, s')"
  shows "res \<noteq> Inl DeleteFuel \<and> cs_db s' \<subseteq> db \<and> (\<forall>y \<in> db - cs_db s'. reaches E R x y)"
proof -
  let ?s = "\<lparr>cs_db = db, cs_seen = {}\<rparr>"
  have "fst (delete_row_top E x db) \<noteq> Inl DeleteFuel"
    using assms(2) unfolding delete_row_top_def by (intro delete_row_total [OF assms(1)]) auto
  moreover have "confined E R x ?s (snd (delete_row_top E x db))"
    unfolding delete_row_top_def by (rule delete_row_confined [OF assms(1)])
  ultimately show ?thesis unfolding assms(3) confined_def by simp
qed

text \<open>
  C10. A deletion that succeeds removes the record and, with every record it removes, all that belongs
  to it: no orphan is left. This holds as long as no record has 1000 records that belong to it and
  that it belongs to, directly or indirectly; a page of only such records would end the loop early.
\<close>

theorem cascade_leaves_no_orphans:
  assumes "honest_engine E R" and "few_rings E R db" and "finite db" and "\<forall>t. (t, []) \<notin> db"
    and "delete_row_top E x db = (Inr u, s')"
  shows "x \<in> db \<and> x \<notin> cs_db s' \<and> (\<forall>z \<in> db - cs_db s'. \<forall>y \<in> cs_db s'. \<not> belongs E R z y)"
proof -
  let ?s = "\<lparr>cs_db = db, cs_seen = {}\<rparr>"
  note run = assms(5) [unfolded delete_row_top_def]
  have "x \<in> cs_db ?s \<and> x \<notin> cs_db s'" by (rule delete_row_removes [OF assms(1) run]) simp
  moreover have "swept E R ?s s'"
    by (rule delete_row_swept [OF assms(1-4) _ _ _ run]) (auto simp: on_stack_def)
  then have "cs_db ?s - cs_db s' \<subseteq> cs_seen s'"
    and "\<And>z y. z \<in> cs_seen s' \<Longrightarrow> y \<in> cs_db s' \<Longrightarrow> \<not> belongs E R z y"
    by (auto simp: swept_def)
  ultimately show ?thesis by auto
qed

text \<open>A company with two people that belong to it, and a third who does not.\<close>

definition demo_relationship :: relationship where
  "demo_relationship =
     \<lparr>rl_id = ''r'', rl_name = ''works for'', rl_operator = ''='',
      rl_left = \<lparr>rs_occurrence_id = ''o1'', rs_occurrence_name = ''company'', rs_table = ''company'', rs_column = ''id''\<rparr>,
      rl_right = \<lparr>rs_occurrence_id = ''o2'', rs_occurrence_name = ''person'', rs_table = ''person'', rs_column = ''firm''\<rparr>,
      rl_allow_creation = False, rl_cascade_delete = True, rl_sort_related = []\<rparr>"

definition demo_cascade :: cascade_env where
  "demo_cascade =
     \<lparr>ce_unicode = ascii_only, ce_unmarshal = (\<lambda>_. None),
      ce_catalog = \<lparr>cat_columns = (\<lambda>t. Inr [(''id'', FieldText, None), (''firm'', FieldText, None)]),
        cat_relationship = (\<lambda>rid. Inr (if rid = ''r'' then Some demo_relationship else None))\<rparr>,
      ce_dialect = postgres_dialect,
      ce_cascading = (\<lambda>t. Inr (if t = ''company'' then [''r''] else [])),
      ce_read = (\<lambda>db q i. if (''company'', i) \<in> db then Inr (KText i) else Inl (RecordNotFound i)),
      ce_answer = (\<lambda>db q key. Inr (filter (\<lambda>c. (''person'', c) \<in> db \<and> key = KText ''c1'') [''p1'', ''p2''])),
      ce_refuses = (\<lambda>x. None)\<rparr>"

definition demo_related :: "string \<Rightarrow> record_id \<Rightarrow> record_id \<Rightarrow> bool" where
  "demo_related rid x y \<longleftrightarrow>
     rid = ''r'' \<and> x = (''company'', ''c1'') \<and> y \<in> {(''person'', ''p1''), (''person'', ''p2'')}"

definition demo_records :: "record_id set" where
  "demo_records = {(''company'', ''c1''), (''person'', ''p1''), (''person'', ''p2''), (''person'', ''p3'')}"

lemma demo_cascade_fields:
  assumes "t = ''company'' \<or> t = ''person''"
  shows "table_fields ascii_only (\<lambda>_. None) (ce_catalog demo_cascade) t
     = Inr [(''firm'', FieldText), (''id'', FieldText)]"
proof -
  have "\<not> is_reserved_table_name ascii_only t"
    using assms by (auto simp: is_reserved_table_name_def identifier_normalized matches_identifier_def lower_letter_def
        identifier_char_def reserved_table_names_def reserved_table_prefixes_def Let_def)
  then show ?thesis by (simp add: table_fields_def demo_cascade_def storage_type_def)
qed

lemma demo_sql_operator: "sql_operator demo_relationship = Inr ''=''"
proof -
  have "trim_space ''='' = ''=''" by (rule trim_space_visible) (simp add: visible_def)+
  then show ?thesis by (simp add: sql_operator_def demo_relationship_def relational_operators_def)
qed

lemma demo_lookup: "lookup_relationship (ce_catalog demo_cascade) rid
    = (if rid = ''r'' then Inr demo_relationship else Inl (RelationshipNotFound rid))"
  by (simp add: lookup_relationship_def demo_cascade_def)

lemma demo_page:
  "children_page demo_cascade db (''company'', i) ''r'' demo_relationship =
   (if (''company'', i) \<in> db
    then Inr (filter (\<lambda>c. (''person'', c) \<in> db \<and> i = ''c1'') [''p1'', ''p2''])
    else Inl (RecordNotFound i))"
proof -
  have sides: "rel_sides demo_relationship ''company'' ''o2'' = Inr (rl_left demo_relationship, rl_right demo_relationship)"
    by (simp add: rel_sides_def demo_relationship_def)
  have right: "rs_occurrence_id (rl_right demo_relationship) = ''o2''"
    "rs_table (rl_right demo_relationship) = ''person''" "rs_column (rl_right demo_relationship) = ''firm''"
    "rs_table (rl_left demo_relationship) = ''company''" "rs_column (rl_left demo_relationship) = ''id''"
    by (simp_all add: demo_relationship_def)
  have order: "related_sort_order U demo_relationship (rl_right demo_relationship) fs page_options = []" for U fs
    by (simp add: related_sort_order_def sort_order_def page_options_def demo_relationship_def to_lower_def runes.simps)
  have key: "match_value ascii_only (\<lambda>_. None) (ce_catalog demo_cascade) D (ce_read demo_cascade db) ''company'' ''id'' i
      = (if (''company'', i) \<in> db then Inr (KText i) else Inl (RecordNotFound i))" for D
    by (simp add: match_value_def demo_cascade_fields check_field_def) (simp add: demo_cascade_def)
  have env: "ce_unicode demo_cascade = ascii_only" "ce_unmarshal demo_cascade = (\<lambda>_. None)"
    by (simp_all add: demo_cascade_def)
  have blank: "trim_space i = [] \<Longrightarrow> i \<noteq> ''c1''"
  proof -
    have "trim_space ''c1'' = ''c1''" by (rule trim_space_visible) (simp add: visible_def)+
    then show "trim_space i = [] \<Longrightarrow> i \<noteq> ''c1''" by auto
  qed
  show ?thesis
    unfolding children_page_def related_rows_def env demo_lookup right fst_conv snd_conv
    using blank
    by (auto simp: sides right demo_sql_operator demo_cascade_fields check_field_def key order order_by_clause_def)
      (auto simp: demo_cascade_def)
qed

lemma demo_honest: "honest_engine demo_cascade demo_related"
proof -
  have "case children_page demo_cascade db x rid r of
      Inl e \<Rightarrow> children_lost e \<longrightarrow> {c. (''person'', c) \<in> db \<and> demo_related rid x (''person'', c)} = {}
    | Inr ids \<Rightarrow> x \<in> db \<and> set ids \<subseteq> {c. (''person'', c) \<in> db \<and> demo_related rid x (''person'', c)} \<and>
        (card (set ids) < 1000 \<longrightarrow> set ids = {c. (''person'', c) \<in> db \<and> demo_related rid x (''person'', c)})"
    if "fst x = ''company''" "rid = ''r''" "r = demo_relationship" for db and x :: record_id and rid r
    using that by (cases x) (auto simp: demo_page demo_related_def)
  note case_page = this
  show ?thesis
    unfolding honest_engine_def Let_def
  proof (intro allI impI)
    fix db rids rid r and x :: record_id
    assume c: "ce_cascading demo_cascade (fst x) = Inr rids" "rid \<in> set rids"
      and r: "lookup_relationship (ce_catalog demo_cascade) rid = Inr r"
    from c have x: "fst x = ''company''" "rid = ''r''" by (auto simp: demo_cascade_def split: if_splits)
    with r have r': "r = demo_relationship" by (simp add: demo_lookup)
    have "rs_table (rl_right r) = ''person''" unfolding r' by (simp add: demo_relationship_def)
    then show "case children_page demo_cascade db x rid r of
        Inl e \<Rightarrow> children_lost e \<longrightarrow>
          {c. (rs_table (rl_right r), c) \<in> db \<and> demo_related rid x (rs_table (rl_right r), c)} = {}
      | Inr ids \<Rightarrow> x \<in> db \<and>
          set ids \<subseteq> {c. (rs_table (rl_right r), c) \<in> db \<and> demo_related rid x (rs_table (rl_right r), c)} \<and>
          (card (set ids) < 1000 \<longrightarrow>
            set ids = {c. (rs_table (rl_right r), c) \<in> db \<and> demo_related rid x (rs_table (rl_right r), c)})"
      using case_page [OF x r', of db] by (simp only:)
  qed
qed

lemma demo_belongs: "belongs demo_cascade demo_related x y \<longleftrightarrow>
    x = (''company'', ''c1'') \<and> y \<in> {(''person'', ''p1''), (''person'', ''p2'')}"
  by (auto simp: belongs_def related_by_def demo_lookup demo_related_def demo_relationship_def) 
     (auto simp: demo_cascade_def)

lemma demo_run:
  "delete_row_top demo_cascade (''company'', ''c1'') demo_records
   = (Inr (), \<lparr>cs_db = {(''person'', ''p3'')},
       cs_seen = {(''company'', ''c1''), (''person'', ''p1''), (''person'', ''p2'')}\<rparr>)"
proof -
  have env: "ce_unicode demo_cascade = ascii_only" "ce_unmarshal demo_cascade = (\<lambda>_. None)"
    "ce_refuses demo_cascade = (\<lambda>x. None)"
    "ce_cascading demo_cascade = (\<lambda>t. Inr (if t = ''company'' then [''r''] else []))"
    by (simp_all add: demo_cascade_def)
  have right: "rs_table (rl_right demo_relationship) = ''person''" by (simp add: demo_relationship_def)
  have card: "card demo_records = 4" by (simp add: demo_records_def)
  have person: "delete_row demo_cascade k (Suc n) (''person'', c) s =
     (if (''person'', c) \<in> cs_seen s then (Inr (), s)
      else if (''person'', c) \<notin> cs_db s
      then (Inl (Refused (RecordNotFound c)), s\<lparr>cs_seen := insert (''person'', c) (cs_seen s)\<rparr>)
      else (Inr (), \<lparr>cs_db = cs_db s - {(''person'', c)}, cs_seen = insert (''person'', c) (cs_seen s)\<rparr>))" for k n c s
    by (cases s) (simp add: env demo_cascade_fields cascade_delete_def delete_record_def)
  show ?thesis
    unfolding delete_row_top_def card delete_row.simps(2) [of demo_cascade _ _ "(''company'', ''c1'')"]
    by (simp add: env demo_cascade_fields cascade_delete_def demo_lookup numeral_eq_Suc demo_page right
       demo_records_def person delete_record_def del: delete_row.simps(2)) blast
qed

theorem cascade_confined_witness:
  "cs_db (snd (delete_row_top demo_cascade (''company'', ''c1'') demo_records)) \<subseteq> demo_records"
proof -
  have "finite demo_records" by (simp add: demo_records_def)
  from cascade_confined [OF demo_honest this demo_run] show ?thesis by (simp add: demo_run)
qed

theorem cascade_leaves_no_orphans_witness:
  "(''company'', ''c1'') \<in> demo_records \<and>
   \<not> belongs demo_cascade demo_related (''person'', ''p1'') (''person'', ''p3'')"
proof -
  have "{a \<in> demo_records. belongs demo_cascade demo_related x a \<and> reaches demo_cascade demo_related a x} = {}" for x
    by (auto simp: demo_belongs elim: converse_rtranclpE)
  then have "few_rings demo_cascade demo_related demo_records"
    unfolding few_rings_def by (simp only: card.empty) simp
  moreover have "finite demo_records" "\<forall>t. (t, []) \<notin> demo_records" by (simp_all add: demo_records_def)
  ultimately have "(''company'', ''c1'') \<in> demo_records \<and>
      (\<forall>z \<in> demo_records - {(''person'', ''p3'')}. \<forall>y \<in> {(''person'', ''p3'')}. \<not> belongs demo_cascade demo_related z y)"
    using cascade_leaves_no_orphans [OF demo_honest _ _ _ demo_run] by simp
  moreover have "(''person'', ''p1'') \<in> demo_records - {(''person'', ''p3'')}" by (simp add: demo_records_def)
  ultimately show ?thesis by blast
qed

end
