(* ===== verification/Validation.thy ===== *)
theory Validation
  imports Data_Calculations
begin

text \<open>
  \<open>server/internal/validation/validation.go\<close>: the validation rules of the fields of a table and the
  check of a record against them. \<open>json.Unmarshal\<close> of the stored rules, the hexadecimal SHA-256 prefix
  in the name of a unique index and the database's answer to the \<open>COUNT\<close> query are arguments. The map
  of a checker's fields is an association list, in the order the loop happens to visit them.

  The specification is \<open>satisfies\<close>: what the comment at the head of the file promises of every rule.
\<close>

section \<open>Rules\<close>

record rules =
  ru_not_empty :: bool
  ru_timing :: string
  ru_unique :: bool
  ru_existing :: bool
  ru_strict_enabled :: bool
  ru_strict :: string
  ru_range_enabled :: bool
  ru_min :: string
  ru_max :: string
  ru_length_enabled :: bool
  ru_length :: "int option"
  ru_custom_enabled :: bool
  ru_custom :: string

definition no_rules :: rules where
  "no_rules =
     \<lparr>ru_not_empty = False, ru_timing = [], ru_unique = False, ru_existing = False,
      ru_strict_enabled = False, ru_strict = [], ru_range_enabled = False, ru_min = [], ru_max = [],
      ru_length_enabled = False, ru_length = None, ru_custom_enabled = False, ru_custom = []\<rparr>"

datatype rules_error = NotAnObject | NegativeLength | UnknownStrictType string

definition known_strict_type :: "string \<Rightarrow> bool" where
  "known_strict_type t \<longleftrightarrow>
     t \<in> {''Numeric Only'', ''Date'', ''4-Digit Year'', ''Time of Day'', ''Text Only''}"

definition parse_rules :: "(string \<Rightarrow> rules option) \<Rightarrow> string option \<Rightarrow> rules_error + rules option" where
  "parse_rules um raw =
     (case raw of
        None \<Rightarrow> Inr None
      | Some s \<Rightarrow>
          if trim_space s = [] \<or> trim_space s = ''null'' then Inr None
          else case um s of
                 None \<Rightarrow> Inl NotAnObject
               | Some r \<Rightarrow>
                   if ru_length_enabled r \<and> (case ru_length r of None \<Rightarrow> True | Some n \<Rightarrow> n < 0)
                   then Inl NegativeLength
                   else if ru_strict_enabled r \<and> \<not> known_strict_type (ru_strict r)
                   then Inl (UnknownStrictType (ru_strict r))
                   else Inr (Some r))"

definition applies_to :: "rules \<Rightarrow> bool \<Rightarrow> bool" where
  "applies_to r data_entry \<longleftrightarrow> data_entry \<or> ru_timing r = [] \<or> ru_timing r = ''always''"

section \<open>Values\<close>

fun value_text :: "calc_env \<Rightarrow> stored \<Rightarrow> string \<times> bool" where
  "value_text E SNil = ([], True)"
| "value_text E (SString s) = (s, trim_space s = [])"
| "value_text E (SBytes s) = (s, s = [])"
| "value_text E (STime t) = (env_time_format E rfc3339 t, False)"
| "value_text E (SFloat64 x) = (env_format_float E x, False)"
| "value_text E (SFloat32 x) = (env_sprint_float32 E x, False)"
| "value_text E (SBool b) = (if b then ''true'' else ''false'', False)"
| "value_text E (SInt i) = (show_int i, False)"
| "value_text E (SInt32 i) = (show_int i, False)"
| "value_text E (SInt64 i) = (show_int i, False)"
| "value_text E (SOther s) = (s, False)"

definition all_digits :: "string \<Rightarrow> bool" where
  "all_digits s \<longleftrightarrow> list_all ascii_digit s"

text \<open>\<open>^\d{4}-\d{2}-\d{2}\<close> matches at the start of the text.\<close>

definition iso_date :: "string \<Rightarrow> bool" where
  "iso_date s \<longleftrightarrow>
     10 \<le> length s \<and> all_digits (take 4 s) \<and> s ! 4 = CHR ''-'' \<and> all_digits (take 2 (drop 5 s)) \<and>
     s ! 7 = CHR ''-'' \<and> all_digits (take 2 (drop 8 s))"

text \<open>\<open>^([01]\d|2[0-3]):[0-5]\d(:[0-5]\d(\.\d+)?)?$\<close>.\<close>

definition sixty :: "string \<Rightarrow> bool" where
  "sixty s \<longleftrightarrow> (case s of [a, b] \<Rightarrow> ascii_digit a \<and> byte_val a \<le> (53::nat) \<and> ascii_digit b | _ \<Rightarrow> False)"

definition hour_text :: "string \<Rightarrow> bool" where
  "hour_text s \<longleftrightarrow>
     (case s of
        [a, b] \<Rightarrow> (a = CHR ''0'' \<or> a = CHR ''1'') \<and> ascii_digit b
          \<or> a = CHR ''2'' \<and> ascii_digit b \<and> byte_val b \<le> (51::nat)
      | _ \<Rightarrow> False)"

definition time_of_day :: "string \<Rightarrow> bool" where
  "time_of_day s \<longleftrightarrow>
     hour_text (take 2 s) \<and> take 1 (drop 2 s) = '':'' \<and> sixty (take 2 (drop 3 s)) \<and>
     (let rest = drop 5 s
      in rest = [] \<or> take 1 rest = '':'' \<and> sixty (take 2 (drop 1 rest)) \<and>
         (let frac = drop 3 rest in frac = [] \<or> hd frac = CHR ''.'' \<and> tl frac \<noteq> [] \<and> all_digits (tl frac)))"

definition matches_strict_type :: "calc_env \<Rightarrow> string \<Rightarrow> string \<Rightarrow> bool" where
  "matches_strict_type E kind txt =
     (let t = trim_space txt
      in if kind = ''Numeric Only'' then env_parse_float E t \<noteq> None
         else if kind = ''Date'' \<or> kind = ''4-Digit Year''
         then iso_date t \<and> env_time_parse E date_layout (take 10 t) \<noteq> None
         else if kind = ''Time of Day'' then time_of_day t
         else if kind = ''Text Only'' then env_parse_float E t = None
         else True)"

definition strict_type_description :: "string \<Rightarrow> string" where
  "strict_type_description kind =
     (if kind = ''Numeric Only'' then ''a number''
      else if kind = ''Date'' then ''a date (YYYY-MM-DD)''
      else if kind = ''4-Digit Year'' then ''a date with a 4-digit year (YYYY-MM-DD)''
      else if kind = ''Time of Day'' then ''a time of day (HH:MM or HH:MM:SS)''
      else if kind = ''Text Only'' then ''text, not a number''
      else kind)"

definition compare_bound :: "calc_env \<Rightarrow> string \<Rightarrow> string \<Rightarrow> int" where
  "compare_bound E v bound =
     (case (env_parse_float E (trim_space v), env_parse_float E (trim_space bound)) of
        (Some a, Some b) \<Rightarrow> if f_lt a b then - 1 else if f_lt b a then 1 else 0
      | _ \<Rightarrow> str_compare (trim_space v) (trim_space bound))"

section \<open>The check\<close>

record validation_error =
  ve_table :: string
  ve_field :: string
  ve_rule :: string
  ve_message :: string

datatype check_fail = Broken validation_error | LookupFailed string string

record vfield =
  vf_name :: string
  vf_type :: field_type
  vf_rules :: "rules option"

record checker =
  ck_dialect :: dialect
  ck_count :: "string \<Rightarrow> stored \<Rightarrow> string \<Rightarrow> int option"
  ck_table :: string
  ck_fields :: "(string \<times> vfield) list"

definition has_rules :: "checker \<Rightarrow> bool" where
  "has_rules c \<longleftrightarrow> list_ex (\<lambda>(n, f). vf_rules f \<noteq> None) (ck_fields c)"

definition check_error :: "string \<Rightarrow> vfield \<Rightarrow> rules \<Rightarrow> string \<Rightarrow> string \<Rightarrow> validation_error" where
  "check_error tbl f r rule message =
     \<lparr>ve_table = tbl, ve_field = vf_name f, ve_rule = rule,
      ve_message = (if ru_custom_enabled r \<and> trim_space (ru_custom r) \<noteq> [] then ru_custom r else message)\<rparr>"

definition count_others_query :: "checker \<Rightarrow> string \<Rightarrow> string" where
  "count_others_query c field =
     (let D = ck_dialect c
      in ''SELECT COUNT(*) FROM '' @ d_quote D (ck_table c) @ '' WHERE '' @ d_quote D field @ '' = ''
           @ d_placeholder D 1 @ '' AND '' @ d_quote D ''id'' @ '' <> '' @ d_placeholder D 2)"

definition count_others :: "checker \<Rightarrow> string \<Rightarrow> stored \<Rightarrow> string \<Rightarrow> check_fail + int" where
  "count_others c field v record_id =
     (case ck_count c (count_others_query c field) v record_id of
        None \<Rightarrow> Inl (LookupFailed (ck_table c) field)
      | Some n \<Rightarrow> Inr n)"

definition check_value :: "calc_env \<Rightarrow> checker \<Rightarrow> string \<Rightarrow> vfield \<Rightarrow> rules \<Rightarrow> stored \<Rightarrow> check_fail + unit" where
  "check_value E c record_id f r v =
     (let failed = (\<lambda>rule message. Inl (Broken (check_error (ck_table c) f r rule message)));
          txt = fst (value_text E v)
      in if snd (value_text E v)
         then (if ru_not_empty r then failed ''not_empty'' (vf_name f @ '' requires a value'') else Inr ())
         else if ru_strict_enabled r \<and> \<not> matches_strict_type E (ru_strict r) txt
         then failed ''strict_type'' (vf_name f @ '' must be '' @ strict_type_description (ru_strict r))
         else if ru_length_enabled r
           \<and> (case ru_length r of None \<Rightarrow> False | Some n \<Rightarrow> n < int (length (runes txt)))
         then failed ''max_length''
                (vf_name f @ '' accepts at most '' @ show_int (the (ru_length r)) @ '' characters'')
         else if ru_range_enabled r \<and> trim_space (ru_min r) \<noteq> [] \<and> compare_bound E txt (ru_min r) < 0
         then failed ''range'' (vf_name f @ '' must be at least '' @ ru_min r)
         else if ru_range_enabled r \<and> trim_space (ru_max r) \<noteq> [] \<and> compare_bound E txt (ru_max r) > 0
         then failed ''range'' (vf_name f @ '' must be at most '' @ ru_max r)
         else if ru_unique r \<or> ru_existing r
         then bind_r (count_others c (vf_name f) v record_id) (\<lambda>others.
                if ru_unique r \<and> others > 0
                then failed ''unique'' (''another record already has this '' @ vf_name f)
                else if ru_existing r \<and> others = 0
                then failed ''existing_value'' (vf_name f @ '' must be a value another record already has'')
                else Inr ())
         else Inr ())"

text \<open>\<open>Check\<close>; \<open>chosen\<close> is the argument \<open>fields\<close>, a missing value reads as nil.\<close>

fun check_fields :: "calc_env \<Rightarrow> checker \<Rightarrow> string \<Rightarrow> crecord \<Rightarrow> (string \<Rightarrow> bool) option \<Rightarrow> bool
    \<Rightarrow> (string \<times> vfield) list \<Rightarrow> check_fail + unit" where
  "check_fields E c record_id R chosen data_entry [] = Inr ()"
| "check_fields E c record_id R chosen data_entry ((name, f) # fs) =
     (case vf_rules f of
        None \<Rightarrow> check_fields E c record_id R chosen data_entry fs
      | Some r \<Rightarrow>
          if \<not> applies_to r data_entry \<or> (case chosen of None \<Rightarrow> False | Some p \<Rightarrow> \<not> p name)
          then check_fields E c record_id R chosen data_entry fs
          else bind_r (check_value E c record_id f r (case R name of None \<Rightarrow> SNil | Some v \<Rightarrow> v))
                 (\<lambda>_. check_fields E c record_id R chosen data_entry fs))"

definition check_record :: "calc_env \<Rightarrow> checker \<Rightarrow> string \<Rightarrow> crecord \<Rightarrow> (string \<Rightarrow> bool) option \<Rightarrow> bool
    \<Rightarrow> check_fail + unit" where
  "check_record E c record_id R chosen data_entry =
     check_fields E c record_id R chosen data_entry (ck_fields c)"

section \<open>Loading the rules; unique indexes\<close>

text \<open>A row of the catalog: name, type and the text of the rules. Malformed rules enforce nothing.\<close>

definition load_field :: "(string \<Rightarrow> rules option) \<Rightarrow> string \<times> field_type \<times> string option \<Rightarrow> string \<times> vfield"
  where
  "load_field um row =
     (case row of (name, ft, raw) \<Rightarrow>
       (name, \<lparr>vf_name = name, vf_type = ft,
         vf_rules = (case raw of
                       None \<Rightarrow> None
                     | Some s \<Rightarrow> (case parse_rules um (Some s) of Inr r \<Rightarrow> r | Inl _ \<Rightarrow> None))\<rparr>))"

definition load_fields :: "(string \<Rightarrow> rules option) \<Rightarrow> (string \<times> field_type \<times> string option) list
    \<Rightarrow> (string \<times> vfield) list" where
  "load_fields um rows = map (load_field um) rows"

definition unique_index_name :: "(string \<Rightarrow> string) \<Rightarrow> string \<Rightarrow> string \<Rightarrow> string" where
  "unique_index_name digest tbl field = ''uq_f4b_'' @ digest (tbl @ [CHR 0x00] @ field)"

definition is_unique_index_violation :: "(string \<Rightarrow> string) \<Rightarrow> string \<Rightarrow> string \<Rightarrow> (string \<times> vfield) list
    \<Rightarrow> vfield option" where
  "is_unique_index_violation digest msg tbl fs =
     (if \<not> contains msg ''uq_f4b_'' then None
      else map_option snd (find (\<lambda>(name, f). contains msg (unique_index_name digest tbl name)) fs))"

definition unique_violation :: "string \<Rightarrow> vfield \<Rightarrow> validation_error" where
  "unique_violation tbl f =
     check_error tbl f (case vf_rules f of None \<Rightarrow> no_rules | Some r \<Rightarrow> r) ''unique''
       (''another record already has this '' @ vf_name f)"

section \<open>What the rules promise\<close>

definition satisfies :: "calc_env \<Rightarrow> (stored \<Rightarrow> int option) \<Rightarrow> rules \<Rightarrow> stored \<Rightarrow> bool" where
  "satisfies E others r v \<longleftrightarrow>
     (if snd (value_text E v) then \<not> ru_not_empty r
      else (ru_strict_enabled r \<longrightarrow> matches_strict_type E (ru_strict r) (fst (value_text E v))) \<and>
        (ru_length_enabled r \<longrightarrow> (\<forall>n. ru_length r = Some n \<longrightarrow> int (length (runes (fst (value_text E v)))) \<le> n)) \<and>
        (ru_range_enabled r \<longrightarrow>
           (trim_space (ru_min r) \<noteq> [] \<longrightarrow> 0 \<le> compare_bound E (fst (value_text E v)) (ru_min r)) \<and>
           (trim_space (ru_max r) \<noteq> [] \<longrightarrow> compare_bound E (fst (value_text E v)) (ru_max r) \<le> 0)) \<and>
        (ru_unique r \<longrightarrow> (\<exists>n. others v = Some n \<and> n \<le> 0)) \<and>
        (ru_existing r \<longrightarrow> (\<exists>n. others v = Some n \<and> n \<noteq> 0)))"

lemma check_value_iff:
  "check_value E c record_id f r v = Inr () \<longleftrightarrow>
   satisfies E (\<lambda>v. ck_count c (count_others_query c (vf_name f)) v record_id) r v"
proof (cases "snd (value_text E v)")
  case True
  then show ?thesis by (simp add: check_value_def satisfies_def)
next
  case False
  then show ?thesis
    by (cases "ck_count c (count_others_query c (vf_name f)) v record_id"; cases "ru_length r")
      (auto simp: check_value_def satisfies_def count_others_def Let_def)
qed

lemma check_fields_iff:
  "check_fields E c record_id R chosen data_entry fs = Inr () \<longleftrightarrow>
   (\<forall>(name, f) \<in> set fs. \<forall>r. vf_rules f = Some r \<longrightarrow> applies_to r data_entry \<longrightarrow>
      (\<forall>p. chosen = Some p \<longrightarrow> p name) \<longrightarrow>
      satisfies E (\<lambda>v. ck_count c (count_others_query c (vf_name f)) v record_id) r
        (case R name of None \<Rightarrow> SNil | Some v \<Rightarrow> v))"
proof (induction fs)
  case (Cons nf fs)
  obtain name f where nf: "nf = (name, f)" by (cases nf)
  show ?case
  proof (cases "vf_rules f")
    case None
    with Cons nf show ?thesis by simp
  next
    case (Some r)
    have guard: "(\<not> applies_to r data_entry \<or> (case chosen of None \<Rightarrow> False | Some p \<Rightarrow> \<not> p name)) \<longleftrightarrow>
        \<not> (applies_to r data_entry \<and> (\<forall>p. chosen = Some p \<longrightarrow> p name))"
      by (cases chosen) auto
    show ?thesis
      unfolding nf check_fields.simps Some option.case guard list.set ball_simps(7) prod.case
      using Cons by (cases "applies_to r data_entry \<and> (\<forall>p. chosen = Some p \<longrightarrow> p name)")
        (auto simp: bind_r_Inr_iff check_value_iff)
  qed
qed simp

text \<open>A number that is not a number lies within every range, since it is neither less nor greater.\<close>

lemma nan_in_every_range:
  assumes "env_parse_float E (trim_space v) = Some NaN" and "env_parse_float E (trim_space bound) = Some b"
  shows "compare_bound E v bound = 0"
  using assms by (simp add: compare_bound_def)

text \<open>A strict date may be followed by anything.\<close>

lemma strict_date_prefix:
  assumes "matches_strict_type E ''Date'' d" and "trim_space d = d" and "trim_space (d @ rest) = d @ rest"
    and "length d = 10"
  shows "matches_strict_type E ''Date'' (d @ rest)"
  using assms by (auto simp: matches_strict_type_def iso_date_def Let_def nth_append)

section \<open>Properties\<close>




end
