(* ===== verification/Go_Encoding.thy ===== *)
theory Go_Encoding
  imports Go_Prelude
begin

text \<open>
  The text encodings of bytes the server uses: \<open>encoding/hex\<close>, and the \<open>StdEncoding\<close> of
  \<open>encoding/base64\<close> and of \<open>encoding/base32\<close>.
\<close>

section \<open>Hexadecimal\<close>

definition hex_digit :: "nat \<Rightarrow> char" where
  "hex_digit n = (if n < 10 then char_of (48 + n) else char_of (87 + n))"

definition hex_encode :: "string \<Rightarrow> string" where
  "hex_encode s = concat (map (\<lambda>c. [hex_digit (byte_val c div 16), hex_digit (byte_val c mod 16)]) s)"

text \<open>\<open>hex.DecodeString\<close> succeeds on an even number of digits of either case.\<close>

definition is_hex_digit :: "char \<Rightarrow> bool" where
  "is_hex_digit c \<longleftrightarrow>
     (48 \<le> byte_val c \<and> byte_val c \<le> (57::nat)) \<or> (97 \<le> byte_val c \<and> byte_val c \<le> (102::nat)) \<or>
     (65 \<le> byte_val c \<and> byte_val c \<le> (70::nat))"

definition hex_decodes :: "string \<Rightarrow> bool" where
  "hex_decodes s \<longleftrightarrow> even (length s) \<and> list_all is_hex_digit s"

lemma hex_digit_facts: "n < 16 \<Longrightarrow> is_hex_digit (hex_digit n) \<and> (hex_digit n = CHR ''0'' \<longleftrightarrow> n = 0)"
proof -
  assume n: "n < 16"
  define k where "k = (if n < 10 then 48 + n else 87 + n)"
  have k: "hex_digit n = char_of k" "k < 256" using n by (simp_all add: hex_digit_def k_def)
  then have "byte_val (hex_digit n) = k" by simp
  moreover from this have "hex_digit n = CHR ''0'' \<longleftrightarrow> k = byte_val (CHR ''0'')"
    by (metis of_char_eq_iff)
  ultimately show ?thesis using n by (simp add: is_hex_digit_def k_def)
qed

lemma hex_encode_simps [simp]:
  "hex_encode [] = []"
  "hex_encode (c # s) = hex_digit (byte_val c div 16) # hex_digit (byte_val c mod 16) # hex_encode s"
  by (simp_all add: hex_encode_def)

lemma byte_val_lt: "byte_val c < 256"
  by simp

lemma length_hex_encode [simp]: "length (hex_encode s) = 2 * length s"
  by (induction s) simp_all

lemma hex_encode_digits: "list_all is_hex_digit (hex_encode s)"
proof (induction s)
  case (Cons c s)
  have "byte_val c div 16 < 16" "byte_val c mod 16 < 16" using byte_val_lt [of c] by linarith+
  with Cons show ?case by (simp add: hex_digit_facts)
qed simp

lemma hex_encode_zeros: "hex_encode s = replicate (2 * n) (CHR ''0'') \<Longrightarrow> s = replicate n (CHR 0x00)"
proof (induction s arbitrary: n)
  case (Cons c s)
  then obtain m where n: "n = Suc m" by (cases n) auto
  have b: "byte_val c div 16 < 16" "byte_val c mod 16 < 16" using byte_val_lt [of c] by linarith+
  have "byte_val c div 16 = 0" "byte_val c mod 16 = 0" and s: "hex_encode s = replicate (2 * m) (CHR ''0'')"
    using Cons.prems hex_digit_facts [OF b(1)] hex_digit_facts [OF b(2)] by (simp_all add: n)
  then have "byte_val c = 0" using div_mult_mod_eq [of "byte_val c" 16] by simp
  then have "byte_val c = byte_val (CHR 0x00)" by simp
  then have "c = CHR 0x00" by (simp only: of_char_eq_iff)
  then show ?case using Cons.IH [OF s] by (simp add: n)
qed simp

lemma hex_digit_inj: "m < 16 \<Longrightarrow> n < 16 \<Longrightarrow> hex_digit m = hex_digit n \<Longrightarrow> m = n"
proof -
  have "\<forall>m\<in>set [0..<16]. \<forall>n\<in>set [0..<16]. hex_digit m = hex_digit n \<longrightarrow> m = n" by code_simp
  then show "m < 16 \<Longrightarrow> n < 16 \<Longrightarrow> hex_digit m = hex_digit n \<Longrightarrow> m = n" by simp
qed

lemma hex_encode_inj: "hex_encode s = hex_encode t \<Longrightarrow> s = t"
proof (induction s arbitrary: t)
  case (Cons c s)
  then obtain d t' where t: "t = d # t'" by (cases t) auto
  have "byte_val c div 16 = byte_val d div 16" "byte_val c mod 16 = byte_val d mod 16"
    using Cons.prems byte_val_lt [of c] byte_val_lt [of d] by (auto simp: t less_mult_imp_div_less intro!: hex_digit_inj)
  then have "byte_val c = byte_val d" by (metis mult_div_mod_eq)
  then have "c = d" by simp
  then show ?case using Cons t by auto
qed (auto dest: arg_cong [where f = length])

section \<open>Base64\<close>

text \<open>The decoder skips line breaks and requires the padding.\<close>

definition std_alphabet :: string where
  "std_alphabet = ''ABCDEFGHIJKLMNOPQRSTUVWXYZabcdefghijklmnopqrstuvwxyz0123456789+/''"

definition std_digit :: "char \<Rightarrow> nat option" where
  "std_digit c = (let n = length (takeWhile (\<lambda>x. x \<noteq> c) std_alphabet) in if n < 64 then Some n else None)"

definition std_letter :: "nat \<Rightarrow> char" where
  "std_letter n = std_alphabet ! n"

abbreviation pad_char :: char where "pad_char \<equiv> CHR ''=''"

fun std_decode_quads :: "string \<Rightarrow> string option" where
  "std_decode_quads [] = Some []"
| "std_decode_quads (a # b # c # d # rest) =
     (case (std_digit a, std_digit b) of
        (Some i, Some j) \<Rightarrow>
          (case std_digit c of
             None \<Rightarrow>
               if c = pad_char \<and> d = pad_char \<and> rest = [] then Some [char_of (i * 4 + j div 16)] else None
           | Some k \<Rightarrow>
               (case std_digit d of
                  None \<Rightarrow>
                    if d = pad_char \<and> rest = []
                    then Some [char_of (i * 4 + j div 16), char_of (j mod 16 * 16 + k div 4)] else None
                | Some l \<Rightarrow>
                    map_option (\<lambda>bs. char_of (i * 4 + j div 16) # char_of (j mod 16 * 16 + k div 4)
                      # char_of (k mod 4 * 64 + l) # bs) (std_decode_quads rest)))
      | _ \<Rightarrow> None)"
| "std_decode_quads _ = None"

definition std_decode :: "string \<Rightarrow> string option" where
  "std_decode s = std_decode_quads (filter (\<lambda>c. c \<noteq> CHR 0x0A \<and> c \<noteq> CHR 0x0D) s)"

fun std_encode :: "string \<Rightarrow> string" where
  "std_encode [] = []"
| "std_encode [x] =
     [std_letter (byte_val x div 4), std_letter (byte_val x mod 4 * 16), pad_char, pad_char]"
| "std_encode [x, y] =
     [std_letter (byte_val x div 4), std_letter (byte_val x mod 4 * 16 + byte_val y div 16),
      std_letter (byte_val y mod 16 * 4), pad_char]"
| "std_encode (x # y # z # s) =
     std_letter (byte_val x div 4) # std_letter (byte_val x mod 4 * 16 + byte_val y div 16)
       # std_letter (byte_val y mod 16 * 4 + byte_val z div 64) # std_letter (byte_val z mod 64)
       # std_encode s"

section \<open>Decoding what was encoded\<close>

lemma std_digits:
  assumes "n < 64"
  shows "std_digit (std_letter n) = Some n" and "std_letter n \<notin> {CHR 0x0A, CHR 0x0D, pad_char}"
proof -
  have "list_all (\<lambda>n. std_digit (std_letter n) = Some n \<and> std_letter n \<notin> {CHR 0x0A, CHR 0x0D, pad_char}) [0 ..< 64]"
    by code_simp
  with assms show "std_digit (std_letter n) = Some n" "std_letter n \<notin> {CHR 0x0A, CHR 0x0D, pad_char}"
    by (auto simp: list_all_iff)
qed

lemma std_digit_pad: "std_digit pad_char = None"
  by code_simp

lemma byte_bound: "byte_val c < (256::nat)"
  by simp

lemma byte_small:
  "byte_val y div 16 div 16 = (0::nat)" "byte_val y div 16 mod 16 = (byte_val y div 16 :: nat)"
  "byte_val z div 64 div 4 = (0::nat)" "byte_val z div 64 mod 4 = (byte_val z div 64 :: nat)"
  using byte_bound [of y] byte_bound [of z] by (simp_all add: less_mult_imp_div_less)

lemma byte_parts:
  fixes x y z :: char
  shows "byte_val x div 4 < 64" "byte_val x mod 4 * 16 < (64::nat)"
    "byte_val x mod 4 * 16 + byte_val y div 16 < (64::nat)" "byte_val y mod 16 * 4 < (64::nat)"
    "byte_val y mod 16 * 4 + byte_val z div 64 < (64::nat)" "byte_val z mod 64 < (64::nat)"
proof -
  note b = byte_bound
  from b [of x] show "byte_val x div 4 < (64::nat)" by (simp add: less_mult_imp_div_less)
  have "byte_val x mod 4 < (4::nat)" "byte_val y mod 16 < (16::nat)" by simp_all
  moreover have "byte_val y div 16 < (16::nat)" "byte_val z div 64 < (4::nat)"
    using b [of y] b [of z] by (simp_all add: less_mult_imp_div_less)
  ultimately show "byte_val x mod 4 * 16 < (64::nat)" "byte_val x mod 4 * 16 + byte_val y div 16 < (64::nat)"
    "byte_val y mod 16 * 4 < (64::nat)" "byte_val y mod 16 * 4 + byte_val z div 64 < (64::nat)"
    by linarith+
qed simp

lemma std_encode_letters: "c \<in> set (std_encode bs) \<Longrightarrow> c \<noteq> CHR 0x0A \<and> c \<noteq> CHR 0x0D"
  by (induction bs rule: std_encode.induct) (use std_digits(2) byte_parts in \<open>auto\<close>)

lemma decode_quads_encode: "std_decode_quads (std_encode bs) = Some bs"
  by (induction bs rule: std_encode.induct)
    (simp_all add: std_digits(1) std_digit_pad byte_parts byte_small)

lemma std_decode_encode: "std_decode (std_encode bs) = Some bs"
proof -
  have "filter (\<lambda>c. c \<noteq> CHR 0x0A \<and> c \<noteq> CHR 0x0D) (std_encode bs) = std_encode bs"
    using std_encode_letters by (simp add: filter_id_conv)
  then show ?thesis by (simp add: std_decode_def decode_quads_encode)
qed

section \<open>Base32\<close>

text \<open>
  \<open>encoding/base32\<close>, \<open>StdEncoding.WithPadding(NoPadding)\<close>, on texts without the byte \<open>0xFF\<close>. A last
  quantum of one, three or six digits carries no bytes at all and is not an error.
\<close>

definition b32_alphabet :: string where
  "b32_alphabet = ''ABCDEFGHIJKLMNOPQRSTUVWXYZ234567''"

definition b32_digit :: "char \<Rightarrow> nat option" where
  "b32_digit c = (let n = length (takeWhile (\<lambda>x. x \<noteq> c) b32_alphabet) in if n < 32 then Some n else None)"

definition b32_letter :: "nat \<Rightarrow> char" where
  "b32_letter n = b32_alphabet ! n"

definition b32_quantum :: "nat list \<Rightarrow> string" where
  "b32_quantum ds =
     (let d = (\<lambda>i. ds ! i);
          bytes = [d 0 * 8 + d 1 div 4, d 1 * 64 + d 2 * 2 + d 3 div 16, d 3 * 16 + d 4 div 2,
                   d 4 * 128 + d 5 * 4 + d 6 div 8, d 6 * 32 + d 7];
          n = (if length ds = 8 then 5 else if length ds = 7 then 4 else if length ds = 5 then 3
               else if length ds = 4 then 2 else if length ds = 2 then 1 else 0)
      in map char_of (take n bytes))"

fun b32_bytes :: "nat list \<Rightarrow> string" where
  "b32_bytes (a # b # c # d # e # f # g # h # ds) = b32_quantum [a, b, c, d, e, f, g, h] @ b32_bytes ds"
| "b32_bytes ds = b32_quantum ds"

definition b32_decode :: "string \<Rightarrow> string option" where
  "b32_decode s = map_option b32_bytes (those (map b32_digit (filter (\<lambda>c. c \<noteq> CHR 0x0A \<and> c \<noteq> CHR 0x0D) s)))"

fun b32_digits :: "nat list \<Rightarrow> nat list" where
  "b32_digits [] = []"
| "b32_digits [p] = [p div 8, p mod 8 * 4]"
| "b32_digits [p, q] = [p div 8, p mod 8 * 4 + q div 64, q div 2 mod 32, q mod 2 * 16]"
| "b32_digits [p, q, r] =
     [p div 8, p mod 8 * 4 + q div 64, q div 2 mod 32, q mod 2 * 16 + r div 16, r mod 16 * 2]"
| "b32_digits [p, q, r, s] =
     [p div 8, p mod 8 * 4 + q div 64, q div 2 mod 32, q mod 2 * 16 + r div 16, r mod 16 * 2 + s div 128,
      s div 4 mod 32, s mod 4 * 8]"
| "b32_digits (p # q # r # s # t # bs) =
     [p div 8, p mod 8 * 4 + q div 64, q div 2 mod 32, q mod 2 * 16 + r div 16, r mod 16 * 2 + s div 128,
      s div 4 mod 32, s mod 4 * 8 + t div 32, t mod 32] @ b32_digits bs"

definition b32_encode :: "string \<Rightarrow> string" where
  "b32_encode s = map b32_letter (b32_digits (map of_char s))"

lemma b32_digit_letter:
  assumes "n < 32"
  shows "b32_digit (b32_letter n) = Some n" and "b32_letter n \<notin> {CHR 0x0A, CHR 0x0D, CHR '' '', CHR ''=''}"
    and "visible (b32_letter n)" and "\<not> (97 \<le> byte_val (b32_letter n) \<and> byte_val (b32_letter n) \<le> (122::nat))"
proof -
  have "list_all (\<lambda>n. b32_digit (b32_letter n) = Some n \<and>
      b32_letter n \<notin> {CHR 0x0A, CHR 0x0D, CHR '' '', CHR ''=''} \<and> visible (b32_letter n) \<and>
      \<not> (97 \<le> byte_val (b32_letter n) \<and> byte_val (b32_letter n) \<le> (122::nat))) [0 ..< 32]"
    by code_simp
  with assms show "b32_digit (b32_letter n) = Some n" "b32_letter n \<notin> {CHR 0x0A, CHR 0x0D, CHR '' '', CHR ''=''}"
      "visible (b32_letter n)" "\<not> (97 \<le> byte_val (b32_letter n) \<and> byte_val (b32_letter n) \<le> (122::nat))"
    by (simp_all add: list_all_iff)
qed

lemma digit_split:
  fixes a b m k :: nat
  assumes "a < k" and "b < m"
  shows "(a * m + b) div m = a" "(a * m + b) mod m = b" "a * m + b < k * m"
proof -
  show "(a * m + b) div m = a" "(a * m + b) mod m = b" using assms(2) by auto
  have "a * m + b < Suc a * m" using assms(2) by simp
  also have "\<dots> \<le> k * m" using assms(1) by (intro mult_le_mono1) simp
  finally show "a * m + b < k * m" .
qed

lemma b32_parts:
  fixes q :: nat
  assumes "q < 256"
  shows "q div 64 * 64 + q div 2 mod 32 * 2 + q mod 2 = q" "q div 128 * 128 + q div 4 mod 32 * 4 + q mod 4 = q"
    "q div 8 < 32" "q div 64 < 4" "q div 16 < 16" "q div 128 < 2" "q div 32 < 8"
proof -
  have "q div 64 = q div 2 div 32" "q div 128 = q div 4 div 32" by (simp_all add: div_mult2_eq [symmetric])
  then have "q div 64 * 32 + q div 2 mod 32 = q div 2" "q div 128 * 32 + q div 4 mod 32 = q div 4"
    by (metis div_mult_mod_eq)+
  moreover have "q div 2 * 2 + q mod 2 = q" "q div 4 * 4 + q mod 4 = q" by simp_all
  ultimately show "q div 64 * 64 + q div 2 mod 32 * 2 + q mod 2 = q"
    "q div 128 * 128 + q div 4 mod 32 * 4 + q mod 4 = q" by linarith+
  show "q div 8 < 32" "q div 64 < 4" "q div 16 < 16" "q div 128 < 2" "q div 32 < 8"
    using assms by (simp_all add: less_mult_imp_div_less)
qed

lemma char_mod: "x mod 256 = y \<Longrightarrow> (char_of x :: char) = char_of (y :: nat)"
  by (metis char_of_mod_256)

lemma b32_quantum_full:
  "b32_quantum [a, b, c, d, e, f, g, h] =
     [char_of (a * 8 + b div 4), char_of (b * 64 + c * 2 + d div 16), char_of (d * 16 + e div 2),
      char_of (e * 128 + f * 4 + g div 8), char_of (g * 32 + h)]"
  by (simp add: b32_quantum_def)

lemma b32_digits_full:
  "b32_digits [p, q, r, s, t] =
     [p div 8, p mod 8 * 4 + q div 64, q div 2 mod 32, q mod 2 * 16 + r div 16, r mod 16 * 2 + s div 128,
      s div 4 mod 32, s mod 4 * 8 + t div 32, t mod 32]"
  by simp

lemma b32_quantum_bytes:
  fixes p q r s t :: nat
  assumes "p < 256" "q < 256" "r < 256" "s < 256" "t < 256"
  shows "b32_quantum (b32_digits [p, q, r, s, t]) = map char_of [p, q, r, s, t]"
    and "\<forall>d\<in>set (b32_digits [p, q, r, s, t]). d < 32"
proof -
  note P = b32_parts [OF assms(1)] and Q = b32_parts [OF assms(2)] and R = b32_parts [OF assms(3)]
    and S = b32_parts [OF assms(4)] and T = b32_parts [OF assms(5)]
  have lt: "x mod 8 < 8" "x mod 2 < 2" "x mod 16 < 16" "x mod 4 < 4" for x :: nat by simp_all
  note d1 = digit_split [OF lt(1) Q(4), of p] and d2 = digit_split [OF lt(2) R(5), of q]
    and d3 = digit_split [OF lt(3) S(6), of r] and d4 = digit_split [OF lt(4) T(7), of s]
  have lin: "B * 64 + C + D = x \<Longrightarrow> (A * 4 + B) * 64 + C + D = x + A * 256"
    "B * 16 + D = x \<Longrightarrow> (A * 16 + B) * 16 + D = x + A * 256"
    "B * 128 + C + D = x \<Longrightarrow> (A * 2 + B) * 128 + C + D = x + A * 256"
    "B * 32 + D = x \<Longrightarrow> (A * 8 + B) * 32 + D = x + A * 256" for A B C D x :: nat by simp_all
  have wrap: "x mod 256 = b" if "x = b + y * 256" "b < 256" for x y b :: nat
    using that by simp
  have p: "p div 8 * 8 + (p mod 8 * 4 + q div 64) div 4 = p"
    unfolding d1(1) by (rule div_mult_mod_eq)
  have q: "((p mod 8 * 4 + q div 64) * 64 + q div 2 mod 32 * 2 + (q mod 2 * 16 + r div 16) div 16) mod 256 = q"
  proof (rule wrap [OF _ assms(2)])
    show "(p mod 8 * 4 + q div 64) * 64 + q div 2 mod 32 * 2 + (q mod 2 * 16 + r div 16) div 16
        = q + p mod 8 * 256" unfolding d2(1) using Q(1) by (rule lin(1))
  qed
  have r: "((q mod 2 * 16 + r div 16) * 16 + (r mod 16 * 2 + s div 128) div 2) mod 256 = r"
  proof (rule wrap [OF _ assms(3)])
    show "(q mod 2 * 16 + r div 16) * 16 + (r mod 16 * 2 + s div 128) div 2 = r + q mod 2 * 256"
      unfolding d3(1) using div_mult_mod_eq [of r 16] by (rule lin(2))
  qed
  have s: "((r mod 16 * 2 + s div 128) * 128 + s div 4 mod 32 * 4 + (s mod 4 * 8 + t div 32) div 8) mod 256 = s"
  proof (rule wrap [OF _ assms(4)])
    show "(r mod 16 * 2 + s div 128) * 128 + s div 4 mod 32 * 4 + (s mod 4 * 8 + t div 32) div 8
        = s + r mod 16 * 256" unfolding d4(1) using S(2) by (rule lin(3))
  qed
  have t: "((s mod 4 * 8 + t div 32) * 32 + t mod 32) mod 256 = t"
  proof (rule wrap [OF _ assms(5)])
    show "(s mod 4 * 8 + t div 32) * 32 + t mod 32 = t + s mod 4 * 256"
      using div_mult_mod_eq [of t 32] by (rule lin(4))
  qed
  show "b32_quantum (b32_digits [p, q, r, s, t]) = map char_of [p, q, r, s, t]"
    unfolding b32_digits_full b32_quantum_full
    by (simp only: p char_mod [OF q] char_mod [OF r] char_mod [OF s] char_mod [OF t] list.map)
  have e: "x < 8 * 4 \<Longrightarrow> x < 32" "x < 2 * 16 \<Longrightarrow> x < 32" "x < 16 * 2 \<Longrightarrow> x < 32" "x < 4 * 8 \<Longrightarrow> x < 32"
    "x mod 32 < 32" for x :: nat by simp_all
  have "list_all (\<lambda>d. d < 32) (b32_digits [p, q, r, s, t])"
    unfolding b32_digits_full list.pred_inject(2) by (intro conjI list.pred_inject(1) P(3) e(1) [OF d1(3)] e(2) [OF d2(3)] e(3) [OF d3(3)] e(4) [OF d4(3)] e(5))
  then show "\<forall>d\<in>set (b32_digits [p, q, r, s, t]). d < 32" unfolding list_all_iff .
qed

lemma b32_digits_five: "b32_digits (p # q # r # s # t # bs) = b32_digits [p, q, r, s, t] @ b32_digits bs"
  by simp

lemma five_more: "length (bs :: 'a list) = 5 * Suc k \<Longrightarrow> \<exists>p q r s t bs'. bs = p # q # r # s # t # bs' \<and> length bs' = 5 * k"
  by (auto simp: length_Suc_conv numeral_eq_Suc)

lemma b32_bytes_eight: "length ds = 8 \<Longrightarrow> b32_bytes (ds @ es) = b32_quantum ds @ b32_bytes es"
proof -
  assume "length ds = 8"
  then obtain a b c d e f g h where "ds = [a, b, c, d, e, f, g, h]"
    by (auto simp: length_Suc_conv numeral_eq_Suc)
  then show ?thesis by simp
qed

lemma b32_round:
  "length bs = 5 * k \<Longrightarrow> \<forall>b\<in>set bs. b < 256 \<Longrightarrow>
    b32_bytes (b32_digits bs) = map char_of bs \<and> (\<forall>d\<in>set (b32_digits bs). d < 32)"
proof (induction k arbitrary: bs)
  case (Suc k)
  obtain p q r s t bs' where bs: "bs = p # q # r # s # t # bs'" "length bs' = 5 * k"
    using five_more [OF Suc.prems(1)] by blast
  have b: "p < 256" "q < 256" "r < 256" "s < 256" "t < 256" and b': "\<forall>b\<in>set bs'. b < 256"
    using Suc.prems(2) by (simp_all add: bs)
  note ih = Suc.IH [OF bs(2) b'] and quantum = b32_quantum_bytes [OF b]
  have eight: "length (b32_digits [p, q, r, s, t]) = 8" for p q r s t
    unfolding b32_digits_full by simp
  have "b32_bytes (b32_digits [p, q, r, s, t] @ b32_digits bs') = map char_of [p, q, r, s, t] @ map char_of bs'"
    using b32_bytes_eight [OF eight, of p q r s t] quantum(1) ih by (simp only:)
  moreover have "\<forall>d\<in>set (b32_digits [p, q, r, s, t] @ b32_digits bs'). d < 32"
    unfolding set_append ball_Un by (rule conjI [OF quantum(2) conjunct2 [OF ih]])
  ultimately show ?case
    unfolding bs(1) b32_digits_five [of p q r s t bs'] by (simp only: list.map append_Cons append_Nil simp_thms)
qed (simp add: b32_quantum_def)

lemma those_b32: "\<forall>d\<in>set ds. d < 32 \<Longrightarrow> those (map b32_digit (map b32_letter ds)) = Some ds"
  by (induction ds) (simp_all add: b32_digit_letter)

lemma b32_decode_encode:
  assumes "length s = 5 * k"
  shows "b32_decode (b32_encode s) = Some s"
proof -
  let ?ds = "b32_digits (map of_char s)"
  have round: "b32_bytes ?ds = s" "\<forall>d\<in>set ?ds. d < 32"
    using b32_round [of "map of_char s" k] assms by (simp_all add: comp_def)
  have "filter (\<lambda>c. c \<noteq> CHR 0x0A \<and> c \<noteq> CHR 0x0D) (map b32_letter ?ds) = map b32_letter ?ds"
    using round(2) b32_digit_letter(2) by (auto simp: filter_id_conv)
  then show ?thesis
    unfolding b32_decode_def b32_encode_def by (simp only: those_b32 [OF round(2)] option.map round(1))
qed

lemma b32_encode_letters:
  assumes "length s = 5 * k" and "c \<in> set (b32_encode s)"
  shows "visible c" "c \<noteq> CHR '' ''" "c \<noteq> CHR ''=''" "\<not> (97 \<le> byte_val c \<and> byte_val c \<le> (122::nat))"
proof -
  have "\<forall>d\<in>set (b32_digits (map of_char s)). d < 32" using b32_round [of "map of_char s" k] assms(1) by simp
  then obtain d where "d < 32" "c = b32_letter d" using assms(2) by (auto simp: b32_encode_def)
  then show "visible c" "c \<noteq> CHR '' ''" "c \<noteq> CHR ''=''" "\<not> (97 \<le> byte_val c \<and> byte_val c \<le> (122::nat))"
    using b32_digit_letter [of d] by auto
qed

end
