(* ===== verification/Data_Records.thy ===== *)
theory Data_Records
  imports Data_Query Validation Go_Encoding
begin

text \<open>
  Inserting, updating and reading records: \<open>InsertRow\<close>, \<open>UpdateRow\<close>, \<open>autoEnterConstants\<close>,
  \<open>decodeContainerValues\<close> and \<open>rowsToMaps\<close> of \<open>server/internal/data/service.go\<close>, and
  \<open>dropSummaryValues\<close> of \<open>summary.go\<close>. A record is a finite map; the order in which Go visits its
  columns is the field \<open>re_iter\<close> of the environment. The queries of the catalog, the new id and the
  outcome of a statement are the other fields of \<open>record_env\<close>.
\<close>

section \<open>The environment\<close>

datatype record_error =
    DataError data_error
  | CalcError data_calc_fail
  | CheckError check_fail
  | ExecFailed string string
  | NotFoundToUpdate string

type_synonym 'a checked = "record_error + 'a"

record record_env =
  re_calc :: calc_env
  re_formula :: "string \<Rightarrow> (string \<times> string) option"
  re_rules :: "string \<Rightarrow> rules option"
  re_options :: "string \<Rightarrow> (bool \<times> string option) option"
  re_digest :: "string \<Rightarrow> string"
  re_catalog :: catalog
  re_calculations :: "string \<Rightarrow> data_error + (string \<times> string) list"
  re_defaults :: "string \<Rightarrow> data_error + (string \<times> string) list"
  re_summaries :: "string \<Rightarrow> data_error + string list"
  re_rule_rows :: "string \<Rightarrow> data_error + (string \<times> field_type \<times> string option) list"
  re_dialect :: dialect
  re_iter :: "crecord \<Rightarrow> string list"
  re_new_id :: string
  re_count :: "string \<Rightarrow> stored \<Rightarrow> string \<Rightarrow> int option"
  re_row :: "string \<Rightarrow> string \<Rightarrow> data_error + crecord"

definition lift_data :: "data_error + 'a \<Rightarrow> 'a checked" where
  "lift_data m = (case m of Inl e \<Rightarrow> Inl (DataError e) | Inr x \<Rightarrow> Inr x)"

definition lift_calc :: "data_calc_fail + 'a \<Rightarrow> 'a checked" where
  "lift_calc m = (case m of Inl e \<Rightarrow> Inl (CalcError e) | Inr x \<Rightarrow> Inr x)"

definition lift_check :: "check_fail + 'a \<Rightarrow> 'a checked" where
  "lift_check m = (case m of Inl e \<Rightarrow> Inl (CheckError e) | Inr x \<Rightarrow> Inr x)"

lemma lift_Inr [simp]:
  "lift_data m = Inr x \<longleftrightarrow> m = Inr x"
  "lift_calc c = Inr x \<longleftrightarrow> c = Inr x"
  "lift_check k = Inr x \<longleftrightarrow> k = Inr x"
  by (simp_all add: lift_data_def lift_calc_def lift_check_def split: sum.splits)

section \<open>Preparing a record\<close>

definition check_columns :: "field_set \<Rightarrow> string \<Rightarrow> string list \<Rightarrow> data_error + unit" where
  "check_columns fs table_name cols = fold_r (\<lambda>c u. check_field fs table_name c) cols ()"

definition auto_enter_constants :: "(string \<Rightarrow> (bool \<times> string option) option) \<Rightarrow> (string \<times> string) list
    \<Rightarrow> (string \<times> string) list" where
  "auto_enter_constants um rows =
     rev (List.map_filter (\<lambda>(name, raw).
       case um raw of
         Some (True, Some v) \<Rightarrow> if v \<noteq> [] then Some (name, v) else None
       | _ \<Rightarrow> None) rows)"

text \<open>The loop over the constants: a column the record has keeps its value, nil included.\<close>

definition enter_constants :: "(string \<times> string) list \<Rightarrow> crecord \<Rightarrow> crecord" where
  "enter_constants constants R = (\<lambda>c. map_option SString (map_of constants c)) ++ R"

definition decode_container :: "field_set \<Rightarrow> string \<Rightarrow> string \<Rightarrow> crecord \<Rightarrow> data_error + crecord" where
  "decode_container fs table_name col R =
     (if map_of fs col \<noteq> Some FieldContainer then Inr R
      else case R col of
             Some (SString s) \<Rightarrow>
               (case std_decode s of
                  None \<Rightarrow> Inl (InvalidValue table_name col)
                | Some b \<Rightarrow> Inr (R(col \<mapsto> SBytes b)))
           | _ \<Rightarrow> Inr R)"

definition decode_container_values :: "(crecord \<Rightarrow> string list) \<Rightarrow> field_set \<Rightarrow> string \<Rightarrow> crecord
    \<Rightarrow> data_error + crecord" where
  "decode_container_values iter fs table_name R = fold_r (decode_container fs table_name) (iter R) R"

definition ensure_id :: "string \<Rightarrow> crecord \<Rightarrow> crecord" where
  "ensure_id new_id R =
     (if R ''id'' = None \<or> R ''id'' = Some SNil \<or> R ''id'' = Some (SString [])
      then R(''id'' \<mapsto> SString new_id) else R)"

definition drop_summary_values :: "string list \<Rightarrow> crecord \<Rightarrow> crecord" where
  "drop_summary_values names R = R |` (- set names)"

text \<open>\<open>fmt.Sprint\<close> of the id.\<close>

fun sprint :: "calc_env \<Rightarrow> stored \<Rightarrow> string" where
  "sprint E SNil = ''<nil>''"
| "sprint E (SBytes s) = ''['' @ join '' '' (map (\<lambda>b. show_nat (byte_val b)) s) @ '']''"
| "sprint E v = fst (value_text E v)"

definition record_checker :: "record_env \<Rightarrow> string \<Rightarrow> checker checked" where
  "record_checker E table_name =
     bind_r (lift_data (re_rule_rows E table_name)) (\<lambda>rows.
       Inr \<lparr>ck_dialect = re_dialect E, ck_count = re_count E, ck_table = table_name,
            ck_fields = load_fields (re_rules E) rows\<rparr>)"

section \<open>Statements\<close>

definition column_values :: "string list \<Rightarrow> crecord \<Rightarrow> stored list" where
  "column_values cols R = map (\<lambda>c. case R c of Some v \<Rightarrow> v | None \<Rightarrow> SNil) cols"

definition insert_statement :: "dialect \<Rightarrow> string \<Rightarrow> string list \<Rightarrow> string" where
  "insert_statement D table_name cols =
     ''INSERT INTO '' @ d_quote D table_name @ '' ('' @ join '', '' (map (d_quote D) cols) @ '') VALUES (''
       @ join '', '' (map (d_placeholder D) [1 ..< length cols + 1]) @ '')''"

definition update_statement :: "dialect \<Rightarrow> string \<Rightarrow> string list \<Rightarrow> string" where
  "update_statement D table_name cols =
     ''UPDATE '' @ d_quote D table_name @ '' SET ''
       @ join '', '' (map (\<lambda>(c, i). d_quote D c @ '' = '' @ d_placeholder D i) (zip cols [1 ..< length cols + 1]))
       @ '' WHERE '' @ d_quote D ''id'' @ '' = '' @ d_placeholder D (length cols + 1)"

text \<open>The outcome of a statement: the rows it affected, or the text of the error.\<close>

type_synonym outcome = "string + nat"

definition exec_error :: "record_env \<Rightarrow> string \<Rightarrow> checker \<Rightarrow> string \<Rightarrow> record_error" where
  "exec_error E table_name c msg =
     (case is_unique_index_violation (re_digest E) msg table_name (ck_fields c) of
        Some f \<Rightarrow> CheckError (Broken (unique_violation table_name f))
      | None \<Rightarrow> ExecFailed table_name msg)"

section \<open>Inserting\<close>

definition prepare_insert :: "record_env \<Rightarrow> string \<Rightarrow> crecord \<Rightarrow> (crecord \<times> checker) checked" where
  "prepare_insert E table_name R =
     bind_r (lift_data (table_fields (env_uni (re_calc E)) (re_formula E) (re_catalog E) table_name)) (\<lambda>fs.
     bind_r (lift_data (check_columns fs table_name (re_iter E R))) (\<lambda>_.
     bind_r (lift_data (re_defaults E table_name)) (\<lambda>rows.
     let R = enter_constants (auto_enter_constants (re_options E) rows) R in
     bind_r (lift_data (decode_container_values (re_iter E) fs table_name R)) (\<lambda>R.
     let R = ensure_id (re_new_id E) R in
     bind_r (lift_data (re_summaries E table_name)) (\<lambda>names.
     let R = drop_summary_values names R in
     bind_r (lift_data (re_calculations E table_name)) (\<lambda>calcs.
     bind_r (lift_calc (apply_calculations (re_calc E) (re_formula E) calcs R)) (\<lambda>R.
     bind_r (record_checker E table_name) (\<lambda>c.
     bind_r (lift_check (check_record (re_calc E) c
               (sprint (re_calc E) (case R ''id'' of Some v \<Rightarrow> v | None \<Rightarrow> SNil)) R None True)) (\<lambda>_.
       Inr (R, c))))))))))"

definition insert_row :: "record_env \<Rightarrow> (string \<Rightarrow> stored list \<Rightarrow> outcome) \<Rightarrow> string \<Rightarrow> crecord
    \<Rightarrow> crecord checked" where
  "insert_row E exec table_name R =
     bind_r (prepare_insert E table_name R) (\<lambda>(R, c).
       let cols = re_iter E R
       in case exec (insert_statement (re_dialect E) table_name cols) (column_values cols R) of
            Inl msg \<Rightarrow> Inl (exec_error E table_name c msg)
          | Inr _ \<Rightarrow> Inr R)"

section \<open>Updating\<close>

text \<open>\<open>None\<close>: nothing to write.\<close>

definition prepare_update :: "record_env \<Rightarrow> string \<Rightarrow> string \<Rightarrow> crecord \<Rightarrow> (crecord \<times> checker) option checked"
  where
  "prepare_update E table_name i updates =
     bind_r (lift_data (table_fields (env_uni (re_calc E)) (re_formula E) (re_catalog E) table_name)) (\<lambda>fs.
     let U = updates(''id'' := None) in
     bind_r (lift_data (check_columns fs table_name (re_iter E U))) (\<lambda>_.
     bind_r (lift_data (if re_iter E U = [] then Inr [] else re_summaries E table_name)) (\<lambda>names.
     let U = drop_summary_values names U in
     if re_iter E U = [] then Inr None
     else
       bind_r (lift_data (decode_container_values (re_iter E) fs table_name U)) (\<lambda>U.
       bind_r (lift_data (re_calculations E table_name)) (\<lambda>calcs.
       bind_r (lift_calc (table_calculations (re_calc E) (re_formula E) calcs)) (\<lambda>cs.
       bind_r (if cs = [] then Inr Map.empty else lift_data (re_row E table_name i)) (\<lambda>current.
       bind_r (lift_calc (recalculate_for_update (re_calc E) (re_formula E) calcs current U)) (\<lambda>U.
       bind_r (record_checker E table_name) (\<lambda>c.
       bind_r (lift_check (check_record (re_calc E) c i U (Some (\<lambda>f. U f \<noteq> None)) True)) (\<lambda>_.
         Inr (Some (U, c))))))))))))"

definition update_row :: "record_env \<Rightarrow> (string \<Rightarrow> stored list \<Rightarrow> outcome) \<Rightarrow> string \<Rightarrow> string \<Rightarrow> crecord
    \<Rightarrow> crecord checked" where
  "update_row E exec table_name i updates =
     bind_r (prepare_update E table_name i updates) (\<lambda>plan.
       case plan of
         None \<Rightarrow> lift_data (re_row E table_name i)
       | Some (U, c) \<Rightarrow>
           let cols = re_iter E U
           in case exec (update_statement (re_dialect E) table_name cols) (column_values cols U @ [SString i]) of
                Inl msg \<Rightarrow> Inl (exec_error E table_name c msg)
              | Inr affected \<Rightarrow>
                  if affected = 0 then Inl (NotFoundToUpdate i) else lift_data (re_row E table_name i))"

section \<open>Reading rows back\<close>

definition read_value :: "field_set \<Rightarrow> string \<Rightarrow> driver_value \<Rightarrow> driver_value" where
  "read_value fs col v =
     (case v of
        DBytes b \<Rightarrow>
          (if map_of fs col = Some FieldContainer then DOther (std_encode b)
           else if map_of fs col = Some FieldNumber then DOther (trim_numeric_text b)
           else DOther b)
      | _ \<Rightarrow> if map_of fs col = Some FieldBoolean then normalize_bool v else v)"

definition row_to_map :: "field_set \<Rightarrow> (string \<times> driver_value) list \<Rightarrow> (string \<times> driver_value) list" where
  "row_to_map fs row = map (\<lambda>(col, v). (col, read_value fs col v)) row"

section \<open>Properties\<close>

text \<open>
  A container value survives the store: when the text a caller sends is accepted, the bytes it
  stands for are stored, and the text read back for them decodes to the same bytes.
\<close>

theorem container_roundtrip:
  assumes "map_of fs col = Some FieldContainer" and "R col = Some (SString s)"
    and "decode_container fs table_name col R = Inr R'"
  shows "\<exists>b txt. std_decode s = Some b \<and> R' = R(col \<mapsto> SBytes b) \<and>
    read_value fs col (DBytes b) = DOther txt \<and> std_decode txt = Some b"
  using assms by (auto simp: decode_container_def read_value_def std_decode_encode split: option.splits)

theorem container_roundtrip_witness:
  "read_value [(''photo'', FieldContainer)] ''photo'' (DBytes ''Hi'') = DOther ''SGk=''"
proof -
  have s: "std_decode ''SGk='' = Some ''Hi''" by code_simp
  have e: "std_encode ''Hi'' = ''SGk=''" by code_simp
  have "decode_container [(''photo'', FieldContainer)] ''t'' ''photo'' [''photo'' \<mapsto> SString ''SGk='']
      = Inr [''photo'' \<mapsto> SBytes ''Hi'']"
    by (simp add: decode_container_def s)
  from container_roundtrip [OF _ _ this] s e show ?thesis
    by (auto simp: read_value_def)
qed

lemma check_columns_registered:
  "check_columns fs t cols = Inr u \<Longrightarrow> c \<in> set cols \<Longrightarrow> map_of fs c \<noteq> None"
  unfolding check_columns_def
  by (induction cols) (auto simp: check_field_def bind_r_Inr_iff split: if_splits)

lemma decode_containers_dom: "fold_r (decode_container fs t) cols R = Inr R' \<Longrightarrow> dom R' = dom R"
proof (induction cols arbitrary: R)
  case (Cons col cols)
  then obtain S where S: "decode_container fs t col R = Inr S" "fold_r (decode_container fs t) cols S = Inr R'"
    by (auto simp: bind_r_Inr_iff)
  have "dom S = dom R"
    using S(1) by (auto simp: decode_container_def split: if_splits option.splits stored.splits)
  with Cons.IH [OF S(2)] show ?case by simp
qed simp

text \<open>The calculations of a table agree with a record, and the record satisfies the rules that apply.\<close>

definition consistent :: "calc_env \<Rightarrow> calculation list \<Rightarrow> crecord \<Rightarrow> bool" where
  "consistent E cs R \<longleftrightarrow>
     (\<forall>c \<in> set cs. \<exists>v. evaluate E (c_expr c) R (c_result c) = Inr v \<and> R (c_field c) = Some v)"

definition obeys_rules :: "record_env \<Rightarrow> string \<Rightarrow> checker \<Rightarrow> (string \<Rightarrow> bool) \<Rightarrow> crecord \<Rightarrow> bool" where
  "obeys_rules E i c chosen R \<longleftrightarrow>
     (\<forall>(name, f) \<in> set (ck_fields c). \<forall>r. vf_rules f = Some r \<longrightarrow> chosen name \<longrightarrow>
        satisfies (re_calc E) (\<lambda>v. ck_count c (count_others_query c (vf_name f)) v i) r
          (case R name of None \<Rightarrow> SNil | Some v \<Rightarrow> v))"

lemma compute_evaluate: "compute E c R = Inr v \<longleftrightarrow> evaluate E (c_expr c) R (c_result c) = Inr v"
  by (auto simp: compute_def split: sum.splits)

lemma checked_obeys:
  "check_record (re_calc E) c i R (Some p) True = Inr () \<Longrightarrow> obeys_rules E i c p R"
  "check_record (re_calc E) c i R None True = Inr () \<Longrightarrow> obeys_rules E i c (\<lambda>_. True) R"
  unfolding check_record_def check_fields_iff obeys_rules_def by (auto simp: applies_to_def)


text \<open>
  An update that writes anything writes, with the changes, the calculations evaluated on the row
  as it will be; the changed fields obey their rules, only registered columns are sent, the id is not
  among them unless it is a calculation, and the statement names the record by its id.
\<close>

theorem updated_record_sound:
  assumes "prepare_update E table_name i updates = Inr (Some (U, c))"
    and "\<And>S. finite (dom S) \<Longrightarrow> set (re_iter E S) = dom S" and "finite (dom updates)"
  shows "\<exists>fs rows cs current.
    table_fields (env_uni (re_calc E)) (re_formula E) (re_catalog E) table_name = Inr fs \<and>
    (\<forall>col \<in> dom updates. col \<noteq> ''id'' \<longrightarrow> map_of fs col \<noteq> None) \<and>
    re_calculations E table_name = Inr rows \<and>
    table_calculations (re_calc E) (re_formula E) rows = Inr cs \<and>
    (cs \<noteq> [] \<longrightarrow> re_row E table_name i = Inr current \<and> consistent (re_calc E) cs (current ++ U)) \<and>
    (''id'' \<in> dom U \<longrightarrow> ''id'' \<in> calc_fields cs) \<and>
    obeys_rules E i c (\<lambda>f. U f \<noteq> None) U"
proof -
  from assms(1) obtain fs rows cs current V W names where
    fs: "table_fields (env_uni (re_calc E)) (re_formula E) (re_catalog E) table_name = Inr fs"
      "check_columns fs table_name (re_iter E (updates(''id'' := None))) = Inr ()"
    and V: "decode_container_values (re_iter E) fs table_name V = Inr W"
      "V = drop_summary_values names (updates(''id'' := None))"
    and calcs: "re_calculations E table_name = Inr rows"
      "table_calculations (re_calc E) (re_formula E) rows = Inr cs"
      "(if cs = [] then Inr Map.empty else lift_data (re_row E table_name i)) = Inr current"
      "recalculate_for_update (re_calc E) (re_formula E) rows current W = Inr U"
    and checked: "check_record (re_calc E) c i U (Some (\<lambda>f. U f \<noteq> None)) True = Inr ()"
    by (auto simp: prepare_update_def bind_r_Inr_iff Let_def split: if_splits)
  have id_V: "V ''id'' = None" using V(2) by (simp add: drop_summary_values_def restrict_map_def)
  have id_W: "W ''id'' = None" using decode_containers_dom V(1) id_V
    unfolding decode_container_values_def by (metis domIff)
  have "consistent (re_calc E) cs (current ++ U) \<and> (''id'' \<in> dom U \<longrightarrow> ''id'' \<in> calc_fields cs)" if ne: "cs \<noteq> []"
  proof -
    obtain m where "fold_r (update_step (re_calc E)) cs (current ++ W, W) = Inr (m, U)"
      using calcs(2,4) ne by (auto simp: recalculate_for_update_def bind_r_Inr_iff)
    from update_loop [OF this] have m: "m = current ++ U"
      "apply_calculations_to (re_calc E) cs (current ++ W) = Inr m" "\<forall>f. f \<notin> calc_fields cs \<longrightarrow> U f = W f"
      by auto
    then show ?thesis
      using apply_consistent [OF table_calculations_in_order [OF calcs(2)] m(2)] id_W
      by (auto simp: consistent_def compute_evaluate)
  qed
  moreover have "U = W" if "cs = []" using calcs(2,4) that by (simp add: recalculate_for_update_def)
  moreover have "re_row E table_name i = Inr current" if "cs \<noteq> []" using calcs(3) that by simp
  moreover have "map_of fs col \<noteq> None" if "col \<in> dom updates" "col \<noteq> ''id''" for col
    using check_columns_registered [OF fs(2), of col] that assms(2) [of "updates(''id'' := None)"] assms(3) by auto
  moreover have "''id'' \<in> dom U \<longrightarrow> ''id'' \<in> calc_fields cs"
    using calculation(1,2) id_W by (cases "cs = []") auto
  ultimately show ?thesis
    using fs(1) calcs(1,2) checked_obeys(1) [OF checked] by blast
qed


text \<open>A table of people whose \<open>name\<close> may not be empty.\<close>

definition demo_rules :: rules where
  "demo_rules = no_rules\<lparr>ru_not_empty := True\<rparr>"

definition demo_records_env :: record_env where
  "demo_records_env =
     \<lparr>re_calc = demo_env, re_formula = (\<lambda>_. None), re_rules = (\<lambda>_. Some demo_rules), re_options = (\<lambda>_. None),
      re_digest = id,
      re_catalog = \<lparr>cat_columns = (\<lambda>_. Inr [(''name'', FieldText, None), (''id'', FieldText, None)]),
        cat_relationship = (\<lambda>_. Inr None)\<rparr>,
      re_calculations = (\<lambda>_. Inr []), re_defaults = (\<lambda>_. Inr []), re_summaries = (\<lambda>_. Inr []),
      re_rule_rows = (\<lambda>_. Inr [(''name'', FieldText, Some ''x'')]),
      re_dialect = mariadb_dialect, re_iter = (\<lambda>R. sorted_list_of_set (dom R)), re_new_id = ''u1'',
      re_count = (\<lambda>_ _ _. Some 0), re_row = (\<lambda>t i. Inl (RecordNotFound i))\<rparr>"

lemma demo_people_fields:
  "table_fields ascii_only (\<lambda>_. None)
     \<lparr>cat_columns = (\<lambda>_. Inr [(''name'', FieldText, None), (''id'', FieldText, None)]),
      cat_relationship = (\<lambda>_. Inr None)\<rparr> ''people'' = Inr [(''id'', FieldText), (''name'', FieldText)]"
proof -
  have "\<not> is_reserved_table_name ascii_only ''people''"
    by (simp add: is_reserved_table_name_def identifier_normalized matches_identifier_def lower_letter_def
        identifier_char_def reserved_table_names_def reserved_table_prefixes_def Let_def)
  then show ?thesis by (simp add: table_fields_def storage_type_def)
qed

lemma demo_loaded: "parse_rules (\<lambda>_. Some demo_rules) (Some ''x'') = Inr (Some demo_rules)"
proof -
  have "trim_space ''x'' = ''x''" by (rule trim_space_visible) (simp add: visible_def)+
  then show ?thesis by (simp add: parse_rules_def demo_rules_def no_rules_def)
qed

lemma demo_name: "trim_space ''Ann'' = ''Ann''"
  by (rule trim_space_visible) (simp add: visible_def)+

lemma demo_iter: "finite (dom S) \<Longrightarrow> set (re_iter demo_records_env S) = dom S"
  by (simp add: demo_records_env_def)

lemma demo_checker: "record_checker demo_records_env ''people'' =
    Inr \<lparr>ck_dialect = mariadb_dialect, ck_count = (\<lambda>_ _ _. Some 0), ck_table = ''people'',
         ck_fields = [(''name'', \<lparr>vf_name = ''name'', vf_type = FieldText, vf_rules = Some demo_rules\<rparr>)]\<rparr>"
  by (simp add: record_checker_def load_fields_def load_field_def demo_loaded demo_records_env_def lift_data_def)

lemma demo_check: "check_record (re_calc demo_records_env)
    \<lparr>ck_dialect = mariadb_dialect, ck_count = (\<lambda>_ _ _. Some 0), ck_table = ''people'',
     ck_fields = [(''name'', \<lparr>vf_name = ''name'', vf_type = FieldText, vf_rules = Some demo_rules\<rparr>)]\<rparr>
    i [''name'' \<mapsto> SString ''Ann'', ''id'' \<mapsto> v] None True = Inr ()"
  by (simp add: check_record_def applies_to_def check_value_def demo_name demo_rules_def no_rules_def)

lemma demo_set_order: "sorted_list_of_set {''name''} = [''name'']"
  "sorted_list_of_set {''id'', ''name''} = [''id'', ''name'']"
  by simp_all

lemma demo_selectors:
  "re_calc demo_records_env = demo_env" "re_formula demo_records_env = (\<lambda>_. None)"
  "re_options demo_records_env = (\<lambda>_. None)"
  "re_calculations demo_records_env t = Inr []" "re_defaults demo_records_env t = Inr []"
  "re_summaries demo_records_env t = Inr []" "re_dialect demo_records_env = mariadb_dialect"
  "re_iter demo_records_env = (\<lambda>R. sorted_list_of_set (dom R))" "re_new_id demo_records_env = ''u1''"
  "env_uni demo_env = ascii_only"
  by (simp_all add: demo_records_env_def demo_env_def)

lemma demo_fields: "table_fields ascii_only (\<lambda>_. None) (re_catalog demo_records_env) ''people''
    = Inr [(''id'', FieldText), (''name'', FieldText)]"
  using demo_people_fields by (simp add: demo_records_env_def)

lemma no_calculations: "apply_calculations E um [] R = Inr R"
  by (simp add: apply_calculations_def table_calculations_def parse_calculations_def List.map_filter_def)

lemma no_constants: "enter_constants (auto_enter_constants um []) R = R"
  by (rule ext) (simp add: enter_constants_def auto_enter_constants_def List.map_filter_def map_add_def split: option.split)

lemma lift_simps: "lift_data (Inr x) = Inr x" "lift_calc (Inr y) = Inr y" "lift_check (Inr z) = Inr z"
  by simp_all

lemma demo_insert:
  "insert_row demo_records_env (\<lambda>q vals. Inr 1) ''people'' [''name'' \<mapsto> SString ''Ann''] =
   Inr [''name'' \<mapsto> SString ''Ann'', ''id'' \<mapsto> SString ''u1'']"
proof -
  let ?fs = "[(''id'', FieldText), (''name'', FieldText)]"
  have cols: "check_columns ?fs ''people'' [''name''] = Inr ()"
    by (simp add: check_columns_def check_field_def)
  have dec: "decode_container_values (\<lambda>R. sorted_list_of_set (dom R)) ?fs ''people'' [''name'' \<mapsto> SString ''Ann'']
      = Inr [''name'' \<mapsto> SString ''Ann'']"
    by (simp add: decode_container_values_def decode_container_def)
  have ident: "ensure_id ''u1'' [''name'' \<mapsto> SString ''Ann''] = [''name'' \<mapsto> SString ''Ann'', ''id'' \<mapsto> SString ''u1'']"
    by (simp add: ensure_id_def)
  have none: "drop_summary_values [] R = R" for R
    by (auto simp: drop_summary_values_def restrict_map_def)
  show ?thesis
    unfolding insert_row_def prepare_insert_def demo_checker Let_def demo_selectors demo_fields lift_simps bind_r_simps
      no_constants no_calculations dec ident none
    by (simp add: cols lift_simps demo_check [unfolded demo_selectors])
qed


lemma demo_update:
  "\<exists>c. prepare_update demo_records_env ''people'' ''u1'' [''name'' \<mapsto> SString ''Ann'', ''id'' \<mapsto> SString ''u9''] =
   Inr (Some ([''name'' \<mapsto> SString ''Ann''], c))"
proof -
  let ?fs = "[(''id'', FieldText), (''name'', FieldText)]"
  let ?U = "[''name'' \<mapsto> SString ''Ann''] :: crecord"
  have U: "[''name'' \<mapsto> SString ''Ann'', ''id'' \<mapsto> SString ''u9''](''id'' := None) = ?U" by auto
  have cols: "check_columns ?fs ''people'' [''name''] = Inr ()"
    by (simp add: check_columns_def check_field_def)
  have dec: "decode_container_values (\<lambda>R. sorted_list_of_set (dom R)) ?fs ''people'' ?U = Inr ?U"
    by (simp add: decode_container_values_def decode_container_def)
  have none: "drop_summary_values [] R = R" for R
    by (auto simp: drop_summary_values_def restrict_map_def)
  have tc: "table_calculations demo_env (\<lambda>_. None) [] = Inr []"
    by (simp add: table_calculations_def parse_calculations_def List.map_filter_def)
  have rec: "recalculate_for_update demo_env (\<lambda>_. None) [] current ?U = Inr ?U" for current
    by (simp add: recalculate_for_update_def tc)
  have chk: "check_record demo_env
    \<lparr>ck_dialect = mariadb_dialect, ck_count = (\<lambda>_ _ _. Some 0), ck_table = ''people'',
     ck_fields = [(''name'', \<lparr>vf_name = ''name'', vf_type = FieldText, vf_rules = Some demo_rules\<rparr>)]\<rparr>
    i ?U p True = Inr ()" for i p
    by (simp add: check_record_def applies_to_def check_value_def demo_name demo_rules_def no_rules_def split: option.split)
  show ?thesis
    unfolding prepare_update_def demo_checker Let_def demo_selectors demo_fields lift_simps bind_r_simps U
    by (simp add: cols lift_simps none dec tc rec chk)
qed

theorem updated_record_sound_witness:
  "\<exists>U. U ''name'' = Some (SString ''Ann'') \<and> \<not> (''id'' \<in> dom U) \<and>
   (\<exists>c. obeys_rules demo_records_env ''u1'' c (\<lambda>f. U f \<noteq> None) U)"
proof -
  define U :: crecord where "U = [''name'' \<mapsto> SString ''Ann'']"
  from demo_update obtain c where c: "prepare_update demo_records_env ''people'' ''u1''
      [''name'' \<mapsto> SString ''Ann'', ''id'' \<mapsto> SString ''u9''] = Inr (Some (U, c))"
    unfolding U_def ..
  have fin: "finite (dom [''name'' \<mapsto> SString ''Ann'', ''id'' \<mapsto> SString ''u9''])" by simp
  have "obeys_rules demo_records_env ''u1'' c (\<lambda>f. U f \<noteq> None) U"
    using updated_record_sound [OF c demo_iter fin] by blast
  moreover have "U ''name'' = Some (SString ''Ann'')" "\<not> (''id'' \<in> dom U)" by (simp_all add: U_def)
  ultimately show ?thesis by blast
qed

end
