(* ===== verification/Dataio_Table.thy ===== *)
theory Dataio_Table
  imports Go_Prelude
begin

text \<open>
  The tables of text an import reads and an export writes: \<open>server/internal/dataio/dataio.go\<close> without
  \<open>Parse\<close>, which is in the theory \<open>Dataio\<close>. Every cell is a string.
\<close>

section \<open>Formats and limits\<close>

datatype format = FormatCSV | FormatTSV | FormatXLSX | FormatXML | FormatOther string

record limits =
  lim_bytes :: int
  lim_rows :: int
  lim_columns :: int

definition default_limits :: limits where
  "default_limits = \<lparr>lim_bytes = 25 * 2 ^ 20, lim_rows = 100000, lim_columns = 256\<rparr>"

definition or_defaults :: "limits \<Rightarrow> limits" where
  "or_defaults l =
     \<lparr>lim_bytes = (if lim_bytes l \<le> 0 then lim_bytes default_limits else lim_bytes l),
      lim_rows = (if lim_rows l \<le> 0 then lim_rows default_limits else lim_rows l),
      lim_columns = (if lim_columns l \<le> 0 then lim_columns default_limits else lim_columns l)\<rparr>"

record options =
  opt_format :: format
  opt_header :: bool
  opt_delimiter :: string
  opt_sheet :: string
  opt_element :: string
  opt_limits :: limits

record table =
  t_columns :: "string list"
  t_rows :: "string list list"
  t_sheets :: "string list"
  t_truncated :: bool

definition has_suffix :: "string \<Rightarrow> string \<Rightarrow> bool" where
  "has_suffix s x = suffix x s"

definition format_from_name :: "unicode \<Rightarrow> string \<Rightarrow> format" where
  "format_from_name U name =
     (let n = to_lower U name
      in if has_suffix n ''.tsv'' \<or> has_suffix n ''.tab'' \<or> has_suffix n ''.txt'' then FormatTSV
         else if has_suffix n ''.xlsx'' \<or> has_suffix n ''.xlsm'' then FormatXLSX
         else if has_suffix n ''.xml'' then FormatXML
         else FormatCSV)"

fun content_type :: "format \<Rightarrow> string" where
  "content_type FormatXLSX = ''application/vnd.openxmlformats-officedocument.spreadsheetml.sheet''"
| "content_type FormatTSV = ''text/tab-separated-values; charset=utf-8''"
| "content_type FormatXML = ''application/xml; charset=utf-8''"
| "content_type _ = ''text/csv; charset=utf-8''"

fun file_extension :: "format \<Rightarrow> string" where
  "file_extension FormatXLSX = ''.xlsx''"
| "file_extension FormatTSV = ''.tsv''"
| "file_extension FormatXML = ''.xml''"
| "file_extension _ = ''.csv''"

section \<open>Cells\<close>

definition cell :: "table \<Rightarrow> int \<Rightarrow> int \<Rightarrow> string" where
  "cell t row column =
     (if row < 0 \<or> row \<ge> int (length (t_rows t)) then []
      else let cells = t_rows t ! nat row
           in if column < 0 \<or> column \<ge> int (length cells) then [] else cells ! nat column)"

definition sample :: "table \<Rightarrow> int \<Rightarrow> string list list" where
  "sample t n = (if n \<le> 0 \<or> int (length (t_rows t)) \<le> n then t_rows t else take (nat n) (t_rows t))"

section \<open>Errors and column names\<close>

datatype source_error =
    BadSeparator string
  | InvalidDelimiter
  | TooManyBytes nat int
  | TooManyColumns nat int
  | NotAWorkbook string
  | NoSheets
  | NoSheetNamed string "string list"
  | RowsFailed string
  | XmlFailed string
  | NoXmlElements
  | NothingRepeats
  | NoElements string
  | WriteFailed string

definition numbered :: "nat \<Rightarrow> string" where
  "numbered i = ''Column '' @ show_nat (i + 1)"

definition row_width :: "string list list \<Rightarrow> nat" where
  "row_width rows = foldl (\<lambda>w row. if length row > w then length row else w) 0 rows"

definition header_name :: "string list \<Rightarrow> nat \<Rightarrow> string" where
  "header_name header i =
     (let name = (if i < length header then trim_space (header ! i) else [])
      in if name = [] then numbered i else name)"

definition header_or_numbered :: "string list list \<Rightarrow> bool \<Rightarrow> limits
    \<Rightarrow> source_error + string list \<times> string list list" where
  "header_or_numbered rows has_header l =
     (let width = row_width rows
      in if int width > lim_columns l then Inl (TooManyColumns width (lim_columns l))
         else if \<not> has_header then Inr (map numbered [0 ..< width], rows)
         else case rows of
                [] \<Rightarrow> Inr ([], [])
              | header # body \<Rightarrow> Inr (map (header_name header) [0 ..< width], body))"

section \<open>Facts\<close>

lemma or_defaults_positive:
  "0 < lim_bytes (or_defaults l)" "0 < lim_rows (or_defaults l)" "0 < lim_columns (or_defaults l)"
  by (simp_all add: or_defaults_def default_limits_def)

lemma or_defaults_idem [simp]: "or_defaults (or_defaults l) = or_defaults l"
  by (simp add: or_defaults_def default_limits_def)

lemma width_fold: "foldl (\<lambda>w row. if length row > w then length row else w) k rows
    = fold max (map length rows) k"
  by (induction rows arbitrary: k) (auto simp: max_def)

lemma row_width_fold: "row_width rows = fold max (map length rows) 0"
  by (simp add: row_width_def width_fold)

lemma fold_max_ge: "(k::nat) \<le> fold max ks k" and fold_max_mem: "x \<in> set ks \<Longrightarrow> x \<le> fold max ks k"
proof -
  show ge: "(k::nat) \<le> fold max ks k" for ks :: "nat list" and k
  proof (induction ks arbitrary: k)
    case (Cons a ks)
    from Cons [of "max a k"] show ?case by simp
  qed simp
  show "x \<in> set ks \<Longrightarrow> x \<le> fold max ks k"
  proof (induction ks arbitrary: k)
    case (Cons a ks)
    with ge [of "max a k" ks] show ?case by auto
  qed simp
qed

lemma row_width_ge: "row \<in> set rows \<Longrightarrow> length row \<le> row_width rows"
  unfolding row_width_fold by (rule fold_max_mem) auto

lemma row_width_all:
  assumes "\<And>row. row \<in> set rows \<Longrightarrow> length row = n" and "rows \<noteq> []"
  shows "row_width rows = n"
proof -
  have "fold max (map length rows) k = max k n" if "rows \<noteq> []" for k
    using assms(1) that
  proof (induction rows arbitrary: k)
    case (Cons a rows)
    then show ?case by (cases "rows = []") auto
  qed simp
  with assms(2) show ?thesis by (simp add: row_width_fold)
qed

lemma row_width_Nil [simp]: "row_width [] = 0"
  by (simp add: row_width_def)

text \<open>Every column has a name and no row is wider than the columns.\<close>

lemma header_or_numbered_shape:
  assumes "header_or_numbered rows h l = Inr (columns, body)"
  shows "\<forall>c \<in> set columns. c \<noteq> []" and "\<forall>row \<in> set body. length row \<le> length columns"
    and "int (length columns) \<le> lim_columns l" and "set body \<subseteq> set rows"
proof -
  have named: "header_name header i \<noteq> []" for header i
    by (simp add: header_name_def Let_def numbered_def)
  note d = assms [unfolded header_or_numbered_def Let_def]
  have named': "numbered i \<noteq> []" for i by (simp add: numbered_def)
  have "columns = map numbered [0 ..< row_width rows] \<or> (\<exists>h. columns = map (header_name h) [0 ..< row_width rows])
      \<or> columns = []"
    using d by (auto split: if_splits list.splits)
  then show "\<forall>c \<in> set columns. c \<noteq> []"
    using named named' by (elim disjE exE) (simp_all del: upt_Suc)
  show sub: "set body \<subseteq> set rows"
    using d by (auto split: if_splits list.splits)
  have "length columns = row_width rows \<or> rows = [] \<and> body = []"
    using d by (auto split: if_splits list.splits)
  then show "\<forall>row \<in> set body. length row \<le> length columns"
    using sub row_width_ge by auto
  show "int (length columns) \<le> lim_columns l"
    using d by (auto split: if_splits list.splits)
qed

text \<open>A header of non-blank names is the columns.\<close>

lemma header_or_numbered_header:
  assumes "\<And>row. row \<in> set (header # body) \<Longrightarrow> length row = length header"
    and "int (length header) \<le> lim_columns l"
  shows "header_or_numbered (header # body) True l =
    Inr (map (header_name header) [0 ..< length header], body)"
proof -
  have "row_width (header # body) = length header"
  proof (rule row_width_all)
    show "length row = length header" if "row \<in> set (header # body)" for row by (rule assms(1) [OF that])
  qed simp
  with assms(2) show ?thesis by (simp only: header_or_numbered_def Let_def) simp
qed

end
