(* ===== verification/Dataio_Csv.thy ===== *)
theory Dataio_Csv
  imports Dataio_Table
begin

text \<open>
  Delimited text: \<open>server/internal/dataio/delimited.go\<close> and \<open>WriteDelimited\<close> of \<open>write.go\<close>, with the
  reader and the writer of \<open>encoding/csv\<close> they run on (lazy quotes, any number of fields, lines ended
  by a line feed). A position in the text is the current line and what follows it.
\<close>

abbreviation LF :: char where "LF \<equiv> CHR 0x0A"
abbreviation CR :: char where "CR \<equiv> CHR 0x0D"
abbreviation DQ :: char where "DQ \<equiv> CHR 0x22"

section \<open>Which separator\<close>

definition delimiter_candidates :: "char list" where
  "delimiter_candidates = [CHR '','', CHR 0x09, CHR '';'', CHR ''|'']"

definition count_char :: "char \<Rightarrow> string \<Rightarrow> nat" where
  "count_char c s = length (filter (\<lambda>x. x = c) s)"

definition first_lines :: "string \<Rightarrow> string list" where
  "first_lines s =
     take 5 (filter (\<lambda>l. trim_space l \<noteq> []) (map (\<lambda>l. rev (dropWhile (\<lambda>c. c = CR) (rev l))) (split_char LF s)))"

definition delimiter_score :: "string list \<Rightarrow> char \<Rightarrow> nat" where
  "delimiter_score lines c =
     (let n = count_char c (hd lines)
      in if list_all (\<lambda>l. count_char c l = n) (tl lines) then n + 1000 else n)"

definition detect_delimiter :: "string \<Rightarrow> char" where
  "detect_delimiter s =
     (case first_lines s of
        [] \<Rightarrow> CHR '',''
      | lines \<Rightarrow>
          fst (foldl (\<lambda>(best, best_score) c.
                 if count_char c (hd lines) = 0 then (best, best_score)
                 else if delimiter_score lines c > best_score then (c, delimiter_score lines c)
                 else (best, best_score)) (CHR '','', 0) delimiter_candidates))"

definition bom :: string where
  "bom = [CHR 0xEF, CHR 0xBB, CHR 0xBF]"

definition strip_bom :: "string \<Rightarrow> string" where
  "strip_bom s = (if prefix bom s then drop 3 s else s)"

section \<open>The reader of \<open>encoding/csv\<close>\<close>

definition valid_delim :: "rune \<Rightarrow> bool" where
  "valid_delim r \<longleftrightarrow> r \<noteq> 0 \<and> r \<noteq> 34 \<and> r \<noteq> 13 \<and> r \<noteq> 10 \<and> valid_rune r \<and> r \<noteq> rune_error"

text \<open>A line with its line feed; \<open>\r\n\<close> is a line feed, a last \<open>\r\<close> is dropped. \<open>None\<close>: the end.\<close>

definition chop_cr :: "string \<Rightarrow> string" where
  "chop_cr l = (if l \<noteq> [] \<and> last l = CR then butlast l else l)"

definition read_line :: "string \<Rightarrow> (string \<times> string) option" where
  "read_line s =
     (if s = [] then None
      else let l = chop_cr (takeWhile (\<lambda>c. c \<noteq> LF) s)
           in case dropWhile (\<lambda>c. c \<noteq> LF) s of
                [] \<Rightarrow> Some (l, [])
              | _ # rest \<Rightarrow> Some (l @ [LF], rest))"

definition drop_lf :: "string \<Rightarrow> string" where
  "drop_lf l = (if l \<noteq> [] \<and> last l = LF then butlast l else l)"

definition next_rune :: "string \<Rightarrow> rune" where
  "next_rune s = (case s of [] \<Rightarrow> rune_error | c # t \<Rightarrow> fst (decode_rune c t))"

lemma length_chop_cr: "length (chop_cr l) \<le> length l"
  by (simp add: chop_cr_def)

lemma read_line_length:
  assumes "read_line s = Some (l, rest)"
  shows "length l + length rest \<le> length s" and "length rest < length s"
proof -
  let ?t = "takeWhile (\<lambda>c. c \<noteq> LF) s" and ?d = "dropWhile (\<lambda>c. c \<noteq> LF) s"
  from assms have ne: "s \<noteq> []" by (auto simp: read_line_def)
  have s: "length s = length ?t + length ?d"
    by (metis length_append takeWhile_dropWhile_id)
  have c: "length (chop_cr ?t) \<le> length ?t" by (rule length_chop_cr)
  have "length l + length rest \<le> length s \<and> length rest < length s"
  proof (cases ?d)
    case Nil
    with assms ne have e: "l = chop_cr ?t" "rest = []" by (auto simp: read_line_def Let_def)
    have "length ?d = 0" "0 < length s" using Nil ne by (auto simp only: list.size)
    with c s show ?thesis unfolding e list.size by linarith
  next
    case (Cons x xs)
    with assms ne have e: "l = chop_cr ?t @ [LF]" "rest = xs" by (auto simp: read_line_def Let_def)
    have "length ?d = Suc (length xs)" by (simp only: Cons list.size)
    with c s show ?thesis unfolding e length_append list.size by linarith
  qed
  then show "length l + length rest \<le> length s" and "length rest < length s" by auto
qed

lemma encode_rune_not_Nil [simp]: "encode_rune r \<noteq> []"
  by (simp add: encode_rune_def Let_def)

lemma cut_at_length: "cut_at sep s = Some (a, b) \<Longrightarrow> length s = length a + length sep + length b"
  by (drule cut_at_Some) simp

lemma cut_at_shorter: "cut_at sep s = Some (a, b) \<Longrightarrow> sep \<noteq> [] \<Longrightarrow> length b < length s"
  by (drule cut_at_length) simp

text \<open>The fields of a record: a field that does not start with a quote, and the inside of one that does.\<close>

function (sequential) csv_fields :: "rune \<Rightarrow> string \<Rightarrow> string \<Rightarrow> string list \<times> string"
  and csv_quoted :: "rune \<Rightarrow> string \<Rightarrow> string \<Rightarrow> string \<Rightarrow> string list \<times> string" where
  "csv_fields comma line rest =
     (if line = [] \<or> hd line \<noteq> DQ then
        (case cut_at (encode_rune comma) line of
           Some (f, line') \<Rightarrow> (let (fs, rest') = csv_fields comma line' rest in (f # fs, rest'))
         | None \<Rightarrow> ([drop_lf line], rest))
      else csv_quoted comma [] (tl line) rest)"
| "csv_quoted comma acc line rest =
     (case cut_at [DQ] line of
        Some (a, line') \<Rightarrow>
          (if line' \<noteq> [] \<and> hd line' = DQ then csv_quoted comma (acc @ a @ [DQ]) (tl line') rest
           else if next_rune line' = comma then
             (let (fs, rest') = csv_fields comma (drop (length (encode_rune comma)) line') rest
              in ((acc @ a) # fs, rest'))
           else if line' = [] \<or> line' = [LF] then ([acc @ a], rest)
           else csv_quoted comma (acc @ a @ [DQ]) line' rest)
      | None \<Rightarrow>
          if line \<noteq> [] then
            (case read_line rest of
               None \<Rightarrow> csv_quoted comma (acc @ line) [] []
             | Some (line', rest') \<Rightarrow> csv_quoted comma (acc @ line) line' rest')
          else ([acc], rest))"
  by pat_completeness auto
termination
proof (relation "measure (\<lambda>x. case x of Inl (comma, line, rest) \<Rightarrow> length line + length rest
                                  | Inr (comma, acc, line, rest) \<Rightarrow> length line + length rest)", simp_all, goal_cases)
  case (1 comma line x2 x y)
  then show ?case using cut_at_shorter [of "encode_rune comma" line x y] by simp
next
  case (2 line rest x2 x y)
  then show ?case using read_line_length(1) [of rest x y] by (cases line) auto
next
  case (3 line x2 x y)
  then show ?case using cut_at_shorter [of "[DQ]" line x y] by simp
next
  case (4 comma line x2 x y)
  then show ?case using cut_at_shorter [of "[DQ]" line x y] by simp
next
  case (5 comma line x2 x y)
  then show ?case using cut_at_shorter [of "[DQ]" line x y] by simp
qed

declare csv_fields.simps [simp del] csv_quoted.simps [simp del]

lemma csv_rest_length:
  "length (snd (csv_fields comma line rest)) \<le> length rest"
  "length (snd (csv_quoted comma acc line rest)) \<le> length rest"
proof (induction comma line rest and comma acc line rest rule: csv_fields_csv_quoted.induct)
  case (1 comma line rest)
  show ?case
  proof (cases "line = [] \<or> hd line \<noteq> DQ")
    case True
    show ?thesis
    proof (cases "cut_at (encode_rune comma) line")
      case None
      with True show ?thesis by (subst csv_fields.simps) simp
    next
      case (Some x)
      obtain f line' where x: "x = (f, line')" by (cases x)
      from 1(1) [OF True Some x [symmetric]] Some x True show ?thesis
        by (subst csv_fields.simps) (auto split: prod.split)
    qed
  next
    case False
    with 1(2) [OF False] show ?thesis by (subst csv_fields.simps) simp
  qed
next
  case (2 comma acc line rest)
  show ?case
  proof (cases "cut_at [DQ] line")
    case None
    show ?thesis
    proof (cases "line = []")
      case False
      show ?thesis
      proof (cases "read_line rest")
        case None': None
        with None False 2(1) [OF None False None'] show ?thesis by (subst csv_quoted.simps) simp
      next
        case (Some x)
        obtain l r where x: "x = (l, r)" by (cases x)
        from Some x have "length r < length rest" using read_line_length(2) by blast
        with None False Some x 2(2) [OF None False Some x [symmetric]] show ?thesis
          by (subst csv_quoted.simps) simp
      qed
    qed (use None in \<open>subst csv_quoted.simps, simp\<close>)
  next
    case (Some x)
    obtain a line' where x: "x = (a, line')" by (cases x)
    note ih = 2(3) [OF Some x [symmetric]] 2(4) [OF Some x [symmetric]] 2(5) [OF Some x [symmetric]]
    show ?thesis
      using Some x ih by (subst csv_quoted.simps) (auto split: prod.split)
  qed
qed

text \<open>\<open>Reader.Read\<close>: the next record, past the empty lines.\<close>

function read_record :: "rune \<Rightarrow> string \<Rightarrow> (string list \<times> string) option" where
  "read_record comma s =
     (case read_line s of
        None \<Rightarrow> None
      | Some (line, rest) \<Rightarrow>
          if line = [] \<or> line = [LF] then read_record comma rest
          else Some (csv_fields comma line rest))"
  by pat_completeness auto
termination by (relation "measure (\<lambda>(comma, s). length s)") (auto dest: read_line_length(2))

declare read_record.simps [simp del]

lemma read_record_length: "read_record comma s = Some (rc, rest) \<Longrightarrow> length rest < length s"
proof (induction comma s rule: read_record.induct)
  case (1 comma s)
  show ?case
  proof (cases "read_line s")
    case None
    with 1 show ?thesis by (simp add: read_record.simps)
  next
    case (Some x)
    obtain line r where x: "x = (line, r)" by (cases x)
    with Some have len: "length r < length s" using read_line_length(2) by blast
    show ?thesis
    proof (cases "line = [] \<or> line = [LF]")
      case True
      then have "read_record comma s = read_record comma r"
        using Some x by (subst read_record.simps) auto
      with 1(2) have "read_record comma r = Some (rc, rest)" by simp
      from 1(1) [OF Some x [symmetric] True this] len show ?thesis by simp
    next
      case False
      with 1 Some x have "csv_fields comma line r = (rc, rest)"
        by (subst (asm) (2) read_record.simps) auto
      with csv_rest_length(1) [of comma line r] len show ?thesis by simp
    qed
  qed
qed

definition blank_record :: "string list \<Rightarrow> bool" where
  "blank_record rc \<longleftrightarrow> rc = [] \<or> length rc = 1 \<and> trim_space (hd rc) = []"

function read_rows :: "rune \<Rightarrow> int \<Rightarrow> string list list \<Rightarrow> string \<Rightarrow> string list list \<times> bool" where
  "read_rows comma max_rows rows s =
     (case read_record comma s of
        None \<Rightarrow> (rows, False)
      | Some (rc, rest) \<Rightarrow>
          if blank_record rc then read_rows comma max_rows rows rest
          else if int (length rows) \<ge> max_rows then (rows, True)
          else read_rows comma max_rows (rows @ [rc]) rest)"
  by pat_completeness auto
termination by (relation "measure (\<lambda>(comma, m, rows, s). length s)") (auto dest: read_record_length)

declare read_rows.simps [simp del]

section \<open>Reading\<close>

definition option_delimiter :: "string \<Rightarrow> string \<Rightarrow> source_error + rune" where
  "option_delimiter d s =
     (case d of
        [] \<Rightarrow> Inr (of_char (detect_delimiter s))
      | c # t \<Rightarrow>
          (let (r, n) = decode_rune c t
           in if r = rune_error \<and> n \<le> 1 then Inl (BadSeparator d) else Inr r))"

definition parse_delimited :: "string \<Rightarrow> options \<Rightarrow> source_error + table" where
  "parse_delimited data opts =
     (let s = strip_bom data
      in bind_r (option_delimiter (opt_delimiter opts) s) (\<lambda>comma.
           if \<not> valid_delim comma then Inl InvalidDelimiter
           else let (rows, truncated) = read_rows comma (lim_rows (opt_limits opts)) [] s
                in bind_r (header_or_numbered rows (opt_header opts) (opt_limits opts)) (\<lambda>(columns, body).
                     Inr \<lparr>t_columns = columns, t_rows = body, t_sheets = [], t_truncated = truncated\<rparr>)))"

section \<open>Writing\<close>

text \<open>\<open>Writer.Write\<close> of \<open>encoding/csv\<close>.\<close>

definition field_needs_quotes :: "rune \<Rightarrow> string \<Rightarrow> bool" where
  "field_needs_quotes comma f =
     (if f = [] then False
      else if f = [CHR 0x5C, CHR ''.''] then True
      else if (if comma < 128 then list_ex (\<lambda>c. c = LF \<or> c = CR \<or> c = DQ \<or> c = char_of comma) f
               else contains f (encode_rune comma) \<or> list_ex (\<lambda>c. c = DQ \<or> c = CR \<or> c = LF) f) then True
      else rune_is_space (next_rune f))"

fun escape_quotes :: "string \<Rightarrow> string" where
  "escape_quotes [] = []"
| "escape_quotes (c # s) = (if c = DQ then DQ # DQ # escape_quotes s else c # escape_quotes s)"

definition csv_field :: "rune \<Rightarrow> string \<Rightarrow> string" where
  "csv_field comma f = (if field_needs_quotes comma f then DQ # escape_quotes f @ [DQ] else f)"

definition csv_record :: "rune \<Rightarrow> string list \<Rightarrow> string" where
  "csv_record comma fs = join (encode_rune comma) (map (csv_field comma) fs) @ [LF]"

definition fit_row :: "nat \<Rightarrow> string list \<Rightarrow> string list" where
  "fit_row n row = take n (if length row < n then row @ replicate (n - length row) [] else row)"

definition write_delimited :: "table \<Rightarrow> rune \<Rightarrow> bool \<Rightarrow> source_error + string" where
  "write_delimited t comma with_bom =
     (if \<not> valid_delim comma then Inl InvalidDelimiter
      else Inr ((if with_bom then bom else []) @ csv_record comma (t_columns t)
                @ concat (map (\<lambda>row. csv_record comma (fit_row (length (t_columns t)) row)) (t_rows t))))"

section \<open>What the reader makes of what the writer wrote\<close>

text \<open>A line break of two characters inside a cell is read back as one line feed.\<close>

fun crlf_to_lf :: "string \<Rightarrow> string" where
  "crlf_to_lf (c # d # s) = (if c = CR \<and> d = LF then LF # crlf_to_lf s else c # crlf_to_lf (d # s))"
| "crlf_to_lf s = s"

lemma crlf_no_lf: "LF \<notin> set a \<Longrightarrow> crlf_to_lf a = a"
  by (induction a rule: crlf_to_lf.induct) auto

lemma chop_cr_Cons: "a \<noteq> [] \<Longrightarrow> chop_cr (c # a) = c # chop_cr a"
  by (simp add: chop_cr_def)

lemma crlf_at_lf: "LF \<notin> set a \<Longrightarrow> crlf_to_lf (a @ LF # g) = chop_cr a @ LF # crlf_to_lf g"
proof (induction a)
  case Nil
  then show ?case by (cases g) (auto simp: chop_cr_def)
next
  case (Cons c a)
  show ?case
  proof (cases a)
    case Nil
    then show ?thesis using Cons.prems by (cases g) (auto simp: chop_cr_def)
  next
    case (Cons d a')
    with Cons.IH Cons.prems show ?thesis by (auto simp: chop_cr_Cons)
  qed
qed

lemma crlf_at_quote: "LF \<notin> set a \<Longrightarrow> crlf_to_lf (a @ DQ # g) = a @ DQ # crlf_to_lf g"
proof (induction a)
  case Nil
  then show ?case by (cases g) auto
next
  case (Cons c a)
  then show ?case by (cases a) auto
qed


text \<open>Reading a line from inside it.\<close>

lemma read_line_total: "t \<noteq> [] \<Longrightarrow> \<exists>l r. read_line t = Some (l, r)"
  by (auto simp: read_line_def Let_def split: list.split)

lemma read_line_prefix:
  assumes "LF \<notin> set p" and "t \<noteq> []" and "hd t = LF \<Longrightarrow> p = [] \<or> last p \<noteq> CR"
  shows "read_line (p @ t) = map_option (\<lambda>(l, r). (p @ l, r)) (read_line t)"
proof -
  let ?w = "takeWhile (\<lambda>c. c \<noteq> LF) t"
  have tw: "takeWhile (\<lambda>c. c \<noteq> LF) (p @ t) = p @ ?w"
    and dw: "dropWhile (\<lambda>c. c \<noteq> LF) (p @ t) = dropWhile (\<lambda>c. c \<noteq> LF) t"
    using assms(1) by (auto simp: takeWhile_append dropWhile_append)
  have ch: "chop_cr (p @ ?w) = p @ chop_cr ?w"
  proof (cases "?w = []")
    case True
    with assms(2) have "hd t = LF" by (cases t) (auto split: if_splits)
    with assms(3) True show ?thesis by (auto simp: chop_cr_def)
  qed (simp add: chop_cr_def butlast_append)
  show ?thesis
    unfolding read_line_def tw dw ch Let_def using assms(2)
    by (cases "dropWhile (\<lambda>c. c \<noteq> LF) t") (simp_all del: takeWhile_eq_all_conv dropWhile_eq_Nil_conv)
qed

lemma read_line_lf: "read_line (LF # s) = Some ([LF], s)"
  by (simp add: read_line_def chop_cr_def)

lemma read_line_break:
  "LF \<notin> set a \<Longrightarrow> read_line (a @ LF # s) = Some (chop_cr a @ [LF], s)"
  by (simp add: read_line_def Let_def takeWhile_append dropWhile_append)

text \<open>Where a separator is found.\<close>

lemma cut_at_step: "\<not> prefix sep (c # s) \<Longrightarrow> cut_at sep (c # s) = map_option (\<lambda>(a, b). (c # a, b)) (cut_at sep s)"
  by (subst cut_at.simps) simp

lemma cut_at_here: "cut_at sep (sep @ x) = Some ([], x)"
  by (subst cut_at.simps) simp

lemma contains_Cons: "contains (c # f) sep \<longleftrightarrow> prefix sep (c # f) \<or> contains f sep"
  by (simp add: contains_def sublist_Cons_right)

lemma cut_at_first:
  assumes "sep \<noteq> []" and "hd sep \<notin> set (tl sep)" and "\<not> contains f sep"
  shows "cut_at sep (f @ sep @ x) = Some (f, x)"
  using assms(3)
proof (induction f)
  case Nil
  then show ?case by (simp add: cut_at_here)
next
  case (Cons c f)
  have no: "\<not> prefix sep (c # f)" and rest: "\<not> contains f sep"
    using Cons.prems by (auto simp: contains_Cons)
  have "\<not> prefix sep (c # f @ sep @ x)"
  proof
    assume "prefix sep (c # f @ sep @ x)"
    then have "prefix sep ((c # f) @ (sep @ x))" by simp
    then have "\<exists>q. sep = (c # f) @ q \<and> prefix q (sep @ x)"
      using no unfolding prefix_append by blast
    then obtain q where q: "sep = (c # f) @ q" "prefix q (sep @ x)" by blast
    have "q \<noteq> []" using no unfolding q(1) by auto
    then have "hd q = hd (sep @ x)" using q(2) by (auto simp: prefix_def)
    then have "hd q = hd sep" using assms(1) by simp
    moreover have "hd q \<in> set (tl sep)" unfolding q(1) using \<open>q \<noteq> []\<close> by simp
    ultimately show False using assms(2) by simp
  qed
  with Cons.IH [OF rest] show ?case by (simp add: cut_at_step)
qed

lemma cut_at_absent: "\<not> contains f sep \<Longrightarrow> c \<notin> set sep \<Longrightarrow> sep \<noteq> [] \<Longrightarrow> cut_at sep (f @ [c]) = None"
proof (rule ccontr)
  assume a: "\<not> contains f sep" "c \<notin> set sep" "sep \<noteq> []" "cut_at sep (f @ [c]) \<noteq> None"
  then obtain x y where "cut_at sep (f @ [c]) = Some (x, y)" by auto
  then have e: "f @ [c] = x @ sep @ y" by (rule cut_at_Some)
  have "y \<noteq> []"
  proof
    assume "y = []"
    with e have "last (f @ [c]) = last (x @ sep)" by simp
    with a(3) have "c = last sep" by (simp add: last_append)
    with a(2,3) show False by auto
  qed
  then obtain z where "y = z @ [c]" using e by (metis append_is_Nil_conv last_append last_snoc append_butlast_last_id)
  with e have "f = x @ sep @ z" by simp
  with a(1) show False by (auto simp: contains_def sublist_def)
qed

text \<open>The first byte of an encoding is not among the others.\<close>

lemma encode_rune_bytes:
  assumes "valid_rune r"
  shows "r < 128 \<and> encode_rune r = [char_of r] \<or>
    (\<exists>c s. encode_rune r = c # s \<and> 192 \<le> byte_val c \<and> (\<forall>x \<in> set s. 128 \<le> byte_val x \<and> byte_val x < (192::nat)))"
proof -
  have cont: "byte_val (char_of (128 + k mod 64 :: nat) :: char) = 128 + k mod 64" for k :: nat
    by (simp add: of_char_of)
  have lead: "byte_val (char_of (k::nat) :: char) = k" if "k < 256" for k using that by (simp add: of_char_of)
  have le: "r \<le> 1114111" "\<not> (55296 \<le> r \<and> r \<le> 57343)" using assms by (auto simp: valid_rune_def)
  consider (a) "r < 128" | (b) "128 \<le> r" "r < 2048" | (c) "2048 \<le> r" "r < 65536" | (d) "65536 \<le> r" by linarith
  then show ?thesis
  proof cases
    case a
    then show ?thesis by (simp add: encode_rune_def)
  next
    case b
    have "encode_rune r = [char_of (192 + r div 64), char_of (128 + r mod 64)]"
      using b by (auto simp: encode_rune_def)
    moreover have "192 + r div 64 < 256" using b by auto
    ultimately show ?thesis by (auto simp: cont lead)
  next
    case c
    have "encode_rune r = [char_of (224 + r div 4096), char_of (128 + (r div 64) mod 64), char_of (128 + r mod 64)]"
      using c le by (auto simp: encode_rune_def)
    moreover have "224 + r div 4096 < 256" using c by auto
    ultimately show ?thesis by (auto simp: cont lead)
  next
    case d
    have "encode_rune r = [char_of (240 + r div 262144), char_of (128 + (r div 4096) mod 64),
            char_of (128 + (r div 64) mod 64), char_of (128 + r mod 64)]"
      using d le by (auto simp: encode_rune_def Let_def)
    moreover have "240 + r div 262144 < 256" using le by auto
    ultimately show ?thesis by (auto simp: cont lead)
  qed
qed

lemma sep_bytes:
  assumes "valid_delim d"
  shows "hd (encode_rune d) \<notin> set (tl (encode_rune d))" "LF \<notin> set (encode_rune d)" "CR \<notin> set (encode_rune d)"
    "DQ \<notin> set (encode_rune d)"
proof -
  from assms have v: "valid_rune d" "d \<noteq> 10" "d \<noteq> 13" "d \<noteq> 34" by (auto simp: valid_delim_def)
  from encode_rune_bytes [OF v(1)]
  have "hd (encode_rune d) \<notin> set (tl (encode_rune d)) \<and> 10 \<notin> byte_val ` set (encode_rune d) \<and>
      13 \<notin> byte_val ` set (encode_rune d) \<and> (34::nat) \<notin> byte_val ` set (encode_rune d)"
  proof (elim disjE conjE exE)
    fix c s assume e: "encode_rune d = c # s" and b: "192 \<le> byte_val c" "\<forall>x \<in> set s. 128 \<le> byte_val x \<and> byte_val x < (192::nat)"
    have "byte_val c \<noteq> byte_val x" if "x \<in> set s" for x using b that by fastforce
    then have "c \<notin> set s" by blast
    moreover have "128 \<le> (byte_val x :: nat)" if "x \<in> set (c # s)" for x using b that by (cases "x = c") auto
    ultimately show ?thesis unfolding e by fastforce
  next
    assume d: "d < 128" and e: "encode_rune d = [char_of d]"
    then have "byte_val (char_of d :: char) = d" by (simp add: of_char_of)
    with v show ?thesis unfolding e by simp
  qed
  then show "hd (encode_rune d) \<notin> set (tl (encode_rune d))" "LF \<notin> set (encode_rune d)" "CR \<notin> set (encode_rune d)"
    "DQ \<notin> set (encode_rune d)"
    by (force simp: image_iff)+
qed

lemma next_rune_sep: "valid_delim d \<Longrightarrow> next_rune (encode_rune d @ x) = d"
proof -
  assume "valid_delim d"
  then have "valid_rune d" by (simp add: valid_delim_def)
  from decode_encode_rune [OF this, of x] show ?thesis by (auto simp: next_rune_def)
qed

lemma next_rune_lf [simp]: "next_rune [LF] = 10"
  by (simp add: next_rune_def)

section \<open>Quoted fields\<close>

lemma cut_quote: "DQ \<notin> set a \<Longrightarrow> cut_at [DQ] (a @ DQ # x) = Some (a, x)"
  using cut_at_first [of "[DQ]" a x] by (simp add: contains_def sublist_def in_set_conv_decomp)

lemma cut_quote_None: "DQ \<notin> set a \<Longrightarrow> cut_at [DQ] a = None"
  by (rule ccontr) (auto dest!: cut_at_Some)

lemma quoted_skip:
  "DQ \<notin> set a \<Longrightarrow> csv_quoted d acc (a @ DQ # x) r = csv_quoted d (acc @ a) (DQ # x) r"
  by (subst (1 2) csv_quoted.simps) (simp add: cut_quote cut_quote [of "[]", simplified])

lemma escape_append: "escape_quotes (a @ b) = escape_quotes a @ escape_quotes b"
  by (induction a) auto

lemma escape_id: "DQ \<notin> set a \<Longrightarrow> escape_quotes a = a"
  by (induction a) auto

lemma quoted_field:
  assumes "read_line (escape_quotes f @ DQ # u) = Some (line, rest)" and "read_line u = Some (lu, ru)" and "u \<noteq> []"
  shows "csv_quoted d acc line rest = csv_quoted d (acc @ crlf_to_lf f) (DQ # lu) ru"
  using assms(1)
proof (induction f arbitrary: acc line rest rule: measure_induct_rule [of length])
  case (less f)
  define a where "a = takeWhile (\<lambda>c. c \<noteq> DQ \<and> c \<noteq> LF) f"
  define f' where "f' = dropWhile (\<lambda>c. c \<noteq> DQ \<and> c \<noteq> LF) f"
  have f: "f = a @ f'" by (simp add: a_def f'_def)
  have a: "DQ \<notin> set a" "LF \<notin> set a" by (auto simp: a_def dest: set_takeWhileD)
  have dqu: "read_line (DQ # u) = Some (DQ # lu, ru)"
    using read_line_prefix [of "[DQ]" u] assms(2,3) by simp
  show ?case
  proof (cases f')
    case Nil
    then have "line = a @ DQ # lu" "rest = ru"
      using less.prems f a dqu read_line_prefix [of a "DQ # u"] by (auto simp: escape_id)
    with a f Nil show ?thesis by (simp add: quoted_skip crlf_no_lf)
  next
    case (Cons c g)
    have "c = DQ \<or> c = LF" using Cons by (auto simp: f'_def dropWhile_eq_Cons_conv)
    moreover have g: "length g < length f" by (simp add: f Cons)
    moreover obtain l r where lr: "read_line (escape_quotes g @ DQ # u) = Some (l, r)"
      using read_line_total by blast
    moreover have ?thesis if c: "c = DQ"
    proof -
      have "read_line ((a @ [DQ, DQ]) @ escape_quotes g @ DQ # u) = Some ((a @ [DQ, DQ]) @ l, r)"
        using read_line_prefix [of "a @ [DQ, DQ]" "escape_quotes g @ DQ # u"] a lr by auto
      then have "line = a @ DQ # DQ # l" "rest = r"
        using less.prems f Cons c a by (auto simp: escape_append escape_id)
      then have "csv_quoted d acc line rest = csv_quoted d (acc @ a @ [DQ]) l r"
        by (subst csv_quoted.simps) (simp add: cut_quote a)
      with less.IH [OF g lr] show ?thesis by (simp add: f Cons c crlf_at_quote a)
    qed
    moreover have ?thesis if c: "c = LF"
    proof -
      have "line = chop_cr a @ [LF]" "rest = escape_quotes g @ DQ # u"
        using less.prems f Cons c a by (auto simp: escape_append escape_id read_line_break)
      moreover have "DQ \<notin> set (chop_cr a @ [LF])" using a by (auto simp: chop_cr_def dest: in_set_butlastD)
      ultimately have "csv_quoted d acc line rest = csv_quoted d (acc @ chop_cr a @ [LF]) l r"
        by (subst csv_quoted.simps) (simp add: cut_quote_None lr)
      with less.IH [OF g lr] show ?thesis by (simp add: f Cons c crlf_at_lf a)
    qed
    ultimately show ?thesis by blast
  qed
qed


section \<open>Records\<close>

lemma needs_no_quotes:
  assumes "\<not> field_needs_quotes d f"
  shows "LF \<notin> set f" "CR \<notin> set f" "DQ \<notin> set f" "\<not> contains f (encode_rune d)"
proof -
  have one: "encode_rune d = [char_of d]" if "d < 128" using that by (simp add: encode_rune_ascii)
  have "f = [] \<or> \<not> (if d < 128 then list_ex (\<lambda>c. c = LF \<or> c = CR \<or> c = DQ \<or> c = char_of d) f
      else contains f (encode_rune d) \<or> list_ex (\<lambda>c. c = DQ \<or> c = CR \<or> c = LF) f)"
    using assms unfolding field_needs_quotes_def by metis
  then have c: "f = [] \<or> (LF \<notin> set f \<and> CR \<notin> set f \<and> DQ \<notin> set f \<and>
      (if d < 128 then char_of d \<notin> set f else \<not> contains f (encode_rune d)))"
    by (auto simp: list_ex_iff)
  then show "LF \<notin> set f" "CR \<notin> set f" "DQ \<notin> set f" by auto
  have "\<not> contains f [x]" if "x \<notin> set f" for x using that by (auto simp: contains_def sublist_def)
  with c show "\<not> contains f (encode_rune d)" by (cases "d < 128") (auto simp: one contains_def)
qed

text \<open>The end of a field: the line goes on with a separator, or it ends.\<close>

lemma field_at_separator:
  assumes "valid_delim d" and "read_line u = Some (l, r)" and "u \<noteq> []"
    and "read_line (csv_field d f @ encode_rune d @ u) = Some (line, rest)"
  shows "csv_fields d line rest = (let (fs, s) = csv_fields d l r in (crlf_to_lf f # fs, s))"
proof -
  let ?sep = "encode_rune d"
  have sep: "read_line (?sep @ u) = Some (?sep @ l, r)"
  proof -
    have "last ?sep \<noteq> CR" using sep_bytes(3) [OF assms(1)] last_in_set [OF encode_rune_not_Nil, of d] by metis
    then show ?thesis using read_line_prefix [of ?sep u] sep_bytes(2) [OF assms(1)] assms(2,3) by simp
  qed
  have hd_sep: "hd (?sep @ x) \<noteq> DQ" "hd (?sep @ x) \<noteq> LF" for x
    using sep_bytes(2,4) [OF assms(1)] hd_in_set [OF encode_rune_not_Nil, of d] by (metis encode_rune_not_Nil hd_append2)+
  show ?thesis
  proof (cases "field_needs_quotes d f")
    case True
    then have "csv_field d f @ ?sep @ u = [DQ] @ (escape_quotes f @ DQ # ?sep @ u)" by (simp add: csv_field_def)
    moreover obtain l' r' where lr: "read_line (escape_quotes f @ DQ # ?sep @ u) = Some (l', r')"
      using read_line_total by blast
    ultimately have line: "line = DQ # l'" "rest = r'"
      using assms(4) read_line_prefix [of "[DQ]" "escape_quotes f @ DQ # ?sep @ u"] by auto
    have "csv_fields d line rest = csv_quoted d [] l' r'"
      by (subst csv_fields.simps) (simp add: line)
    also have "\<dots> = csv_quoted d (crlf_to_lf f) (DQ # ?sep @ l) r"
      using quoted_field [OF lr sep] by simp
    also have "\<dots> = (let (fs, s) = csv_fields d l r in (crlf_to_lf f # fs, s))"
      by (subst csv_quoted.simps)
         (simp add: cut_quote [of "[]", simplified] hd_sep(1) [of l, simplified] next_rune_sep [OF assms(1)])
    finally show ?thesis .
  next
    case False
    note f = needs_no_quotes [OF False]
    have "last f \<noteq> CR" if "f \<noteq> []" using f(2) last_in_set [OF that] by auto
    then have line: "line = f @ ?sep @ l" "rest = r"
      using assms(4) False read_line_prefix [of f "?sep @ u"] f(1) sep by (auto simp: csv_field_def)
    have "hd line \<noteq> DQ"
      using hd_sep(1) f(3) by (cases f) (auto simp: line)
    moreover have "cut_at ?sep line = Some (f, l)"
      unfolding line by (rule cut_at_first) (use sep_bytes(1) [OF assms(1)] f(4) in auto)
    ultimately show ?thesis
      by (subst csv_fields.simps) (simp add: line(2) crlf_no_lf [OF f(1)])
  qed
qed

lemma field_at_end:
  assumes "valid_delim d" and "read_line (csv_field d f @ LF # s) = Some (line, rest)"
  shows "csv_fields d line rest = ([crlf_to_lf f], s)"
proof (cases "field_needs_quotes d f")
  case True
  then have "csv_field d f @ LF # s = [DQ] @ (escape_quotes f @ DQ # LF # s)" by (simp add: csv_field_def)
  moreover obtain l' r' where lr: "read_line (escape_quotes f @ DQ # LF # s) = Some (l', r')"
    using read_line_total by blast
  ultimately have line: "line = DQ # l'" "rest = r'"
    using assms(2) read_line_prefix [of "[DQ]" "escape_quotes f @ DQ # LF # s"] by auto
  have "csv_fields d line rest = csv_quoted d [] l' r'"
    by (subst csv_fields.simps) (simp add: line)
  also have "\<dots> = csv_quoted d (crlf_to_lf f) (DQ # [LF]) s"
    using quoted_field [OF lr read_line_lf] by simp
  also have "\<dots> = ([crlf_to_lf f], s)"
    using assms(1) by (subst csv_quoted.simps) (simp add: cut_quote [of "[]", simplified] valid_delim_def)
  finally show ?thesis .
next
  case False
  note f = needs_no_quotes [OF False]
  have "last f \<noteq> CR" if "f \<noteq> []" using f(2) last_in_set [OF that] by metis
  then have "chop_cr f = f" by (auto simp: chop_cr_def)
  then have line: "line = f @ [LF]" "rest = s"
    using assms(2) False read_line_break [OF f(1), of s] by (auto simp: csv_field_def)
  have "hd line \<noteq> DQ" using f(3) by (cases f) (auto simp: line)
  moreover have "cut_at (encode_rune d) line = None"
    unfolding line by (rule cut_at_absent) (use sep_bytes(2) [OF assms(1)] f(4) in auto)
  ultimately show ?thesis
    by (subst csv_fields.simps) (simp add: line drop_lf_def crlf_no_lf [OF f(1)])
qed

lemma record_fields:
  assumes "valid_delim d" and "fs \<noteq> []" and "read_line (csv_record d fs @ s) = Some (line, rest)"
  shows "csv_fields d line rest = (map crlf_to_lf fs, s)"
  using assms(2,3)
proof (induction fs arbitrary: line rest)
  case (Cons f fs)
  show ?case
  proof (cases fs)
    case Nil
    with Cons.prems field_at_end [OF assms(1)] show ?thesis by (simp add: csv_record_def)
  next
    case (Cons g gs)
    then have "csv_record d fs @ s \<noteq> []" by (simp add: csv_record_def)
    with read_line_total obtain l r where lr: "read_line (csv_record d fs @ s) = Some (l, r)" by blast
    have "csv_record d (f # fs) @ s = csv_field d f @ encode_rune d @ csv_record d fs @ s"
      by (simp add: csv_record_def Cons)
    with Cons.prems have "read_line (csv_field d f @ encode_rune d @ csv_record d fs @ s) = Some (line, rest)" by simp
    from field_at_separator [OF assms(1) lr \<open>csv_record d fs @ s \<noteq> []\<close> this] Cons.IH [OF _ lr] Cons
    show ?thesis by simp
  qed
qed simp

text \<open>A record of one empty field is an empty line, which the reader passes over.\<close>

lemma record_line_not_empty:
  assumes "valid_delim d" and "fs \<noteq> []" and "fs \<noteq> [[]]"
    and "read_line (csv_record d fs @ s) = Some (line, rest)"
  shows "line \<noteq> [] \<and> line \<noteq> [LF]"
proof -
  obtain f gs where fs: "fs = f # gs" using assms(2) by (cases fs) auto
  define t where "t = csv_record d fs @ s"
  have hd: "t \<noteq> [] \<and> hd t \<noteq> LF \<and> hd t \<noteq> CR"
  proof (cases "f = []")
    case True
    with assms(3) fs obtain g gs' where "gs = g # gs'" by (cases gs) auto
    then have "t = encode_rune d @ csv_record d gs @ s"
      by (simp add: t_def fs True csv_record_def csv_field_def field_needs_quotes_def)
    moreover have "hd (encode_rune d) \<noteq> LF" "hd (encode_rune d) \<noteq> CR"
      using sep_bytes(2,3) [OF assms(1)] hd_in_set [OF encode_rune_not_Nil, of d] by metis+
    ultimately show ?thesis by simp
  next
    case False
    then have ne: "csv_field d f \<noteq> []" by (simp add: csv_field_def)
    have "hd (csv_field d f) \<noteq> LF \<and> hd (csv_field d f) \<noteq> CR"
      using needs_no_quotes(1,2) [of d f] hd_in_set [OF False] by (auto simp: csv_field_def)
    moreover have "\<exists>v. t = csv_field d f @ v"
      by (cases gs) (simp_all add: t_def fs csv_record_def)
    ultimately show ?thesis using ne by auto
  qed
  then obtain c t' where t: "t = c # t'" "c \<noteq> LF" "c \<noteq> CR" by (cases t) auto
  have "\<exists>l. line = c # l"
  proof (cases "t' = []")
    case True
    with assms(4) t show ?thesis by (auto simp: t_def [symmetric] read_line_def chop_cr_def)
  next
    case False
    then show ?thesis using read_line_prefix [of "[c]" t'] read_line_total [OF False] assms(4) t
      by (auto simp: t_def [symmetric])
  qed
  with t(2) show ?thesis by auto
qed

lemma read_written_record:
  assumes "valid_delim d" and "fs \<noteq> []"
  shows "read_record d (csv_record d fs @ s) =
    (if fs = [[]] then read_record d s else Some (map crlf_to_lf fs, s))"
proof (cases "fs = [[]]")
  case True
  then have "csv_record d fs @ s = LF # s" by (simp add: csv_record_def csv_field_def field_needs_quotes_def)
  then show ?thesis using True by (subst read_record.simps) (simp add: read_line_lf)
next
  case False
  have "csv_record d fs @ s \<noteq> []" by (simp add: csv_record_def)
  with read_line_total obtain l r where lr: "read_line (csv_record d fs @ s) = Some (l, r)" by blast
  from record_line_not_empty [OF assms False lr] record_fields [OF assms lr] lr False
  show ?thesis by (subst read_record.simps) simp
qed

lemma read_written_rows:
  assumes "valid_delim d" and "\<forall>fs \<in> set rs. fs \<noteq> []"
    and "int (length rows + length (filter (\<lambda>r. \<not> blank_record r) (map (map crlf_to_lf) rs))) \<le> m"
  shows "read_rows d m rows (concat (map (csv_record d) rs)) =
    (rows @ filter (\<lambda>r. \<not> blank_record r) (map (map crlf_to_lf) rs), False)"
  using assms(2,3)
proof (induction rs arbitrary: rows)
  case Nil
  have "read_record d [] = None" by (subst read_record.simps) (simp add: read_line_def)
  then show ?case by (subst read_rows.simps) simp
next
  case (Cons fs rs)
  let ?s = "concat (map (csv_record d) rs)"
  have fs: "fs \<noteq> []" using Cons.prems by simp
  note rr = read_written_record [OF assms(1) fs, of ?s]
  show ?case
  proof (cases "fs = [[]]")
    case True
    then have "read_rows d m rows (concat (map (csv_record d) (fs # rs))) = read_rows d m rows ?s"
      using rr by (subst (1 2) read_rows.simps) simp
    with Cons True show ?thesis by (simp add: blank_record_def)
  next
    case False
    with rr have r: "read_record d (concat (map (csv_record d) (fs # rs))) = Some (map crlf_to_lf fs, ?s)" by simp
    show ?thesis
    proof (cases "blank_record (map crlf_to_lf fs)")
      case True
      then show ?thesis using Cons by (subst read_rows.simps) (simp only: r, simp)
    next
      case F: False
      then have "\<not> m \<le> int (length rows)" using Cons.prems(2) by simp
      then show ?thesis using Cons F by (subst read_rows.simps) (simp only: r, simp)
    qed
  qed
qed


section \<open>A table written and read back\<close>

text \<open>The records of a table as they come back: its columns, then its rows, padded or cut to them.\<close>

definition table_records :: "table \<Rightarrow> string list list" where
  "table_records t =
     filter (\<lambda>r. \<not> blank_record r)
       (map (map crlf_to_lf) (t_columns t # map (fit_row (length (t_columns t))) (t_rows t)))"

lemma length_fit_row [simp]: "length (fit_row n row) = n"
  by (simp add: fit_row_def)

lemma strip_bom_append [simp]: "strip_bom (bom @ s) = s"
  by (simp add: strip_bom_def bom_def)

lemma option_delimiter_encoded:
  assumes "valid_delim d"
  shows "option_delimiter (encode_rune d) s = Inr d"
proof -
  have v: "valid_rune d" "d \<noteq> rune_error" using assms by (auto simp: valid_delim_def)
  from decode_encode_rune [OF v(1), of "[]"] obtain c t
    where "encode_rune d = c # t" "decode_rune c t = (d, Suc (length t))" by auto
  with v(2) show ?thesis by (simp add: option_delimiter_def)
qed

lemma parse_written:
  assumes "write_delimited t d with_bom = Inr bytes"
    and "with_bom \<or> \<not> prefix bom bytes"
    and "t_columns t \<noteq> []" and "opt_delimiter opts = encode_rune d"
    and "int (length (table_records t)) \<le> lim_rows (opt_limits opts)"
  shows "parse_delimited bytes opts =
    bind_r (header_or_numbered (table_records t) (opt_header opts) (opt_limits opts)) (\<lambda>(columns, body).
      Inr \<lparr>t_columns = columns, t_rows = body, t_sheets = [], t_truncated = False\<rparr>)"
proof -
  let ?rs = "t_columns t # map (fit_row (length (t_columns t))) (t_rows t)"
  have d: "valid_delim d" and b: "bytes = (if with_bom then bom else []) @ concat (map (csv_record d) ?rs)"
    using assms(1) by (auto simp: write_delimited_def o_def split: if_splits)
  have s: "strip_bom bytes = concat (map (csv_record d) ?rs)"
    using assms(2) by (cases with_bom) (simp_all only: b strip_bom_append if_True if_False append_Nil,
      simp add: strip_bom_def)
  have ne: "\<forall>fs \<in> set ?rs. fs \<noteq> []" using assms(3) by (auto simp flip: length_greater_0_conv)
  have "read_rows d (lim_rows (opt_limits opts)) [] (concat (map (csv_record d) ?rs)) = (table_records t, False)"
    using read_written_rows [OF d ne, of "[]" "lim_rows (opt_limits opts)"] assms(5)
    by (simp only: table_records_def list.size add_0 append_Nil)
  then show ?thesis
    by (simp only: parse_delimited_def Let_def s assms(4) option_delimiter_encoded [OF d] bind_r_simps d) simp
qed

lemma fit_row_same: "length row = n \<Longrightarrow> fit_row n row = row"
  by (simp add: fit_row_def)

lemma delimited_roundtrip_raw:
  assumes "write_delimited t d with_bom = Inr bytes"
    and "with_bom \<or> \<not> prefix bom bytes"
    and "t_columns t \<noteq> []" and "\<not> blank_record (map crlf_to_lf (t_columns t))"
    and "opt_delimiter opts = encode_rune d" and "opt_header opts"
    and "int (length (t_rows t)) < lim_rows (opt_limits opts)"
    and "int (length (t_columns t)) \<le> lim_columns (opt_limits opts)"
  shows "parse_delimited bytes opts = Inr
    \<lparr>t_columns = map (header_name (map crlf_to_lf (t_columns t))) [0 ..< length (t_columns t)],
     t_rows = filter (\<lambda>r. \<not> blank_record r)
       (map (\<lambda>row. map crlf_to_lf (fit_row (length (t_columns t)) row)) (t_rows t)),
     t_sheets = [], t_truncated = False\<rparr>"
proof -
  let ?body = "filter (\<lambda>r. \<not> blank_record r)
      (map (\<lambda>row. map crlf_to_lf (fit_row (length (t_columns t)) row)) (t_rows t))"
  have r: "table_records t = map crlf_to_lf (t_columns t) # ?body"
    using assms(4) by (simp add: table_records_def o_def)
  have "length ?body \<le> length (t_rows t)" by (rule order_trans [OF length_filter_le]) simp
  then have "int (length (table_records t)) \<le> lim_rows (opt_limits opts)"
    using assms(7) unfolding r list.size by linarith
  note p = parse_written [OF assms(1,2,3,5) this]
  have "header_or_numbered (map crlf_to_lf (t_columns t) # ?body) True (opt_limits opts) =
      Inr (map (header_name (map crlf_to_lf (t_columns t))) [0 ..< length (map crlf_to_lf (t_columns t))], ?body)"
    by (rule header_or_numbered_header) (use assms(8) in auto)
  then show ?thesis using assms(6) unfolding p r by (simp del: upt_Suc)
qed

end
