(* ===== verification/Dataio_Xml.thy ===== *)
theory Dataio_Xml
  imports Dataio_Table
begin

text \<open>
  Records in XML: \<open>server/internal/dataio/xml.go\<close>. The tokens \<open>encoding/xml\<close> finds in a file, and the
  error it stops at, are a parameter; so is the order in which Go visits the attributes of an element.
\<close>

section \<open>Elements\<close>

datatype xml_token =
    StartElement string "(string \<times> string) list"
  | EndElement
  | CharData string
  | OtherToken

datatype xnode = XNode (x_name: string) (x_attrs: "string \<rightharpoonup> string") (x_text: string) (x_children: "xnode list")

definition attr_map :: "(string \<times> string) list \<Rightarrow> string \<rightharpoonup> string" where
  "attr_map as = foldl (\<lambda>m (k, v). m(k \<mapsto> v)) Map.empty as"

fun add_child :: "xnode \<Rightarrow> xnode \<Rightarrow> xnode" where
  "add_child (XNode n a s cs) c = XNode n a s (cs @ [c])"

fun add_text :: "xnode \<Rightarrow> string \<Rightarrow> xnode" where
  "add_text (XNode n a s cs) t = XNode n a (s @ t) cs"

text \<open>
  The stack of open elements, innermost first. An element is put among the children of its parent
  when it is closed; while it is open the parent gets no other child, so the order is that of the code.
\<close>

fun xml_step :: "xml_token \<Rightarrow> xnode list \<Rightarrow> xnode list" where
  "xml_step (StartElement n as) st = XNode n (attr_map as) [] [] # st"
| "xml_step EndElement (n # p # st) = add_child p n # st"
| "xml_step (CharData t) (n # st) = add_text n t # st"
| "xml_step _ st = st"

fun close_all :: "xnode list \<Rightarrow> xnode" where
  "close_all (n # p # st) = close_all (add_child p n # st)"
| "close_all [n] = n"
| "close_all [] = XNode [] Map.empty [] []"

fun trim_text :: "xnode \<Rightarrow> xnode" where
  "trim_text (XNode n a s cs) = XNode n a (trim_space s) (map trim_text cs)"

definition xml_root :: xnode where
  "xml_root = XNode [] Map.empty [] []"

definition decode_xml :: "(string \<Rightarrow> xml_token list \<times> string option) \<Rightarrow> string \<Rightarrow> source_error + xnode" where
  "decode_xml tokens data =
     (case tokens data of
        (ts, Some msg) \<Rightarrow> Inl (XmlFailed msg)
      | (ts, None) \<Rightarrow>
          (let root = trim_text (close_all (fold xml_step ts [xml_root]))
           in if x_children root = [] then Inl NoXmlElements else Inr root))"

section \<open>The element that repeats\<close>

text \<open>The names of the elements with children of their own, in the order of the walk.\<close>

fun parent_names :: "xnode \<Rightarrow> string list" where
  "parent_names (XNode n a s cs) =
     concat (map (\<lambda>c. (if x_children c \<noteq> [] then [x_name c] else []) @ parent_names c) cs)"

definition most_repeated_element :: "xnode \<Rightarrow> string" where
  "most_repeated_element root =
     (let walked = parent_names root
      in fst (foldl (\<lambda>(best, best_count) name.
             if count_list walked name > best_count then (name, count_list walked name)
             else (best, best_count)) ([], 0) (sorted_list_of_set (set walked))))"

fun collect_nodes :: "xnode \<Rightarrow> string \<Rightarrow> xnode list" where
  "collect_nodes (XNode n a s cs) name =
     concat (map (\<lambda>c. if x_name c = name then [c] else collect_nodes c name) cs)"

section \<open>Columns\<close>

definition at_key :: "string \<Rightarrow> bool" where
  "at_key c = prefix ''@'' c"

definition add_key :: "string \<Rightarrow> string list \<Rightarrow> string list" where
  "add_key k cols = (if k \<in> set cols then cols else cols @ [k])"

definition record_keys :: "((string \<rightharpoonup> string) \<Rightarrow> string list) \<Rightarrow> xnode \<Rightarrow> string list" where
  "record_keys iter r = map (\<lambda>n. CHR ''@'' # n) (iter (x_attrs r)) @ map x_name (x_children r)"

definition seen_columns :: "((string \<rightharpoonup> string) \<Rightarrow> string list) \<Rightarrow> xnode list \<Rightarrow> string list" where
  "seen_columns iter records = fold add_key (concat (map (record_keys iter) records)) []"

text \<open>The comparison of \<open>sortAttributesFirst\<close>.\<close>

definition attribute_less :: "string \<Rightarrow> string \<Rightarrow> bool" where
  "attribute_less a b = (if at_key a \<noteq> at_key b then at_key a else if at_key a then a < b else False)"

definition sort_attributes_first :: "string list \<Rightarrow> string list" where
  "sort_attributes_first = stable_sort attribute_less"

section \<open>Rows\<close>

definition xml_cell :: "xnode \<Rightarrow> string \<Rightarrow> string" where
  "xml_cell r column =
     (if at_key column then (case x_attrs r (tl column) of Some v \<Rightarrow> v | None \<Rightarrow> [])
      else case find (\<lambda>c. x_name c = column) (x_children r) of Some c \<Rightarrow> x_text c | None \<Rightarrow> [])"

definition limited :: "int \<Rightarrow> 'a list \<Rightarrow> 'a list \<times> bool" where
  "limited m xs = (take (nat m) xs, m < int (length xs))"

section \<open>What FileMaker writes\<close>

fun find_fmp :: "xnode list \<Rightarrow> xnode option \<Rightarrow> xnode option" where
  "find_fmp [] r = r"
| "find_fmp (XNode n a s cs # rest) r =
     (if n = ''FMPXMLRESULT'' then Some (XNode n a s cs) else find_fmp rest (find_fmp cs r))"

definition children_named :: "string \<Rightarrow> xnode \<Rightarrow> xnode list" where
  "children_named name n = filter (\<lambda>c. x_name c = name) (x_children n)"

definition fmp_columns :: "xnode \<Rightarrow> string list" where
  "fmp_columns result =
     fold (\<lambda>field cols.
         cols @ [case x_attrs field ''NAME'' of
                   Some n \<Rightarrow> if n = [] then numbered (length cols) else n
                 | None \<Rightarrow> numbered (length cols)])
       (concat (map (children_named ''FIELD'') (children_named ''METADATA'' result))) []"

definition fmp_row :: "xnode \<Rightarrow> string list" where
  "fmp_row row =
     map (\<lambda>col. join [CHR 0x0A] (map x_text (children_named ''DATA'' col))) (children_named ''COL'' row)"

definition parse_fmp :: "xnode \<Rightarrow> options \<Rightarrow> table option" where
  "parse_fmp root opts =
     (case find_fmp (x_children root) None of
        None \<Rightarrow> None
      | Some result \<Rightarrow>
          (let columns = fmp_columns result;
               (rows, truncated) = limited (lim_rows (or_defaults (opt_limits opts)))
                 (concat (map (children_named ''ROW'') (children_named ''RESULTSET'' result)))
           in if columns = [] \<and> rows = [] then None
              else Some \<lparr>t_columns = columns, t_rows = map fmp_row rows, t_sheets = [], t_truncated = truncated\<rparr>))"

section \<open>Reading\<close>

definition xml_table :: "((string \<rightharpoonup> string) \<Rightarrow> string list) \<Rightarrow> limits \<Rightarrow> xnode list \<Rightarrow> source_error + table" where
  "xml_table iter l records =
     (let columns = sort_attributes_first (seen_columns iter records)
      in if int (length columns) > lim_columns l then Inl (TooManyColumns (length columns) (lim_columns l))
         else let (rs, truncated) = limited (lim_rows l) records
              in Inr \<lparr>t_columns = columns, t_rows = map (\<lambda>r. map (xml_cell r) columns) rs, t_sheets = [],
                      t_truncated = truncated\<rparr>)"

definition parse_xml :: "(string \<Rightarrow> xml_token list \<times> string option) \<Rightarrow> ((string \<rightharpoonup> string) \<Rightarrow> string list)
    \<Rightarrow> string \<Rightarrow> options \<Rightarrow> source_error + table" where
  "parse_xml tokens iter data opts =
     bind_r (decode_xml tokens data) (\<lambda>root.
       case parse_fmp root opts of
         Some t \<Rightarrow> Inr t
       | None \<Rightarrow>
           (let asked = trim_space (opt_element opts);
                element = (if asked = [] then most_repeated_element root else asked)
            in if element = [] then Inl NothingRepeats
               else let records = collect_nodes root element
                    in if records = [] then Inl (NoElements element)
                       else xml_table iter (opt_limits opts) records))"

section \<open>Sorting the columns\<close>

text \<open>Attributes come first, in order; the elements keep theirs.\<close>

lemma insert_by_attributes:
  assumes "list_all at_key as" and "list_all (\<lambda>c. \<not> at_key c) cs"
  shows "insert_by attribute_less x (as @ cs) =
    (if at_key x then insort x as @ cs else as @ x # cs)"
  using assms(1)
proof (induction as)
  case Nil
  then show ?case using assms(2) by (cases cs) (auto simp: attribute_less_def)
next
  case (Cons a as)
  then show ?case by (auto simp: attribute_less_def)
qed

lemma sort_attributes_split:
  "sort_attributes_first cols = sort (filter at_key cols) @ filter (\<lambda>c. \<not> at_key c) cols"
proof (induction cols)
  case (Cons c cols)
  have "list_all at_key (sort (filter at_key cols))" by (simp add: list_all_iff)
  moreover have "list_all (\<lambda>c. \<not> at_key c) (filter (\<lambda>c. \<not> at_key c) cols)" by (simp add: list_all_iff)
  ultimately show ?case
    using Cons insert_by_attributes [of _ _ c]
    by (simp add: sort_attributes_first_def)
qed (simp add: sort_attributes_first_def)

section \<open>Columns do not depend on the order of attributes\<close>

lemma add_keys_filter: "filter P (fold add_key ks cols) = fold add_key (filter P ks) (filter P cols)"
  by (induction ks arbitrary: cols) (auto simp: add_key_def)

lemma add_keys_distinct: "distinct cols \<Longrightarrow> distinct (fold add_key ks cols)"
  by (induction ks arbitrary: cols) (auto simp: add_key_def)

lemma add_keys_set: "set (fold add_key ks cols) = set cols \<union> set ks"
  by (induction ks arbitrary: cols) (auto simp: add_key_def)

lemma columns_canonical:
  assumes "\<And>m. m \<in> x_attrs ` set records \<Longrightarrow> set (iter m) = dom m"
  shows "sort_attributes_first (seen_columns iter records) =
    sorted_list_of_set {k. at_key k \<and> k \<in> (\<Union>r \<in> set records. (\<lambda>n. CHR ''@'' # n) ` dom (x_attrs r) \<union> x_name ` set (x_children r))}
      @ fold add_key (filter (\<lambda>c. \<not> at_key c) (concat (map (\<lambda>r. map x_name (x_children r)) records))) []"
proof -
  let ?ks = "concat (map (record_keys iter) records)"
  have keys: "set ?ks = (\<Union>r \<in> set records. (\<lambda>n. CHR ''@'' # n) ` dom (x_attrs r) \<union> x_name ` set (x_children r))"
    using assms by (fastforce simp: record_keys_def)
  have "distinct (filter at_key (seen_columns iter records))"
    by (simp add: seen_columns_def add_keys_distinct)
  then have attrs: "sort (filter at_key (seen_columns iter records)) =
      sorted_list_of_set (set (filter at_key (seen_columns iter records)))"
    by (metis sorted_list_of_set_sort_remdups distinct_remdups_id)
  have s: "set (filter at_key (seen_columns iter records)) =
      {k. at_key k \<and> k \<in> (\<Union>r \<in> set records. (\<lambda>n. CHR ''@'' # n) ` dom (x_attrs r) \<union> x_name ` set (x_children r))}"
    by (simp only: seen_columns_def set_filter add_keys_set keys) auto
  have "filter (\<lambda>c. \<not> at_key c) ?ks =
      filter (\<lambda>c. \<not> at_key c) (concat (map (\<lambda>r. map x_name (x_children r)) records))"
    by (induction records) (auto simp: record_keys_def at_key_def filter_map o_def)
  then have "filter (\<lambda>c. \<not> at_key c) (seen_columns iter records) =
      fold add_key (filter (\<lambda>c. \<not> at_key c) (concat (map (\<lambda>r. map x_name (x_children r)) records))) []"
    by (simp add: seen_columns_def add_keys_filter)
  then show ?thesis unfolding sort_attributes_split attrs s by simp
qed


section \<open>The shape of what is read\<close>

definition rectangular :: "table \<Rightarrow> bool" where
  "rectangular t \<longleftrightarrow> (\<forall>row \<in> set (t_rows t). length row = length (t_columns t))"

lemma limited_bound: "limited m xs = (ys, b) \<Longrightarrow> 0 \<le> m \<Longrightarrow> int (length ys) \<le> m \<and> (b \<longleftrightarrow> ys \<noteq> xs)"
  by (auto simp: limited_def dest: arg_cong [where f = length])

lemma xml_table_shape:
  assumes "xml_table iter l records = Inr t" and "0 \<le> lim_rows l"
  shows "rectangular t" and "distinct (t_columns t)" and "int (length (t_rows t)) \<le> lim_rows l"
    and "int (length (t_columns t)) \<le> lim_columns l"
proof -
  obtain rs b where lim: "limited (lim_rows l) records = (rs, b)" by (cases "limited (lim_rows l) records")
  let ?cols = "sort_attributes_first (seen_columns iter records)"
  have t: "t = \<lparr>t_columns = ?cols, t_rows = map (\<lambda>r. map (xml_cell r) ?cols) rs, t_sheets = [], t_truncated = b\<rparr>"
    and le: "int (length ?cols) \<le> lim_columns l"
    using assms(1) by (auto simp: xml_table_def lim Let_def split: if_splits)
  show "rectangular t" by (simp add: t rectangular_def)
  show "distinct (t_columns t)"
    by (simp add: t sort_attributes_first_def seen_columns_def add_keys_distinct)
  show "int (length (t_rows t)) \<le> lim_rows l" using limited_bound [OF lim assms(2)] by (simp add: t)
  show "int (length (t_columns t)) \<le> lim_columns l" using le by (simp add: t)
qed

text \<open>An element among the records is found under its name, and nothing inside a record is one.\<close>

lemma collect_names: "r \<in> set (collect_nodes n name) \<Longrightarrow> x_name r = name"
  by (induction n name rule: collect_nodes.induct) (auto split: if_splits)

text \<open>The most repeated element: no other name occurs more often, and of those as often it is the first.\<close>

lemma best_fold:
  assumes "sorted (names :: string list)" and "foldl (\<lambda>(b, k) n. if cnt n > k then (n, cnt n) else (b, k)) (b0, k0) names = (b, k)"
  shows "k0 \<le> k \<and> (\<forall>n \<in> set names. cnt n \<le> (k::nat)) \<and>
    (b = b0 \<and> k = k0 \<or> b \<in> set names \<and> k = cnt b \<and> k0 < k \<and> (\<forall>n \<in> set names. cnt n = k \<longrightarrow> b \<le> n))"
  using assms
proof (induction names arbitrary: b0 k0)
  case (Cons n names)
  show ?case
  proof (cases "cnt n > k0")
    case True
    with Cons.prems have "foldl (\<lambda>(b, k) n. if cnt n > k then (n, cnt n) else (b, k)) (n, cnt n) names = (b, k)" by simp
    from Cons.IH [OF _ this] Cons.prems(1) True show ?thesis by auto
  next
    case False
    with Cons.prems have "foldl (\<lambda>(b, k) n. if cnt n > k then (n, cnt n) else (b, k)) (b0, k0) names = (b, k)" by simp
    from Cons.IH [OF _ this] Cons.prems(1) False show ?thesis by auto
  qed
qed simp

lemma most_repeated:
  assumes "parent_names root \<noteq> []"
  shows "most_repeated_element root \<in> set (parent_names root)"
    and "count_list (parent_names root) n \<le> count_list (parent_names root) (most_repeated_element root)"
    and "n \<in> set (parent_names root) \<Longrightarrow>
      count_list (parent_names root) n = count_list (parent_names root) (most_repeated_element root) \<Longrightarrow>
      most_repeated_element root \<le> n"
proof -
  let ?w = "parent_names root"
  let ?names = "sorted_list_of_set (set ?w)"
  obtain b k where f: "foldl (\<lambda>(b, k) n. if count_list ?w n > k then (n, count_list ?w n) else (b, k)) ([], 0) ?names = (b, k)"
    by fastforce
  then have b: "most_repeated_element root = b" by (simp add: most_repeated_element_def Let_def)
  from assms obtain x where x: "x \<in> set ?w" by (cases ?w) auto
  then have "0 < count_list ?w x" by (metis count_list_0_iff gr0I)
  have "sorted ?names" by simp
  note best = best_fold [OF this f, unfolded set_sorted_list_of_set [OF finite_set]]
  from best x \<open>0 < count_list ?w x\<close> have k: "b \<in> set ?w" "k = count_list ?w b"
    by (auto dest: bspec [of _ _ x])
  then show "most_repeated_element root \<in> set ?w" by (simp add: b)
  show "count_list ?w n \<le> count_list ?w (most_repeated_element root)"
    using best k by (cases "n \<in> set ?w") (auto simp: b)
  show "n \<in> set ?w \<Longrightarrow> count_list ?w n = count_list ?w (most_repeated_element root) \<Longrightarrow> most_repeated_element root \<le> n"
    using best k x \<open>0 < count_list ?w x\<close> by (auto simp: b)
qed

text \<open>
  A file reads the same way every time: whatever order Go visits the attributes in, the outcome is the
  same table or the same error.
\<close>

lemma xml_columns_order:
  assumes "\<And>m. finite (dom m) \<Longrightarrow> set (iter m) = dom m" and "\<And>m. finite (dom m) \<Longrightarrow> set (iter' m) = dom m"
    and "\<And>r. r \<in> set records \<Longrightarrow> finite (dom (x_attrs r))"
  shows "xml_table iter l records = xml_table iter' l records"
proof -
  have "sort_attributes_first (seen_columns iter records) = sort_attributes_first (seen_columns iter' records)"
    by (subst (1 2) columns_canonical) (use assms in auto)
  then show ?thesis by (simp add: xml_table_def)
qed

text \<open>The attributes of an element are the finitely many of its tag.\<close>

inductive finite_attrs :: "xnode \<Rightarrow> bool" where
  "finite (dom a) \<Longrightarrow> (\<And>c. c \<in> set cs \<Longrightarrow> finite_attrs c) \<Longrightarrow> finite_attrs (XNode n a s cs)"

inductive_simps finite_attrs_node: "finite_attrs (XNode n a s cs)"

lemma finite_attr_map: "finite (dom (attr_map as))"
proof -
  have "finite (dom (foldl (\<lambda>m (k, v). m(k \<mapsto> v)) m as))" if "finite (dom m)" for m :: "string \<rightharpoonup> string"
    using that by (induction as arbitrary: m) auto
  then show ?thesis by (simp add: attr_map_def)
qed

lemma add_child_finite: "finite_attrs p \<Longrightarrow> finite_attrs c \<Longrightarrow> finite_attrs (add_child p c)"
  by (cases p) (auto simp: finite_attrs_node)

lemma xml_step_finite: "\<forall>n \<in> set st. finite_attrs n \<Longrightarrow> \<forall>n \<in> set (xml_step t st). finite_attrs n"
proof (induction t st rule: xml_step.induct)
  case (3 t n st)
  then show ?case by (cases n) (auto simp: finite_attrs_node)
qed (auto simp: finite_attrs_node finite_attr_map add_child_finite)

lemma xml_steps_finite: "\<forall>n \<in> set st. finite_attrs n \<Longrightarrow> \<forall>n \<in> set (fold xml_step ts st). finite_attrs n"
proof (induction ts arbitrary: st)
  case (Cons t ts)
  from Cons.IH [OF xml_step_finite [OF Cons.prems]] show ?case by simp
qed simp

lemma close_all_finite: "\<forall>n \<in> set st. finite_attrs n \<Longrightarrow> finite_attrs (close_all st)"
  by (induction st rule: close_all.induct) (auto simp: finite_attrs_node add_child_finite)

lemma trim_text_finite: "finite_attrs n \<Longrightarrow> finite_attrs (trim_text n)"
  by (induction n rule: finite_attrs.induct) (auto simp: finite_attrs_node)

lemma decode_xml_finite: "decode_xml tokens data = Inr root \<Longrightarrow> finite_attrs root"
  using trim_text_finite [OF close_all_finite [OF xml_steps_finite [of "[xml_root]"]]]
  by (auto simp: decode_xml_def Let_def xml_root_def finite_attrs_node split: prod.splits option.splits if_splits)

lemma collect_finite: "finite_attrs n \<Longrightarrow> r \<in> set (collect_nodes n name) \<Longrightarrow> finite (dom (x_attrs r))"
proof (induction n rule: finite_attrs.induct)
  case (1 a cs n s)
  from 1(4) obtain c where c: "c \<in> set cs" "r \<in> set (if x_name c = name then [c] else collect_nodes c name)" by auto
  from 1(2) [OF c(1)] have "finite (dom (x_attrs c))" by (cases c) (simp add: finite_attrs_node)
  with c 1(3) [OF c(1)] show ?case by (auto split: if_splits)
qed

text \<open>Decoding the tokens of an element gives it back, its texts trimmed.\<close>

fun node_tokens :: "xnode \<Rightarrow> (xnode \<Rightarrow> (string \<times> string) list) \<Rightarrow> xml_token list" where
  "node_tokens (XNode n a s cs) al =
     StartElement n (al (XNode n a s cs)) # CharData s # concat (map (\<lambda>c. node_tokens c al) cs) @ [EndElement]"

lemma decode_tokens:
  assumes "\<And>m. attr_map (al m) = x_attrs m"
  shows "fold xml_step (node_tokens n al) (p # st) = add_child p n # st"
proof (induction n arbitrary: p st)
  case (XNode n a s cs)
  have kids: "fold xml_step (concat (map (\<lambda>c. node_tokens c al) ds)) (q # st) = (foldl add_child q ds) # st"
    if "set ds \<subseteq> set cs" for ds q st
    using that XNode by (induction ds arbitrary: q) auto
  have "foldl add_child (XNode n a s es) ds = XNode n a s (es @ ds)" for es ds
    by (induction ds arbitrary: es) auto
  then show ?case using kids [of cs] assms [of "XNode n a s cs"] by simp
qed

end
