(* ===== verification/Dataio.thy ===== *)
theory Dataio
  imports Dataio_Csv Dataio_Xml
begin

text \<open>
  Reading and writing files: \<open>Parse\<close> of \<open>server/internal/dataio/dataio.go\<close>, the workbooks of \<open>xlsx.go\<close>
  and \<open>WriteXLSX\<close> of \<open>write.go\<close>. The library \<open>excelize\<close> is a parameter: a file is the names of its sheets
  and the rows of each.
\<close>

section \<open>Workbooks\<close>

record workbook =
  wb_sheets :: "string list"
  wb_rows :: "string \<Rightarrow> string + string list list"

definition is_blank_row :: "string list \<Rightarrow> bool" where
  "is_blank_row row = list_all (\<lambda>c. trim_space c = []) row"

definition xlsx_sheet :: "string list \<Rightarrow> string \<Rightarrow> source_error + string" where
  "xlsx_sheet sheets asked =
     (let sheet = trim_space asked
      in if sheet = [] then Inr (hd sheets)
         else if sheet \<in> set sheets then Inr sheet else Inl (NoSheetNamed sheet sheets))"

definition keep_rows :: "int \<Rightarrow> string list list \<Rightarrow> string list list \<times> bool" where
  "keep_rows m raw = limited m (filter (\<lambda>row. \<not> is_blank_row row) raw)"

definition parse_xlsx :: "(string \<Rightarrow> string + workbook) \<Rightarrow> string \<Rightarrow> options \<Rightarrow> source_error + table" where
  "parse_xlsx open_file data opts =
     (case open_file data of
        Inl msg \<Rightarrow> Inl (NotAWorkbook msg)
      | Inr wb \<Rightarrow>
          if wb_sheets wb = [] then Inl NoSheets
          else bind_r (xlsx_sheet (wb_sheets wb) (opt_sheet opts)) (\<lambda>sheet.
            case wb_rows wb sheet of
              Inl msg \<Rightarrow> Inl (RowsFailed msg)
            | Inr raw \<Rightarrow>
                let (rows, truncated) = keep_rows (lim_rows (opt_limits opts)) raw
                in bind_r (header_or_numbered rows (opt_header opts) (opt_limits opts)) (\<lambda>(columns, body).
                     Inr \<lparr>t_columns = columns, t_rows = body, t_sheets = wb_sheets wb, t_truncated = truncated\<rparr>)))"

section \<open>Any source\<close>

record source_env =
  se_open :: "string \<Rightarrow> string + workbook"
  se_tokens :: "string \<Rightarrow> xml_token list \<times> string option"
  se_attr_order :: "(string \<rightharpoonup> string) \<Rightarrow> string list"

definition parse_source :: "source_env \<Rightarrow> string \<Rightarrow> options \<Rightarrow> source_error + table" where
  "parse_source E data opts0 =
     (let opts = opts0\<lparr>opt_limits := or_defaults (opt_limits opts0)\<rparr>
      in if int (length data) > lim_bytes (opt_limits opts)
         then Inl (TooManyBytes (length data) (lim_bytes (opt_limits opts)))
         else case opt_format opts of
                FormatXLSX \<Rightarrow> parse_xlsx (se_open E) data opts
              | FormatXML \<Rightarrow> parse_xml (se_tokens E) (se_attr_order E) data opts
              | FormatTSV \<Rightarrow>
                  parse_delimited data
                    (if opt_delimiter opts = [] then opts\<lparr>opt_delimiter := [CHR 0x09]\<rparr> else opts)
              | _ \<Rightarrow> parse_delimited data opts)"

section \<open>Writing a workbook\<close>

definition forbidden_in_sheet :: "char list" where
  "forbidden_in_sheet = [CHR ''/'', CHR 0x5C, CHR ''?'', CHR ''*'', CHR ''['', CHR '']'', CHR '':'']"

definition xlsx_sheet_name :: "string \<Rightarrow> string" where
  "xlsx_sheet_name asked =
     (let name = (if trim_space asked = [] then ''Sheet1'' else trim_space asked);
          name = fold (\<lambda>bad n. replace_all n [bad] ''-'') forbidden_in_sheet name
      in take 31 name)"

text \<open>The calls on the library: renaming the sheet, the name of a cell, setting one, writing the file.\<close>

record 'f xlsx_lib =
  xl_new :: 'f
  xl_rename :: "string \<Rightarrow> string \<Rightarrow> 'f \<Rightarrow> string + 'f"
  xl_axis :: "nat \<Rightarrow> nat \<Rightarrow> string + string"
  xl_set :: "string \<Rightarrow> string \<Rightarrow> string \<Rightarrow> 'f \<Rightarrow> string + 'f"
  xl_bytes :: "'f \<Rightarrow> string + string"

definition write_row :: "'f xlsx_lib \<Rightarrow> string \<Rightarrow> nat \<Rightarrow> string list \<Rightarrow> 'f \<Rightarrow> string + 'f" where
  "write_row X name row cells f =
     fold_r (\<lambda>(c, v) f. bind_r (xl_axis X (c + 1) row) (\<lambda>axis. xl_set X name axis v f))
       (zip [0 ..< length cells] cells) f"

definition write_xlsx :: "'f xlsx_lib \<Rightarrow> table \<Rightarrow> string \<Rightarrow> string + string" where
  "write_xlsx X t asked =
     (let name = xlsx_sheet_name asked
      in bind_r (xl_rename X ''Sheet1'' name (xl_new X)) (\<lambda>f.
         bind_r (write_row X name 1 (t_columns t) f) (\<lambda>f.
         bind_r (fold_r (\<lambda>(i, row) f. write_row X name (i + 2) row f)
                   (zip [0 ..< length (t_rows t)] (t_rows t)) f) (\<lambda>f.
         xl_bytes X f))))"

section \<open>Sheet names\<close>

text \<open>A sheet name is not empty, is at most 31 bytes and has none of the characters a sheet may not have.\<close>

lemma replace_one: "set (replace_all s [c] [d]) \<subseteq> insert d (set s - {c})"
  by (auto simp: replace_all_char split: if_splits)

lemma replace_one_not_Nil: "replace_all s [c] [d] = [] \<longleftrightarrow> s = []"
  by (cases s) (auto simp: replace_all_char)

lemma replace_forbidden:
  "set (fold (\<lambda>bad n. replace_all n [bad] ''-'') bads s) \<subseteq> insert (CHR ''-'') (set s - set bads)"
proof (induction bads arbitrary: s)
  case (Cons b bads)
  have "set (fold (\<lambda>bad n. replace_all n [bad] ''-'') bads (replace_all s [b] ''-''))
      \<subseteq> insert (CHR ''-'') (set (replace_all s [b] ''-'') - set bads)" by (rule Cons)
  with replace_one [of s b "CHR ''-''"] show ?case by auto
qed auto

lemma replace_forbidden_Nil: "fold (\<lambda>bad n. replace_all n [bad] ''-'') bads s = [] \<longleftrightarrow> s = []"
  by (induction bads arbitrary: s) (auto simp: replace_one_not_Nil)

lemma sheet_name_accepted:
  "xlsx_sheet_name asked \<noteq> []" "length (xlsx_sheet_name asked) \<le> 31"
  "set (xlsx_sheet_name asked) \<inter> set forbidden_in_sheet = {}"
proof -
  let ?n = "if trim_space asked = [] then ''Sheet1'' else trim_space asked"
  have n: "xlsx_sheet_name asked = take 31 (fold (\<lambda>bad n. replace_all n [bad] ''-'') forbidden_in_sheet ?n)"
    by (simp only: xlsx_sheet_name_def Let_def)
  show "xlsx_sheet_name asked \<noteq> []" by (simp add: n replace_forbidden_Nil)
  show "length (xlsx_sheet_name asked) \<le> 31" by (simp add: n)
  have "CHR ''-'' \<notin> set forbidden_in_sheet" by (simp add: forbidden_in_sheet_def)
  with replace_forbidden [of forbidden_in_sheet ?n] show "set (xlsx_sheet_name asked) \<inter> set forbidden_in_sheet = {}"
    unfolding n by (blast dest: in_set_takeD)
qed

section \<open>Limits\<close>

lemma read_rows_step:
  assumes "read_record d s = Some (rc, rest)"
  shows "read_rows d m rows s =
    (if blank_record rc then read_rows d m rows rest
     else if m \<le> int (length rows) then (rows, True) else read_rows d m (rows @ [rc]) rest)"
  by (subst read_rows.simps) (simp add: assms)

lemma read_rows_bound:
  "int (length rows) \<le> m \<Longrightarrow> int (length (fst (read_rows d m rows s))) \<le> m"
proof (induction d m rows s rule: read_rows.induct)
  case (1 d m rows s)
  show ?case
  proof (cases "read_record d s")
    case None
    with 1 show ?thesis by (subst read_rows.simps) simp
  next
    case (Some x)
    obtain rc rest where x: "x = (rc, rest)" by (cases x)
    note step = read_rows_step [OF Some [unfolded x], of m rows]
    show ?thesis
    proof (cases "blank_record rc")
      case True
      then show ?thesis using 1(1) [OF Some x [symmetric] True 1(3)] by (simp only: step if_True)
    next
      case F: False
      show ?thesis
      proof (cases "m \<le> int (length rows)")
        case True
        then show ?thesis using F 1(3) by (simp only: step if_True if_False fst_conv)
      next
        case False
        then have "int (length (rows @ [rc])) \<le> m" by simp
        from 1(2) [OF Some x [symmetric] F False this] False F show ?thesis by (simp only: step if_False)
      qed
    qed
  qed
qed

lemma parse_delimited_limits:
  assumes "parse_delimited data opts = Inr t" and "0 \<le> lim_rows (opt_limits opts)"
  shows "int (length (t_rows t)) \<le> lim_rows (opt_limits opts)"
    and "int (length (t_columns t)) \<le> lim_columns (opt_limits opts)"
    and "\<forall>row \<in> set (t_rows t). length row \<le> length (t_columns t)"
proof -
  from assms(1) obtain d rows b columns body where
    r: "read_rows d (lim_rows (opt_limits opts)) [] (strip_bom data) = (rows, b)"
    and h: "header_or_numbered rows (opt_header opts) (opt_limits opts) = Inr (columns, body)"
    and t: "t_columns t = columns" "t_rows t = body"
    by (auto simp: parse_delimited_def Let_def bind_r_Inr_iff split: if_splits prod.splits)
  have "length body \<le> length rows"
    using h by (auto simp: header_or_numbered_def Let_def split: if_splits list.splits)
  then show "int (length (t_rows t)) \<le> lim_rows (opt_limits opts)"
    using read_rows_bound [of "[]" "lim_rows (opt_limits opts)" d "strip_bom data"] r assms(2) by (simp add: t)
  show "int (length (t_columns t)) \<le> lim_columns (opt_limits opts)"
    "\<forall>row \<in> set (t_rows t). length row \<le> length (t_columns t)"
    using header_or_numbered_shape [OF h] by (simp_all add: t)
qed

lemma parse_xlsx_limits:
  assumes "parse_xlsx open_file data opts = Inr t" and "0 \<le> lim_rows (opt_limits opts)"
  shows "int (length (t_rows t)) \<le> lim_rows (opt_limits opts)"
    and "int (length (t_columns t)) \<le> lim_columns (opt_limits opts)"
    and "\<forall>row \<in> set (t_rows t). length row \<le> length (t_columns t)"
proof -
  from assms(1) obtain wb where wb: "open_file data = Inr wb" "wb_sheets wb \<noteq> []"
    by (cases "open_file data") (auto simp: parse_xlsx_def split: if_splits)
  with assms(1) obtain sheet where
    w: "(case wb_rows wb sheet of
          Inl msg \<Rightarrow> Inl (RowsFailed msg)
        | Inr raw \<Rightarrow>
            let (rows, truncated) = keep_rows (lim_rows (opt_limits opts)) raw
            in bind_r (header_or_numbered rows (opt_header opts) (opt_limits opts)) (\<lambda>(columns, body).
                 Inr \<lparr>t_columns = columns, t_rows = body, t_sheets = wb_sheets wb, t_truncated = truncated\<rparr>)) = Inr t"
    unfolding parse_xlsx_def wb(1) sum.case if_not_P [OF wb(2)] bind_r_Inr_iff by blast
  from w obtain raw where raw: "wb_rows wb sheet = Inr raw" by (cases "wb_rows wb sheet") auto
  obtain rows b where k: "keep_rows (lim_rows (opt_limits opts)) raw = (rows, b)"
    by (cases "keep_rows (lim_rows (opt_limits opts)) raw")
  from w raw k obtain columns body where
    h: "header_or_numbered rows (opt_header opts) (opt_limits opts) = Inr (columns, body)"
    and t: "t_columns t = columns" "t_rows t = body"
    by (auto simp: bind_r_Inr_iff)
  note r = k [unfolded keep_rows_def]
  have "length body \<le> length rows"
    using h by (auto simp: header_or_numbered_def Let_def split: if_splits list.splits)
  then show "int (length (t_rows t)) \<le> lim_rows (opt_limits opts)"
    using limited_bound [OF r assms(2)] by (simp add: t)
  show "int (length (t_columns t)) \<le> lim_columns (opt_limits opts)"
    "\<forall>row \<in> set (t_rows t). length row \<le> length (t_columns t)"
    using header_or_numbered_shape [OF h] by (simp_all add: t)
qed

lemma parse_fmp_limits:
  assumes "parse_fmp root opts = Some t"
  shows "int (length (t_rows t)) \<le> lim_rows (or_defaults (opt_limits opts))"
proof -
  from assms obtain raw rows b where
    "limited (lim_rows (or_defaults (opt_limits opts))) raw = (rows, b)" "t_rows t = map fmp_row rows"
    by (auto simp: parse_fmp_def Let_def split: option.splits prod.splits if_splits)
  with limited_bound [of "lim_rows (or_defaults (opt_limits opts))" raw rows b] or_defaults_positive(2) [of "opt_limits opts"]
  show ?thesis by simp
qed

text \<open>
  C29. A source that is read is within the limits of its import, the defaults where none is given: no
  more bytes, rows or columns than allowed, and no row has a cell past the columns. The columns of the
  grammar FileMaker writes are not counted.
\<close>

theorem source_within_limits:
  assumes "parse_source E data opts = Inr t"
  shows "int (length data) \<le> lim_bytes (or_defaults (opt_limits opts)) \<and>
    int (length (t_rows t)) \<le> lim_rows (or_defaults (opt_limits opts)) \<and>
    (int (length (t_columns t)) \<le> lim_columns (or_defaults (opt_limits opts)) \<and>
      (\<forall>row \<in> set (t_rows t). length row \<le> length (t_columns t)) \<or>
     opt_format opts = FormatXML \<and> (\<exists>root. decode_xml (se_tokens E) data = Inr root \<and>
       parse_fmp root (opts\<lparr>opt_limits := or_defaults (opt_limits opts)\<rparr>) = Some t))"
proof -
  let ?l = "or_defaults (opt_limits opts)"
  let ?o = "opts\<lparr>opt_limits := ?l\<rparr>"
  have pos: "0 \<le> lim_rows ?l" using or_defaults_positive(2) [of "opt_limits opts"] by simp
  from assms have bytes: "int (length data) \<le> lim_bytes ?l"
    by (auto simp: parse_source_def Let_def split: if_splits)
  have delimited: ?thesis if "parse_delimited data (?o\<lparr>opt_delimiter := d\<rparr>) = Inr t" for d
    using parse_delimited_limits [OF that] pos bytes by simp
  have plain: "?o\<lparr>opt_delimiter := opt_delimiter opts\<rparr> = ?o" by simp
  show ?thesis
  proof (cases "opt_format opts")
    case FormatCSV
    with assms bytes delimited [of "opt_delimiter opts"] plain show ?thesis
      by (simp add: parse_source_def Let_def)
  next
    case (FormatOther s)
    with assms bytes delimited [of "opt_delimiter opts"] plain show ?thesis
      by (simp add: parse_source_def Let_def)
  next
    case FormatTSV
    with assms bytes delimited [of "[CHR 0x09]"] delimited [of "opt_delimiter opts"] plain show ?thesis
      by (simp add: parse_source_def Let_def split: if_splits)
  next
    case FormatXLSX
    with assms bytes have "parse_xlsx (se_open E) data ?o = Inr t" by (simp add: parse_source_def Let_def)
    from parse_xlsx_limits [OF this] pos bytes show ?thesis by simp
  next
    case FormatXML
    with assms bytes have "parse_xml (se_tokens E) (se_attr_order E) data ?o = Inr t"
      by (simp add: parse_source_def Let_def)
    then obtain root where root: "decode_xml (se_tokens E) data = Inr root"
      and "parse_fmp root ?o = Some t \<or> (\<exists>records. xml_table (se_attr_order E) ?l records = Inr t)"
      by (auto simp: parse_xml_def bind_r_Inr_iff Let_def split: option.splits if_splits)
    then show ?thesis
    proof (elim disjE exE)
      assume f: "parse_fmp root ?o = Some t"
      from parse_fmp_limits [OF this] have "int (length (t_rows t)) \<le> lim_rows ?l" by simp
      with f root bytes FormatXML show ?thesis by blast
    next
      fix records assume x: "xml_table (se_attr_order E) ?l records = Inr t"
      from xml_table_shape [OF x pos] bytes show ?thesis by (auto simp: rectangular_def)
    qed
  qed
qed

text \<open>
  C26. What WriteDelimited writes, Parse reads back under the same separator: the columns under their
  trimmed names, every row padded or cut to them, each cell the same but for line breaks of two
  characters, which become one. Rows of a single blank cell are lost. The limits are those of the import.
\<close>

theorem delimited_roundtrip:
  assumes "write_delimited t d with_bom = Inr bytes"
    and "with_bom \<or> \<not> prefix bom bytes"
    and "t_columns t \<noteq> []" and "\<not> blank_record (map crlf_to_lf (t_columns t))"
    and "opt_format opts = FormatCSV" and "opt_delimiter opts = encode_rune d" and "opt_header opts"
    and "int (length bytes) \<le> lim_bytes (or_defaults (opt_limits opts))"
    and "int (length (t_rows t)) < lim_rows (or_defaults (opt_limits opts))"
    and "int (length (t_columns t)) \<le> lim_columns (or_defaults (opt_limits opts))"
  shows "parse_source E bytes opts = Inr
    \<lparr>t_columns = map (header_name (map crlf_to_lf (t_columns t))) [0 ..< length (t_columns t)],
     t_rows = filter (\<lambda>r. \<not> blank_record r)
       (map (\<lambda>row. map crlf_to_lf (fit_row (length (t_columns t)) row)) (t_rows t)),
     t_sheets = [], t_truncated = False\<rparr>"
  using delimited_roundtrip_raw [OF assms(1-4), of "opts\<lparr>opt_limits := or_defaults (opt_limits opts)\<rparr>"] assms(5-10)
  by (simp add: parse_source_def Let_def del: upt_Suc)

text \<open>
  An XML file reads the same way every time: whatever order Go visits the attributes of an element
  in, the outcome is the same table or the same error.
\<close>

theorem xml_reads_the_same:
  assumes "\<And>m. finite (dom m) \<Longrightarrow> set (iter m) = dom m" and "\<And>m. finite (dom m) \<Longrightarrow> set (iter' m) = dom m"
  shows "parse_source (E\<lparr>se_attr_order := iter\<rparr>) data opts = parse_source (E\<lparr>se_attr_order := iter'\<rparr>) data opts"
proof -
  have "parse_xml tokens iter data opts = parse_xml tokens iter' data opts" for tokens opts
  proof (cases "decode_xml tokens data")
    case (Inr root)
    have "xml_table iter l (collect_nodes root e) = xml_table iter' l (collect_nodes root e)" for l e
      by (rule xml_columns_order) (use assms collect_finite [OF decode_xml_finite [OF Inr]] in auto)
    then show ?thesis by (simp add: parse_xml_def Inr Let_def split: option.split)
  qed (simp add: parse_xml_def)
  then show ?thesis by (simp add: parse_source_def Let_def split: format.split)
qed


section \<open>Examples\<close>

definition demo_table :: table where
  "demo_table = \<lparr>t_columns = [''name'', ''note''], t_rows = [[''Ann'', [DQ, CHR ''x'', CHR '','', LF]], [''Bob'']],
    t_sheets = [], t_truncated = False\<rparr>"

definition demo_options :: options where
  "demo_options = \<lparr>opt_format = FormatCSV, opt_header = True, opt_delimiter = '','', opt_sheet = [], opt_element = [],
    opt_limits = \<lparr>lim_bytes = 0, lim_rows = 0, lim_columns = 0\<rparr>\<rparr>"

definition demo_tokens :: "xml_token list" where
  "demo_tokens =
     [StartElement ''people'' [], StartElement ''person'' [(''b'', ''1''), (''a'', ''2'')], StartElement ''name'' [],
      CharData ''Ann'', EndElement, EndElement, EndElement]"

definition demo_source_env :: source_env where
  "demo_source_env =
     \<lparr>se_open = (\<lambda>_. Inl ''not a workbook''), se_tokens = (\<lambda>_. (demo_tokens, None)),
      se_attr_order = (\<lambda>m. sorted_list_of_set (dom m))\<rparr>"

lemma demo_comma: "char_of (44::nat) = CHR '',''"
  by code_simp

lemma demo_written:
  "write_delimited demo_table 44 True =
    Inr (bom @ ''name,note'' @ [LF] @ ''Ann,'' @ [DQ, DQ, DQ, CHR ''x'', CHR '','', LF, DQ, LF] @ ''Bob,'' @ [LF])"
  by (simp add: write_delimited_def valid_delim_def valid_rune_def rune_error_def demo_table_def csv_record_def
      csv_field_def field_needs_quotes_def next_rune_def rune_is_space_def fit_row_def encode_rune_ascii demo_comma replicate_Suc)

lemma demo_delimiter: "encode_rune 44 = '',''"
  by (simp add: encode_rune_ascii demo_comma)

lemma demo_rows:
  "map (\<lambda>row. map crlf_to_lf (fit_row 2 row)) (t_rows demo_table) = [[''Ann'', [DQ, CHR ''x'', CHR '','', LF]], [''Bob'', []]]"
  by (simp add: demo_table_def fit_row_def)

lemma demo_header: "map (header_name (map crlf_to_lf (t_columns demo_table))) [0 ..< 2] = [''name'', ''note'']"
  by (simp add: demo_table_def header_name_def upt_rec trim_space_visible visible_def)

lemma demo_columns: "\<not> blank_record (map crlf_to_lf (t_columns demo_table))"
  by (simp add: demo_table_def blank_record_def)

theorem delimited_roundtrip_witness:
  "\<exists>bytes. write_delimited demo_table 44 True = Inr bytes \<and>
    parse_source demo_source_env bytes demo_options =
      Inr \<lparr>t_columns = [''name'', ''note''], t_rows = [[''Ann'', [DQ, CHR ''x'', CHR '','', LF]], [''Bob'', []]],
        t_sheets = [], t_truncated = False\<rparr>"
proof -
  have len: "length (t_columns demo_table) = 2" "length (t_rows demo_table) = 2" by (simp_all add: demo_table_def)
  have lim: "lim_bytes (or_defaults (opt_limits demo_options)) = 26214400"
    "lim_rows (or_defaults (opt_limits demo_options)) = 100000"
    "lim_columns (or_defaults (opt_limits demo_options)) = 256"
    by (simp_all add: demo_options_def or_defaults_def default_limits_def)
  have ne: "t_columns demo_table \<noteq> []" by (simp add: demo_table_def)
  have opts: "opt_format demo_options = FormatCSV" "opt_delimiter demo_options = encode_rune 44" "opt_header demo_options"
    by (simp_all add: demo_options_def demo_delimiter)
  have keep: "filter (\<lambda>r. \<not> blank_record r) [[''Ann'', [DQ, CHR ''x'', CHR '','', LF]], [''Bob'', []]]
      = [[''Ann'', [DQ, CHR ''x'', CHR '','', LF]], [''Bob'', []]]"
    by (simp add: blank_record_def)
  show ?thesis
    using delimited_roundtrip [OF demo_written disjI1 [OF TrueI] ne demo_columns opts, unfolded len lim demo_rows demo_header keep]
      demo_written
    by (simp add: bom_def)
qed

lemma demo_small:
  "write_delimited \<lparr>t_columns = [''a'', ''b''], t_rows = [[''1'', ''2'']], t_sheets = [], t_truncated = False\<rparr> 44 False =
    Inr (''a,b'' @ [LF] @ ''1,2'' @ [LF])"
  by (simp add: write_delimited_def valid_delim_def valid_rune_def rune_error_def csv_record_def
      csv_field_def field_needs_quotes_def next_rune_def rune_is_space_def fit_row_def encode_rune_ascii demo_comma)

lemma demo_read:
  "parse_delimited (''a,b'' @ [LF] @ ''1,2'' @ [LF]) (demo_options\<lparr>opt_limits := default_limits\<rparr>) =
    Inr \<lparr>t_columns = [''a'', ''b''], t_rows = [[''1'', ''2'']], t_sheets = [], t_truncated = False\<rparr>"
  by (subst delimited_roundtrip_raw [OF demo_small])
     (simp_all add: bom_def blank_record_def demo_options_def default_limits_def encode_rune_ascii demo_comma fit_row_def
        header_name_def upt_rec visible_def)

theorem source_within_limits_witness:
  "\<exists>t. parse_source demo_source_env (''a,b'' @ [LF] @ ''1,2'' @ [LF]) demo_options = Inr t \<and>
    int (length (t_rows t)) \<le> 100000 \<and> int (length (t_columns t)) \<le> 256"
proof -
  let ?t = "\<lparr>t_columns = [''a'', ''b''], t_rows = [[''1'', ''2'']], t_sheets = [], t_truncated = False\<rparr>"
  have lim: "or_defaults (opt_limits demo_options) = default_limits"
    by (simp add: demo_options_def or_defaults_def default_limits_def)
  have p: "parse_source demo_source_env (''a,b'' @ [LF] @ ''1,2'' @ [LF]) demo_options = Inr ?t"
    using demo_read by (simp add: parse_source_def Let_def lim) (simp add: demo_options_def default_limits_def)
  from source_within_limits [OF p, unfolded lim] p show ?thesis
    by (intro exI [of _ ?t]) (auto simp: default_limits_def demo_options_def)
qed

theorem xml_reads_the_same_witness:
  "parse_source demo_source_env [] (demo_options\<lparr>opt_format := FormatXML\<rparr>) =
   parse_source (demo_source_env\<lparr>se_attr_order := \<lambda>m. rev (sorted_list_of_set (dom m))\<rparr>) []
     (demo_options\<lparr>opt_format := FormatXML\<rparr>)"
  using xml_reads_the_same [of "\<lambda>m. sorted_list_of_set (dom m)" "\<lambda>m. rev (sorted_list_of_set (dom m))"
      demo_source_env "[]" "demo_options\<lparr>opt_format := FormatXML\<rparr>"]
  by (simp add: demo_source_env_def)

end
