(* ===== verification/Data_Import.thy ===== *)
theory Data_Import
  imports Data_Records Dataio
begin

text \<open>
  Importing the rows of a source into a table: \<open>server/internal/data/import.go\<close> up to \<open>updateInTx\<close>. An
  import is one transaction; the contents of the database are a type \<open>'d\<close> of which the record
  \<open>import_engine\<close> says how statements read and change it. The catalog is that of \<open>record_env\<close>.
\<close>

section \<open>Options\<close>

datatype import_action = ImportAdd | ImportUpdateMatching | OtherAction string

datatype date_order = DateISO | DateDMY | DateMDY | DateOther string

record import_mapping =
  im_column :: int
  im_field :: string

record import_options =
  io_action :: import_action
  io_mappings :: "import_mapping list"
  io_match :: "string list"
  io_add_unmatched :: bool
  io_order :: date_order

record import_report =
  rp_rows :: nat
  rp_added :: nat
  rp_updated :: nat
  rp_skipped :: nat
  rp_fields :: "string list"

datatype cell_error = NotANumber | NotYesNo | NotADateIn date_order | NotADateTime | NotBase64

datatype import_error =
    NotAnAction import_action
  | NoColumn int
  | NoFieldNamed string string
  | TwoColumnsSent string
  | SummaryHasNoValue string
  | NoColumnSent
  | NoMatchField
  | MatchFieldWrong data_error
  | MatchFieldNotSent string
  | FormulaOwns string
  | BadCell nat string string cell_error
  | RowNotComputed nat data_calc_fail
  | RowNotMatched nat string
  | RowRefused nat check_fail
  | RowNotUpdated nat string
  | RowNotAdded nat string
  | NothingImported string
  | ImportData data_error
  | ImportCalc data_calc_fail

section \<open>Numbers\<close>

abbreviation nbsp :: string where "nbsp \<equiv> [CHR 0xC2, CHR 0xA0]"

definition last_index :: "char \<Rightarrow> string \<Rightarrow> int" where
  "last_index c s =
     (if c \<in> set s then int (length s) - 1 - int (length (takeWhile (\<lambda>x. x \<noteq> c) (rev s))) else - 1)"

definition replace_first :: "string \<Rightarrow> string \<Rightarrow> string \<Rightarrow> string" where
  "replace_first s old new = (case cut_at old s of None \<Rightarrow> s | Some (a, b) \<Rightarrow> a @ new @ b)"

definition normalize_number :: "(string \<Rightarrow> f64 option) \<Rightarrow> string \<Rightarrow> string option" where
  "normalize_number parse_float text0 =
     (let t = replace_all (replace_all (trim_space text0) '' '' []) nbsp []
      in if t = [] then Some []
         else
           let last_dot = last_index (CHR ''.'') t;
               last_comma = last_index (CHR '','') t;
               t' = (if 0 \<le> last_dot \<and> 0 \<le> last_comma
                     then (if last_comma < last_dot then replace_all t '','' []
                           else replace_first (replace_all t ''.'' []) '','' ''.'')
                     else if 0 \<le> last_comma
                     then (if count_char (CHR '','') t = 1 \<and> int (length t) - last_comma - 1 \<noteq> 3
                           then replace_first t '','' ''.''
                           else replace_all t '','' [])
                     else t)
           in if parse_float t' = None then None else Some t')"

section \<open>Cells\<close>

fun date_layouts :: "date_order \<Rightarrow> string list" where
  "date_layouts DateDMY = [''2006-01-02'', ''02/01/2006'', ''02-01-2006'', ''02.01.2006'']"
| "date_layouts DateMDY = [''2006-01-02'', ''01/02/2006'', ''01-02-2006'']"
| "date_layouts _ = [''2006-01-02'', ''2006/01/02'']"

definition timestamp_layouts :: "string list" where
  "timestamp_layouts =
     [rfc3339, ''2006-01-02T15:04:05'', ''2006-01-02 15:04:05'', ''2006-01-02 15:04'', ''2006-01-02'']"

definition coerce :: "calc_env \<Rightarrow> field_type \<Rightarrow> string \<Rightarrow> date_order \<Rightarrow> cell_error + stored" where
  "coerce E ft txt order =
     (let trimmed = trim_space txt
      in case ft of
           FieldNumber \<Rightarrow>
             (if trimmed = [] then Inr SNil
              else case normalize_number (env_parse_float E) trimmed of
                     None \<Rightarrow> Inl NotANumber
                   | Some n \<Rightarrow> Inr (SString n))
         | FieldBoolean \<Rightarrow>
             (if trimmed = [] then Inr SNil
              else let w = to_lower (env_uni E) trimmed
                   in if w \<in> {''true'', ''yes'', ''y'', ''1'', ''t''} then Inr (SBool True)
                      else if w \<in> {''false'', ''no'', ''n'', ''0'', ''f''} then Inr (SBool False)
                      else Inl NotYesNo)
         | FieldDate \<Rightarrow>
             (if trimmed = [] then Inr SNil
              else case first_parsed (\<lambda>l. env_time_parse E l trimmed) (date_layouts order) of
                     Some tm \<Rightarrow> Inr (SString (env_time_format E date_layout tm))
                   | None \<Rightarrow> Inl (NotADateIn order))
         | FieldTimestamp \<Rightarrow>
             (if trimmed = [] then Inr SNil
              else case first_parsed (\<lambda>l. env_time_parse E l trimmed) timestamp_layouts of
                     Some tm \<Rightarrow> Inr (SString (env_time_format E rfc3339 tm))
                   | None \<Rightarrow> Inl NotADateTime)
         | FieldContainer \<Rightarrow>
             (if trimmed = [] then Inr SNil
              else if std_decode trimmed = None then Inl NotBase64 else Inr (SString trimmed))
         | _ \<Rightarrow> if txt = [] then Inr SNil else Inr (SString txt))"

section \<open>Before anything is written\<close>

text \<open>The loop over the mappings: the fields written to so far, in order.\<close>

definition check_mapping :: "field_set \<Rightarrow> string \<Rightarrow> table \<Rightarrow> import_mapping \<Rightarrow> string list
    \<Rightarrow> import_error + string list" where
  "check_mapping fs table_name source m written =
     (let field = trim_space (im_field m)
      in if field = [] then Inr written
         else if im_column m < 0 \<or> im_column m \<ge> int (length (t_columns source)) then Inl (NoColumn (im_column m + 1))
         else case map_of fs field of
                None \<Rightarrow> Inl (NoFieldNamed table_name field)
              | Some ft \<Rightarrow>
                  if field \<in> set written then Inl (TwoColumnsSent field)
                  else if ft = FieldSummary then Inl (SummaryHasNoValue field)
                  else Inr (written @ [field]))"

definition check_match_field :: "field_set \<Rightarrow> string \<Rightarrow> string list \<Rightarrow> string \<Rightarrow> unit \<Rightarrow> import_error + unit" where
  "check_match_field fs table_name written field u =
     (case check_field fs table_name field of
        Inl e \<Rightarrow> Inl (MatchFieldWrong e)
      | Inr _ \<Rightarrow> if field \<notin> set written then Inl (MatchFieldNotSent field) else Inr ())"

definition check_import_options :: "field_set \<Rightarrow> string \<Rightarrow> table \<Rightarrow> import_options \<Rightarrow> import_error + string list" where
  "check_import_options fs table_name source opts =
     (if io_action opts \<noteq> ImportAdd \<and> io_action opts \<noteq> ImportUpdateMatching then Inl (NotAnAction (io_action opts))
      else bind_r (fold_r (check_mapping fs table_name source) (io_mappings opts) []) (\<lambda>written.
        if written = [] then Inl NoColumnSent
        else if io_action opts = ImportUpdateMatching then
          (if io_match opts = [] then Inl NoMatchField
           else bind_r (fold_r (check_match_field fs table_name written) (io_match opts) ()) (\<lambda>_. Inr written))
        else Inr written))"

section \<open>The transaction\<close>

text \<open>
  A query for one row answers with the text of an error or with an id; the text \<open>no rows\<close> means that
  there is none. A statement fails or leaves new contents.
\<close>

record 'd import_engine =
  ie_begin :: "'d \<Rightarrow> data_error option"
  ie_find :: "string \<Rightarrow> string list \<Rightarrow> 'd \<Rightarrow> string + string"
  ie_exec :: "string \<Rightarrow> stored list \<Rightarrow> 'd \<Rightarrow> string + 'd"
  ie_count :: "'d \<Rightarrow> string \<Rightarrow> stored \<Rightarrow> string \<Rightarrow> int option"
  ie_new_id :: "nat \<Rightarrow> string"
  ie_commit :: "'d \<Rightarrow> string option"

text \<open>\<open>fmt.Sprint\<close> of a value of a row.\<close>

fun sprint_any :: "calc_env \<Rightarrow> stored \<Rightarrow> string" where
  "sprint_any E (STime t) = env_time_format E ''2006-01-02 15:04:05.999999999 -0700 MST'' t"
| "sprint_any E v = sprint E v"

definition stored_at :: "crecord \<Rightarrow> string \<Rightarrow> stored" where
  "stored_at R field = (case R field of Some v \<Rightarrow> v | None \<Rightarrow> SNil)"

definition match_clause :: "dialect \<Rightarrow> string \<times> nat \<Rightarrow> string" where
  "match_clause D p =
     ''LOWER('' @ d_cast_to_text D (d_quote D (fst p)) @ '') = LOWER('' @ d_placeholder D (snd p) @ '')''"

definition find_matching_query :: "dialect \<Rightarrow> string \<Rightarrow> string list \<Rightarrow> string" where
  "find_matching_query D table_name match =
     ''SELECT '' @ d_quote D ''id'' @ '' FROM '' @ d_quote D table_name @ '' WHERE ''
       @ join '' AND '' (map (match_clause D) (zip match [1 ..< length match + 1])) @ '' LIMIT 1''"

definition find_matching_record :: "record_env \<Rightarrow> 'd import_engine \<Rightarrow> string \<Rightarrow> string list \<Rightarrow> crecord \<Rightarrow> 'd
    \<Rightarrow> string + string" where
  "find_matching_record E N table_name match R d =
     (if list_ex (\<lambda>f. stored_at R f = SNil \<or> sprint_any (re_calc E) (stored_at R f) = []) match then Inr []
      else case ie_find N (find_matching_query (re_dialect E) table_name match)
                  (map (\<lambda>f. sprint_any (re_calc E) (stored_at R f)) match) d of
             Inl msg \<Rightarrow> if contains msg ''no rows'' then Inr [] else Inl msg
           | Inr i \<Rightarrow> Inr i)"

definition insert_in_tx :: "record_env \<Rightarrow> 'd import_engine \<Rightarrow> string \<Rightarrow> crecord \<Rightarrow> 'd \<Rightarrow> string + 'd" where
  "insert_in_tx E N table_name R =
     (let cols = re_iter E R in ie_exec N (insert_statement (re_dialect E) table_name cols) (column_values cols R))"

definition update_in_tx :: "record_env \<Rightarrow> 'd import_engine \<Rightarrow> string \<Rightarrow> string \<Rightarrow> crecord \<Rightarrow> 'd \<Rightarrow> string + 'd" where
  "update_in_tx E N table_name i R d =
     (let cols = filter (\<lambda>c. c \<noteq> ''id'') (re_iter E R)
      in if cols = [] then Inr d
         else ie_exec N (update_statement (re_dialect E) table_name cols) (column_values cols R @ [SString i]) d)"

section \<open>One row\<close>

definition import_cell :: "calc_env \<Rightarrow> field_set \<Rightarrow> table \<Rightarrow> date_order \<Rightarrow> nat \<Rightarrow> import_mapping \<Rightarrow> crecord
    \<Rightarrow> import_error + crecord" where
  "import_cell E fs source order i m R =
     (let field = trim_space (im_field m)
      in if field = [] then Inr R
         else let ft = (case map_of fs field of Some ft \<Rightarrow> ft | None \<Rightarrow> FieldOther []);
                  txt = cell source (int i) (im_column m)
              in case coerce E ft txt order of
                   Inl why \<Rightarrow> Inl (BadCell (i + 1) (t_columns source ! nat (im_column m)) txt why)
                 | Inr v \<Rightarrow> Inr (R(field \<mapsto> v)))"

definition row_values :: "calc_env \<Rightarrow> field_set \<Rightarrow> table \<Rightarrow> import_options \<Rightarrow> nat \<Rightarrow> import_error + crecord" where
  "row_values E fs source opts i =
     fold_r (import_cell E fs source (io_order opts) i) (io_mappings opts) Map.empty"

definition import_checker :: "record_env \<Rightarrow> 'd import_engine \<Rightarrow> string \<Rightarrow> (string \<times> vfield) list \<Rightarrow> 'd \<Rightarrow> checker" where
  "import_checker E N table_name vfs d =
     \<lparr>ck_dialect = re_dialect E, ck_count = ie_count N d, ck_table = table_name, ck_fields = vfs\<rparr>"

definition wrap_l :: "('e \<Rightarrow> 'f) \<Rightarrow> 'e + 'a \<Rightarrow> 'f + 'a" where
  "wrap_l f m = (case m of Inl e \<Rightarrow> Inl (f e) | Inr x \<Rightarrow> Inr x)"

definition add_row :: "record_env \<Rightarrow> 'd import_engine \<Rightarrow> string \<Rightarrow> (string \<times> vfield) list \<Rightarrow> nat \<Rightarrow> crecord
    \<Rightarrow> 'd \<times> import_report \<Rightarrow> import_error + 'd \<times> import_report" where
  "add_row E N table_name vfs i R s =
     (let R' = R(''id'' \<mapsto> SString (ie_new_id N i))
      in bind_r (wrap_l (RowRefused (i + 1))
                  (check_record (re_calc E) (import_checker E N table_name vfs (fst s)) (ie_new_id N i) R' None False)) (\<lambda>_.
         bind_r (wrap_l (RowNotAdded (i + 1)) (insert_in_tx E N table_name R' (fst s))) (\<lambda>d.
         Inr (d, (snd s)\<lparr>rp_added := rp_added (snd s) + 1\<rparr>))))"

definition import_row :: "record_env \<Rightarrow> 'd import_engine \<Rightarrow> string \<Rightarrow> field_set \<Rightarrow> calculation list
    \<Rightarrow> (string \<times> vfield) list \<Rightarrow> table \<Rightarrow> import_options \<Rightarrow> nat \<Rightarrow> 'd \<times> import_report
    \<Rightarrow> import_error + 'd \<times> import_report" where
  "import_row E N table_name fs cs vfs source opts i s =
     bind_r (row_values (re_calc E) fs source opts i) (\<lambda>R.
     bind_r (wrap_l (RowNotComputed (i + 1)) (apply_calculations_to (re_calc E) cs R)) (\<lambda>R.
       if io_action opts = ImportUpdateMatching then
         bind_r (wrap_l (RowNotMatched (i + 1)) (find_matching_record E N table_name (io_match opts) R (fst s))) (\<lambda>rid.
           if rid \<noteq> [] then
             bind_r (wrap_l (RowRefused (i + 1))
                      (check_record (re_calc E) (import_checker E N table_name vfs (fst s)) rid R None False)) (\<lambda>_.
             bind_r (wrap_l (RowNotUpdated (i + 1)) (update_in_tx E N table_name rid R (fst s))) (\<lambda>d.
             Inr (d, (snd s)\<lparr>rp_updated := rp_updated (snd s) + 1\<rparr>)))
           else if \<not> io_add_unmatched opts then
             Inr (fst s, (snd s)\<lparr>rp_skipped := rp_skipped (snd s) + 1\<rparr>)
           else add_row E N table_name vfs i R s)
       else add_row E N table_name vfs i R s))"

section \<open>The import\<close>

definition import_order :: "import_options \<Rightarrow> import_options" where
  "import_order opts = (if io_order opts = DateOther [] then opts\<lparr>io_order := DateISO\<rparr> else opts)"

definition import_plan :: "record_env \<Rightarrow> string \<Rightarrow> table \<Rightarrow> import_options
    \<Rightarrow> import_error + field_set \<times> string list \<times> calculation list" where
  "import_plan E table_name source opts =
     bind_r (wrap_l ImportData (table_fields (env_uni (re_calc E)) (re_formula E) (re_catalog E) table_name)) (\<lambda>fs.
     bind_r (check_import_options fs table_name source opts) (\<lambda>written.
     bind_r (wrap_l ImportData (re_calculations E table_name)) (\<lambda>rows.
     bind_r (wrap_l ImportCalc (table_calculations (re_calc E) (re_formula E) rows)) (\<lambda>cs.
       case find (\<lambda>f. f \<in> calc_fields cs) written of
         Some f \<Rightarrow> Inl (FormulaOwns f)
       | None \<Rightarrow> Inr (fs, written, cs)))))"

definition import_rows :: "record_env \<Rightarrow> 'd import_engine \<Rightarrow> string \<Rightarrow> table \<Rightarrow> import_options \<Rightarrow> 'd
    \<Rightarrow> import_error + 'd \<times> import_report" where
  "import_rows E N table_name source opts0 d =
     bind_r (import_plan E table_name source opts0) (\<lambda>(fs, written, cs).
       let opts = import_order opts0
       in case ie_begin N d of
            Some e \<Rightarrow> Inl (ImportData e)
          | None \<Rightarrow>
              bind_r (wrap_l ImportData (re_rule_rows E table_name)) (\<lambda>rule_rows.
                fold_r (import_row E N table_name fs cs (load_fields (re_rules E) rule_rows) source opts)
                  [0 ..< length (t_rows source)]
                  (d, \<lparr>rp_rows = length (t_rows source), rp_added = 0, rp_updated = 0, rp_skipped = 0,
                       rp_fields = written\<rparr>)))"

text \<open>The contents afterwards: those of the transaction when it commits, the old ones otherwise.\<close>

definition import_records :: "record_env \<Rightarrow> 'd import_engine \<Rightarrow> string \<Rightarrow> table \<Rightarrow> import_options \<Rightarrow> 'd
    \<Rightarrow> (import_error + import_report) \<times> 'd" where
  "import_records E N table_name source opts d =
     (case import_rows E N table_name source opts d of
        Inl e \<Rightarrow> (Inl e, d)
      | Inr (d', report) \<Rightarrow>
          (case ie_commit N d' of
             Some msg \<Rightarrow> (Inl (NothingImported msg), d)
           | None \<Rightarrow> (Inr report, d')))"

section \<open>What the options allow\<close>

definition mapped_fields :: "import_mapping list \<Rightarrow> string list" where
  "mapped_fields ms = filter (\<lambda>f. f \<noteq> []) (map (\<lambda>m. trim_space (im_field m)) ms)"

lemma wrap_l_Inr [simp]: "wrap_l f m = Inr x \<longleftrightarrow> m = Inr x"
  by (simp add: wrap_l_def split: sum.splits)

lemma wrap_l_of_Inr [simp]: "wrap_l f (Inr x) = Inr x"
  by simp

lemma check_mappings:
  "fold_r (check_mapping fs table_name source) ms written0 = Inr written \<Longrightarrow> distinct written0 \<Longrightarrow>
   written = written0 @ mapped_fields ms \<and> distinct written \<and>
   (\<forall>m \<in> set ms. trim_space (im_field m) \<noteq> [] \<longrightarrow>
      0 \<le> im_column m \<and> im_column m < int (length (t_columns source)) \<and>
      (\<exists>ft. map_of fs (trim_space (im_field m)) = Some ft \<and> ft \<noteq> FieldSummary))"
proof (induction ms arbitrary: written0)
  case (Cons m ms)
  from Cons.prems obtain w where w: "check_mapping fs table_name source m written0 = Inr w"
    and rest: "fold_r (check_mapping fs table_name source) ms w = Inr written"
    by (auto simp: bind_r_Inr_iff)
  show ?case
  proof (cases "trim_space (im_field m) = []")
    case True
    with w have "w = written0" by (simp add: check_mapping_def)
    moreover have "mapped_fields (m # ms) = mapped_fields ms" using True by (simp add: mapped_fields_def)
    ultimately show ?thesis using Cons.IH [OF rest] Cons.prems(2) True by (metis set_ConsD)
  next
    case False
    from w False obtain ft where w': "w = written0 @ [trim_space (im_field m)]"
      and m: "0 \<le> im_column m" "im_column m < int (length (t_columns source))"
        "map_of fs (trim_space (im_field m)) = Some ft" "ft \<noteq> FieldSummary" "trim_space (im_field m) \<notin> set written0"
      by (auto simp: check_mapping_def Let_def split: if_splits option.splits)
    have mf: "mapped_fields (m # ms) = trim_space (im_field m) # mapped_fields ms"
      using False by (simp add: mapped_fields_def)
    have "distinct w" using Cons.prems(2) w' m(5) by simp
    note ih0 = Cons.IH [OF rest this]
    have "written = written0 @ mapped_fields (m # ms)" using conjunct1 [OF ih0] unfolding mf w' by simp
    moreover note conjunct1 [OF conjunct2 [OF ih0]]
    moreover have "\<forall>m \<in> set ms. trim_space (im_field m) \<noteq> [] \<longrightarrow>
        0 \<le> im_column m \<and> im_column m < int (length (t_columns source)) \<and>
        (\<exists>ft. map_of fs (trim_space (im_field m)) = Some ft \<and> ft \<noteq> FieldSummary)"
      by (rule conjunct2 [OF conjunct2 [OF ih0]])
    ultimately show ?thesis using m by (metis set_ConsD)
  qed
qed (simp add: mapped_fields_def)

lemma check_import_options_Inr:
  assumes "check_import_options fs table_name source opts = Inr written"
  shows "written = mapped_fields (io_mappings opts)" and "distinct written" and "written \<noteq> []"
    and "io_action opts = ImportAdd \<or> io_action opts = ImportUpdateMatching"
    and "\<And>m. m \<in> set (io_mappings opts) \<Longrightarrow> trim_space (im_field m) \<noteq> [] \<Longrightarrow>
      0 \<le> im_column m \<and> im_column m < int (length (t_columns source)) \<and>
      (\<exists>ft. map_of fs (trim_space (im_field m)) = Some ft \<and> ft \<noteq> FieldSummary)"
proof -
  from assms obtain w where w: "fold_r (check_mapping fs table_name source) (io_mappings opts) [] = Inr w"
    and "written = w" "w \<noteq> []" "io_action opts = ImportAdd \<or> io_action opts = ImportUpdateMatching"
    by (auto simp: check_import_options_def bind_r_Inr_iff split: if_splits)
  with check_mappings [OF w] show "written = mapped_fields (io_mappings opts)" "distinct written" "written \<noteq> []"
    "io_action opts = ImportAdd \<or> io_action opts = ImportUpdateMatching"
    "\<And>m. m \<in> set (io_mappings opts) \<Longrightarrow> trim_space (im_field m) \<noteq> [] \<Longrightarrow>
      0 \<le> im_column m \<and> im_column m < int (length (t_columns source)) \<and>
      (\<exists>ft. map_of fs (trim_space (im_field m)) = Some ft \<and> ft \<noteq> FieldSummary)"
    by auto
qed

section \<open>The values of a row\<close>

definition field_type_of :: "field_set \<Rightarrow> string \<Rightarrow> field_type" where
  "field_type_of fs f = (case map_of fs f of Some ft \<Rightarrow> ft | None \<Rightarrow> FieldOther [])"

text \<open>A row holds, for the fields that were mapped and no others, what their cells come to.\<close>

definition cells_coerced :: "calc_env \<Rightarrow> field_set \<Rightarrow> table \<Rightarrow> import_options \<Rightarrow> nat \<Rightarrow> crecord \<Rightarrow> bool" where
  "cells_coerced E fs source opts i V \<longleftrightarrow>
     dom V = set (mapped_fields (io_mappings opts)) \<and>
     (\<forall>m \<in> set (io_mappings opts). trim_space (im_field m) \<noteq> [] \<longrightarrow>
        (\<exists>v. V (trim_space (im_field m)) = Some v \<and>
           coerce E (field_type_of fs (trim_space (im_field m))) (cell source (int i) (im_column m)) (io_order opts) = Inr v))"

lemma import_cells:
  "fold_r (import_cell E fs source order i) ms R = Inr V \<Longrightarrow> distinct (mapped_fields ms) \<Longrightarrow>
   dom V = dom R \<union> set (mapped_fields ms) \<and> (\<forall>f. f \<notin> set (mapped_fields ms) \<longrightarrow> V f = R f) \<and>
   (\<forall>m \<in> set ms. trim_space (im_field m) \<noteq> [] \<longrightarrow>
      (\<exists>v. V (trim_space (im_field m)) = Some v \<and>
         coerce E (field_type_of fs (trim_space (im_field m))) (cell source (int i) (im_column m)) order = Inr v))"
proof (induction ms arbitrary: R)
  case (Cons m ms)
  from Cons.prems obtain S where S: "import_cell E fs source order i m R = Inr S"
    and rest: "fold_r (import_cell E fs source order i) ms S = Inr V"
    by (auto simp: bind_r_Inr_iff)
  let ?f = "trim_space (im_field m)"
  show ?case
  proof (cases "?f = []")
    case True
    with S have "S = R" by (simp add: import_cell_def)
    with Cons.IH [OF rest] Cons.prems True show ?thesis by (simp add: mapped_fields_def)
  next
    case False
    from S False obtain v where v: "coerce E (field_type_of fs ?f) (cell source (int i) (im_column m)) order = Inr v"
      and S': "S = R(?f \<mapsto> v)"
      by (auto simp: import_cell_def Let_def field_type_of_def split: sum.splits)
    have d: "?f \<notin> set (mapped_fields ms)" "distinct (mapped_fields ms)"
      using Cons.prems(2) False by (auto simp: mapped_fields_def)
    have mf: "mapped_fields (m # ms) = ?f # mapped_fields ms" using False by (simp add: mapped_fields_def)
    from Cons.IH [OF rest d(2)] d(1) have "V ?f = Some v" by (simp add: S')
    with Cons.IH [OF rest d(2)] v show ?thesis unfolding mf by (auto simp: S')
  qed
qed (simp add: mapped_fields_def)

lemma row_values_coerced:
  assumes "row_values E fs source opts i = Inr V" and "distinct (mapped_fields (io_mappings opts))"
  shows "cells_coerced E fs source opts i V"
  using import_cells [OF assms(1) [unfolded row_values_def] assms(2)] by (simp add: cells_coerced_def)

section \<open>What an import does\<close>

text \<open>The rules that apply to every write, on the values of a record.\<close>

definition obeys_always :: "calc_env \<Rightarrow> checker \<Rightarrow> string \<Rightarrow> crecord \<Rightarrow> bool" where
  "obeys_always E c i R \<longleftrightarrow>
     (\<forall>(name, f) \<in> set (ck_fields c). \<forall>r. vf_rules f = Some r \<longrightarrow> applies_to r False \<longrightarrow>
        satisfies E (\<lambda>v. ck_count c (count_others_query c (vf_name f)) v i) r (stored_at R name))"

lemma checked_always: "check_record E c i R None False = Inr () \<longleftrightarrow> obeys_always E c i R"
  unfolding check_record_def check_fields_iff obeys_always_def stored_at_def by auto

text \<open>
  The fate of a row: added, written over a record, or skipped, with the values written; and the step of
  the database that goes with it.
\<close>

datatype row_fate = RowAdded crecord | RowUpdated string crecord | RowSkipped

fun fate_step :: "record_env \<Rightarrow> 'd import_engine \<Rightarrow> string \<Rightarrow> field_set \<Rightarrow> calculation list
    \<Rightarrow> (string \<times> vfield) list \<Rightarrow> table \<Rightarrow> import_options \<Rightarrow> nat \<Rightarrow> crecord \<Rightarrow> 'd \<Rightarrow> row_fate \<Rightarrow> 'd \<Rightarrow> bool" where
  "fate_step E N t fs cs vfs source opts i R d (RowAdded R') d' \<longleftrightarrow>
     (io_action opts = ImportUpdateMatching \<longrightarrow>
        io_add_unmatched opts \<and> find_matching_record E N t (io_match opts) R d = Inr []) \<and>
     R' = R(''id'' \<mapsto> SString (ie_new_id N i)) \<and>
     obeys_always (re_calc E) (import_checker E N t vfs d) (ie_new_id N i) R' \<and>
     insert_in_tx E N t R' d = Inr d'"
| "fate_step E N t fs cs vfs source opts i R d (RowUpdated rid R') d' \<longleftrightarrow>
     io_action opts = ImportUpdateMatching \<and> rid \<noteq> [] \<and>
     find_matching_record E N t (io_match opts) R d = Inr rid \<and> R' = R \<and>
     obeys_always (re_calc E) (import_checker E N t vfs d) rid R \<and> update_in_tx E N t rid R d = Inr d'"
| "fate_step E N t fs cs vfs source opts i R d RowSkipped d' \<longleftrightarrow>
     io_action opts = ImportUpdateMatching \<and> \<not> io_add_unmatched opts \<and>
     find_matching_record E N t (io_match opts) R d = Inr [] \<and> d' = d"

text \<open>A row: its cells are coerced, its calculations hold on it, and its fate is what became of it.\<close>

definition row_done :: "record_env \<Rightarrow> 'd import_engine \<Rightarrow> string \<Rightarrow> field_set \<Rightarrow> calculation list
    \<Rightarrow> (string \<times> vfield) list \<Rightarrow> table \<Rightarrow> import_options \<Rightarrow> nat \<Rightarrow> 'd \<Rightarrow> row_fate \<Rightarrow> 'd \<Rightarrow> bool" where
  "row_done E N t fs cs vfs source opts i d fate d' \<longleftrightarrow>
     (\<exists>V R. cells_coerced (re_calc E) fs source opts i V \<and>
        consistent (re_calc E) cs R \<and> (\<forall>f. f \<notin> calc_fields cs \<longrightarrow> R f = V f) \<and>
        fate_step E N t fs cs vfs source opts i R d fate d')"

inductive import_run :: "record_env \<Rightarrow> 'd import_engine \<Rightarrow> string \<Rightarrow> field_set \<Rightarrow> calculation list
    \<Rightarrow> (string \<times> vfield) list \<Rightarrow> table \<Rightarrow> import_options \<Rightarrow> nat \<Rightarrow> 'd \<Rightarrow> row_fate list \<Rightarrow> 'd \<Rightarrow> bool"
  for E N t fs cs vfs source opts where
  run_end: "import_run E N t fs cs vfs source opts i d [] d"
| run_row: "row_done E N t fs cs vfs source opts i d fate d' \<Longrightarrow>
    import_run E N t fs cs vfs source opts (Suc i) d' fates d'' \<Longrightarrow>
    import_run E N t fs cs vfs source opts i d (fate # fates) d''"

inductive_simps import_run_simps:
  "import_run E N t fs cs vfs source opts i d [] d'"
  "import_run E N t fs cs vfs source opts i d (fate # fates) d'"

definition is_added :: "row_fate \<Rightarrow> bool" where
  "is_added f \<longleftrightarrow> (case f of RowAdded _ \<Rightarrow> True | _ \<Rightarrow> False)"

definition is_updated :: "row_fate \<Rightarrow> bool" where
  "is_updated f \<longleftrightarrow> (case f of RowUpdated _ _ \<Rightarrow> True | _ \<Rightarrow> False)"

definition count_fate :: "row_fate \<Rightarrow> import_report \<Rightarrow> import_report" where
  "count_fate f r =
     (case f of
        RowAdded _ \<Rightarrow> r\<lparr>rp_added := rp_added r + 1\<rparr>
      | RowUpdated _ _ \<Rightarrow> r\<lparr>rp_updated := rp_updated r + 1\<rparr>
      | RowSkipped \<Rightarrow> r\<lparr>rp_skipped := rp_skipped r + 1\<rparr>)"

lemma add_row_done:
  assumes "add_row E N t vfs i R s = Inr s'"
    and "io_action opts = ImportUpdateMatching \<Longrightarrow>
      io_add_unmatched opts \<and> find_matching_record E N t (io_match opts) R (fst s) = Inr []"
  shows "\<exists>fate. fate_step E N t fs cs vfs source opts i R (fst s) fate (fst s') \<and> snd s' = count_fate fate (snd s)"
  using assms by (intro exI [of _ "RowAdded (R(''id'' \<mapsto> SString (ie_new_id N i)))"])
    (auto simp: add_row_def Let_def bind_r_Inr_iff checked_always count_fate_def)

lemma import_row_done:
  assumes "import_row E N t fs cs vfs source opts i s = Inr s'"
    and "distinct (mapped_fields (io_mappings opts))" and "in_order cs"
  shows "\<exists>fate. row_done E N t fs cs vfs source opts i (fst s) fate (fst s') \<and> snd s' = count_fate fate (snd s)"
proof -
  from assms(1) obtain V R where V: "row_values (re_calc E) fs source opts i = Inr V"
    and R: "apply_calculations_to (re_calc E) cs V = Inr R"
    and step: "(if io_action opts = ImportUpdateMatching then
         bind_r (wrap_l (RowNotMatched (i + 1)) (find_matching_record E N t (io_match opts) R (fst s))) (\<lambda>rid.
           if rid \<noteq> [] then
             bind_r (wrap_l (RowRefused (i + 1))
                      (check_record (re_calc E) (import_checker E N t vfs (fst s)) rid R None False)) (\<lambda>_.
             bind_r (wrap_l (RowNotUpdated (i + 1)) (update_in_tx E N t rid R (fst s))) (\<lambda>d.
             Inr (d, (snd s)\<lparr>rp_updated := rp_updated (snd s) + 1\<rparr>)))
           else if \<not> io_add_unmatched opts then
             Inr (fst s, (snd s)\<lparr>rp_skipped := rp_skipped (snd s) + 1\<rparr>)
           else add_row E N t vfs i R s)
       else add_row E N t vfs i R s) = Inr s'"
    by (auto simp: import_row_def bind_r_Inr_iff)
  have base: "cells_coerced (re_calc E) fs source opts i V" "consistent (re_calc E) cs R"
    "\<forall>f. f \<notin> calc_fields cs \<longrightarrow> R f = V f"
    using row_values_coerced [OF V assms(2)] apply_consistent [OF assms(3) R] apply_keeps_others [OF R]
    by (auto simp: consistent_def compute_evaluate)
  have "\<exists>fate. fate_step E N t fs cs vfs source opts i R (fst s) fate (fst s') \<and> snd s' = count_fate fate (snd s)"
  proof (cases "io_action opts = ImportUpdateMatching")
    case False
    then show ?thesis using step add_row_done by (simp only: if_False) blast
  next
    case True
    from step True obtain rid where rid: "find_matching_record E N t (io_match opts) R (fst s) = Inr rid"
      by (auto simp: bind_r_Inr_iff)
    show ?thesis
    proof (cases "rid = []")
      case False
      with step True rid show ?thesis
        by (intro exI [of _ "RowUpdated rid R"]) (auto simp: bind_r_Inr_iff checked_always count_fate_def)
    next
      case no: True
      show ?thesis
      proof (cases "io_add_unmatched opts")
        case True
        with step \<open>io_action opts = _\<close> rid no have "add_row E N t vfs i R s = Inr s'" by simp
        from add_row_done [OF this] True rid no show ?thesis by blast
      next
        case False
        with step True rid no show ?thesis
          by (intro exI [of _ RowSkipped]) (auto simp: count_fate_def)
      qed
    qed
  qed
  with base show ?thesis unfolding row_done_def by blast
qed

lemma import_rows_run:
  assumes "distinct (mapped_fields (io_mappings opts))" and "in_order cs"
  shows "fold_r (import_row E N t fs cs vfs source opts) [i ..< i + n] s = Inr s' \<Longrightarrow>
    \<exists>fates. import_run E N t fs cs vfs source opts i (fst s) fates (fst s') \<and> length fates = n \<and>
      snd s' = fold count_fate fates (snd s)"
proof (induction n arbitrary: i s)
  case 0
  then show ?case by (auto simp: import_run_simps)
next
  case (Suc n)
  have "[i ..< i + Suc n] = i # [Suc i ..< Suc i + n]" by (simp add: upt_rec)
  with Suc.prems obtain s1 where s1: "import_row E N t fs cs vfs source opts i s = Inr s1"
    and rest: "fold_r (import_row E N t fs cs vfs source opts) [Suc i ..< Suc i + n] s1 = Inr s'"
    by (auto simp: bind_r_Inr_iff)
  from import_row_done [OF s1 assms] Suc.IH [OF rest] show ?case
    by (metis fold_simps(2) length_Cons run_row)
qed

lemma count_fates:
  "fold count_fate fates r =
   \<lparr>rp_rows = rp_rows r, rp_added = rp_added r + length (filter is_added fates),
    rp_updated = rp_updated r + length (filter is_updated fates),
    rp_skipped = rp_skipped r + length (filter (\<lambda>f. f = RowSkipped) fates), rp_fields = rp_fields r\<rparr>"
  by (induction fates arbitrary: r) (auto simp: count_fate_def is_added_def is_updated_def split: row_fate.splits)

text \<open>
  C23. An import is all or nothing. When it fails the database is as it was. When it succeeds every row
  of the source was added, written over the record its match fields name, or skipped, in order; what was
  written are the cells of the row as their fields read them and the calculations on them, it obeys the
  rules that apply to every write, and the report counts the rows.
\<close>

theorem import_all_or_nothing:
  "case import_records E N t source opts d of
     (Inl e, d') \<Rightarrow> d' = d
   | (Inr report, d') \<Rightarrow>
       \<exists>fs written cs vfs fates. import_plan E t source opts = Inr (fs, written, cs) \<and>
         import_run E N t fs cs vfs source (import_order opts) 0 d fates d' \<and>
         length fates = length (t_rows source) \<and> ie_commit N d' = None \<and>
         report = \<lparr>rp_rows = length fates, rp_added = length (filter is_added fates),
           rp_updated = length (filter is_updated fates), rp_skipped = length (filter (\<lambda>f. f = RowSkipped) fates),
           rp_fields = written\<rparr>"
proof (cases "import_rows E N t source opts d")
  case (Inl e)
  then show ?thesis by (simp add: import_records_def)
next
  case (Inr p)
  obtain d' report where p: "p = (d', report)" by (cases p)
  show ?thesis
  proof (cases "ie_commit N d'")
    case (Some msg)
    then show ?thesis using Inr p by (simp add: import_records_def)
  next
    case None
    from Inr p obtain fs written cs where plan: "import_plan E t source opts = Inr (fs, written, cs)"
      by (auto simp: import_rows_def bind_r_Inr_iff)
    from Inr plan p obtain vfs where rows: "fold_r (import_row E N t fs cs vfs source (import_order opts))
        [0 ..< length (t_rows source)] (d, \<lparr>rp_rows = length (t_rows source), rp_added = 0, rp_updated = 0,
          rp_skipped = 0, rp_fields = written\<rparr>) = Inr (d', report)"
      by (auto simp: import_rows_def bind_r_Inr_iff Let_def split: option.splits)
    from plan obtain rr where
      w: "check_import_options fs t source opts = Inr written"
      and cs: "table_calculations (re_calc E) (re_formula E) rr = Inr cs"
      by (auto simp: import_plan_def bind_r_Inr_iff split: option.splits)
    have dist: "distinct (mapped_fields (io_mappings (import_order opts)))"
      using check_import_options_Inr(1,2) [OF w] by (simp add: import_order_def)
    from import_rows_run [OF dist table_calculations_in_order [OF cs], of E N t fs vfs source 0 "length (t_rows source)"]
      rows obtain fates where f: "import_run E N t fs cs vfs source (import_order opts) 0 d fates d'"
      "length fates = length (t_rows source)"
      "report = fold count_fate fates \<lparr>rp_rows = length (t_rows source), rp_added = 0, rp_updated = 0,
          rp_skipped = 0, rp_fields = written\<rparr>"
      by fastforce
    from f(2,3) have "report = \<lparr>rp_rows = length fates, rp_added = length (filter is_added fates),
           rp_updated = length (filter is_updated fates), rp_skipped = length (filter (\<lambda>f. f = RowSkipped) fates),
           rp_fields = written\<rparr>" by (simp add: count_fates)
    with f(1,2) plan None show ?thesis
      unfolding import_records_def Inr p sum.case prod.case None option.case by blast
  qed
qed

section \<open>Spellings of a number\<close>

lemma replace_all_drop: "replace_all s [q] [] = filter (\<lambda>c. c \<noteq> q) s"
  by (simp add: replace_all_char) (induction s, auto)

lemma replace_all_absent: "\<not> contains s old \<Longrightarrow> old \<noteq> [] \<Longrightarrow> replace_all s old new = s"
  by (subst replace_all.simps) (auto simp: contains_cut_at split: option.split)

lemma no_nbsp: "CHR 0xC2 \<notin> set s \<Longrightarrow> replace_all s nbsp [] = s"
  by (rule replace_all_absent) (auto simp: contains_def sublist_def)

lemma last_index_at: "c \<notin> set b \<Longrightarrow> last_index c (a @ c # b) = int (length a)"
  by (simp add: last_index_def takeWhile_append takeWhile_eq_all_conv)

lemma last_index_present: "c \<in> set s \<Longrightarrow> 0 \<le> last_index c s"
  by (drule split_list_last) (auto simp: last_index_at)

lemma last_index_absent: "c \<notin> set s \<Longrightarrow> last_index c s = - 1"
  by (simp add: last_index_def)

lemma replace_first_at: "c \<notin> set a \<Longrightarrow> replace_first (a @ c # b) [c] new = a @ new @ b"
  using cut_at_first [of "[c]" a b]
  by (auto simp: replace_first_def contains_def sublist_def in_set_conv_decomp)

lemma digit_chars:
  assumes "ascii_digit c"
  shows "visible c" "c \<noteq> CHR '',''" "c \<noteq> CHR ''.''" "c \<noteq> CHR '' ''" "c \<noteq> CHR 0xC2"
  using assms by (auto simp: ascii_digit_def visible_def)

text \<open>The digits before the decimal sign, in groups, and the ones after it.\<close>

lemma set_join: "set (join sep xs) \<subseteq> set (concat xs) \<union> set sep"
  by (induction sep xs rule: join.induct) auto

lemma filter_join:
  "(\<And>x. x \<in> set xs \<Longrightarrow> c \<notin> set x) \<Longrightarrow> filter (\<lambda>x. x \<noteq> c) (join [c] xs) = concat xs"
  by (induction "[c]" xs rule: join.induct) (auto simp: filter_id_conv)

lemma join_hd: "xs \<noteq> [] \<Longrightarrow> hd xs \<noteq> [] \<Longrightarrow> join sep xs \<noteq> [] \<and> hd (join sep xs) = hd (hd xs)"
  by (induction sep xs rule: join.induct) auto

lemma in_join: "2 \<le> length xs \<Longrightarrow> set sep \<subseteq> set (join sep xs)"
  by (induction sep xs rule: join.induct) auto

definition digit_groups :: "string list \<Rightarrow> string \<Rightarrow> bool" where
  "digit_groups groups decs \<longleftrightarrow>
     groups \<noteq> [] \<and> list_all (\<lambda>g. g \<noteq> [] \<and> all_digits g) groups \<and> decs \<noteq> [] \<and> all_digits decs"

lemma group_digits:
  assumes "digit_groups groups decs"
  shows "c \<in> set (concat groups) \<Longrightarrow> ascii_digit c" "c \<in> set decs \<Longrightarrow> ascii_digit c"
  using assms by (auto simp: digit_groups_def list_all_iff all_digits_def)

lemma group_absent:
  assumes "digit_groups groups decs" and "\<not> ascii_digit c"
  shows "c \<notin> set (concat groups)" "c \<notin> set decs"
  using group_digits [OF assms(1)] assms(2) by blast+

lemma not_digits: "\<not> ascii_digit (CHR '','')" "\<not> ascii_digit (CHR ''.'')" "\<not> ascii_digit (CHR '' '')"
  "\<not> ascii_digit (CHR 0xC2)"
  by (simp_all add: ascii_digit_def)

lemma join_no: "c \<noteq> s \<Longrightarrow> c \<notin> set (concat groups) \<Longrightarrow> c \<notin> set (join [s] groups)"
  using set_join [of "[s]" groups] by auto

lemma join_trimmed:
  assumes "digit_groups groups decs"
  shows "trim_space (join [s] groups @ d # decs) = join [s] groups @ d # decs"
proof (rule trim_space_visible)
  have g: "groups \<noteq> []" "hd groups \<noteq> []" using assms by (auto simp: digit_groups_def list_all_iff hd_in_set)
  from join_hd [OF this] have h: "join [s] groups \<noteq> []" "hd (join [s] groups) = hd (hd groups)" by auto
  have "hd (hd groups) \<in> set (concat groups)" using g by (cases groups) auto
  then show "visible (hd (join [s] groups @ d # decs))"
    using h group_digits(1) [OF assms] digit_chars(1) by simp
  have "decs \<noteq> []" using assms by (simp add: digit_groups_def)
  then show "visible (last (join [s] groups @ d # decs))"
    using group_digits(2) [OF assms] digit_chars(1) by simp
qed simp

lemma filter_absent: "c \<notin> set s \<Longrightarrow> filter (\<lambda>x. x \<noteq> c) s = s"
  by (auto simp: filter_id_conv)

lemma drop_separator:
  assumes "digit_groups groups decs" and "\<not> ascii_digit s" and "d \<noteq> s"
  shows "filter (\<lambda>x. x \<noteq> s) (join [s] groups @ d # decs) = concat groups @ d # decs"
proof -
  have "s \<notin> set x" if "x \<in> set groups" for x using group_absent(1) [OF assms(1,2)] that by auto
  then have "filter (\<lambda>x. x \<noteq> s) (join [s] groups) = concat groups" by (rule filter_join)
  with assms(3) group_absent(2) [OF assms(1,2)] show ?thesis by (simp add: filter_absent)
qed

lemma no_spaces:
  assumes "digit_groups groups decs" and "s \<in> {CHR '','', CHR ''.''}" and "d \<in> {CHR '','', CHR ''.''}"
  shows "replace_all (replace_all (trim_space (join [s] groups @ d # decs)) '' '' []) nbsp [] = join [s] groups @ d # decs"
proof -
  have "CHR '' '' \<notin> set (join [s] groups @ d # decs)"
    using join_no [of "CHR '' ''" s] group_absent [OF assms(1) not_digits(3)] assms(2,3) by auto
  moreover have "CHR 0xC2 \<notin> set (join [s] groups @ d # decs)"
    using join_no [of "CHR 0xC2" s] group_absent [OF assms(1) not_digits(4)] assms(2,3) by auto
  ultimately show ?thesis
    unfolding join_trimmed [OF assms(1)] replace_all_drop by (simp only: filter_absent no_nbsp not_False_eq_True)
qed

lemma spaces_dropped:
  assumes "digit_groups groups decs" and "d \<in> {CHR '','', CHR ''.''}"
  shows "replace_all (replace_all (trim_space (join '' '' groups @ d # decs)) '' '' []) nbsp [] = concat groups @ d # decs"
proof -
  have "d \<noteq> CHR '' ''" using assms(2) by auto
  note drop = drop_separator [OF assms(1) not_digits(3) this]
  have "CHR 0xC2 \<notin> set (concat groups @ d # decs)"
    using group_absent [OF assms(1) not_digits(4)] assms(2) by auto
  then show ?thesis unfolding join_trimmed [OF assms(1)] replace_all_drop drop by (rule no_nbsp)
qed

lemma sign_last:
  assumes "digit_groups groups decs" and "\<not> ascii_digit d"
  shows "last_index d (x @ d # decs) = int (length x)"
  by (rule last_index_at) (rule group_absent(2) [OF assms])

lemma separator_before:
  assumes "digit_groups groups decs" and "\<not> ascii_digit s" and "s \<noteq> d"
  shows "last_index s (x @ d # decs) < int (length x)"
proof (cases "s \<in> set (x @ d # decs)")
  case True
  have "takeWhile (\<lambda>x. x \<noteq> s) (rev (x @ d # decs)) = rev decs @ d # takeWhile (\<lambda>x. x \<noteq> s) (rev x)"
    using group_absent(2) [OF assms(1,2)] assms(3) by (simp add: takeWhile_append)
  with True show ?thesis by (simp add: last_index_def)
qed (simp add: last_index_def)

text \<open>Groups after commas and a decimal point; groups after points and a decimal comma; groups after spaces.\<close>

lemma number_comma_groups:
  assumes "digit_groups groups decs" and "pf (concat groups @ ''.'' @ decs) \<noteq> None"
  shows "normalize_number pf (join '','' groups @ ''.'' @ decs) = Some (concat groups @ ''.'' @ decs)"
proof -
  let ?t = "join '','' groups @ CHR ''.'' # decs"
  have dot: "last_index (CHR ''.'') ?t = int (length (join '','' groups))"
    by (rule sign_last [OF assms(1) not_digits(2)])
  have comma: "last_index (CHR '','') ?t < int (length (join '','' groups))"
    by (rule separator_before [OF assms(1) not_digits(1)]) simp
  have drop: "replace_all ?t '','' [] = concat groups @ CHR ''.'' # decs"
    unfolding replace_all_drop by (rule drop_separator [OF assms(1) not_digits(1)]) simp
  have "?t = concat groups @ CHR ''.'' # decs" if "\<not> 0 \<le> last_index (CHR '','') ?t"
  proof -
    from that have "CHR '','' \<notin> set ?t" using last_index_present [of "CHR '',''" ?t] by blast
    with drop show ?thesis by (simp only: replace_all_drop filter_absent not_False_eq_True)
  qed
  moreover have s: "replace_all (replace_all (trim_space (join '','' groups @ ''.'' @ decs)) '' '' []) nbsp [] = ?t"
    using no_spaces [OF assms(1), of "CHR '',''" "CHR ''.''"] by simp
  ultimately show ?thesis
    unfolding normalize_number_def s Let_def dot using assms(2) comma drop
    by (cases "0 \<le> last_index (CHR '','') ?t") (simp_all del: concat.simps)
qed

lemma number_point_groups:
  assumes "digit_groups groups decs" and "pf (concat groups @ ''.'' @ decs) \<noteq> None" and "2 \<le> length groups"
  shows "normalize_number pf (join ''.'' groups @ '','' @ decs) = Some (concat groups @ ''.'' @ decs)"
proof -
  let ?t = "join ''.'' groups @ CHR '','' # decs"
  have comma: "last_index (CHR '','') ?t = int (length (join ''.'' groups))"
    by (rule sign_last [OF assms(1) not_digits(1)])
  have dot: "last_index (CHR ''.'') ?t < int (length (join ''.'' groups))"
    by (rule separator_before [OF assms(1) not_digits(2)]) simp
  have "CHR ''.'' \<in> set ?t" using in_join [OF assms(3), of "''.''"] by auto
  then have dot0: "0 \<le> last_index (CHR ''.'') ?t" by (rule last_index_present)
  have drop: "replace_all ?t ''.'' [] = concat groups @ CHR '','' # decs"
    unfolding replace_all_drop by (rule drop_separator [OF assms(1) not_digits(2)]) simp
  have first: "replace_first (concat groups @ CHR '','' # decs) '','' ''.'' = concat groups @ ''.'' @ decs"
    by (rule replace_first_at [OF group_absent(1) [OF assms(1) not_digits(1)]])
  show ?thesis
    using assms(2) comma dot dot0 drop first
    by (simp add: normalize_number_def no_spaces [OF assms(1)] Let_def)
qed

lemma count_one: "c \<notin> set a \<Longrightarrow> c \<notin> set b \<Longrightarrow> count_char c (a @ c # b) = 1"
  by (auto simp: count_char_def filter_empty_conv)

lemma number_space_groups:
  assumes "digit_groups groups decs" and "pf (concat groups @ ''.'' @ decs) \<noteq> None" and "length decs \<noteq> 3"
  shows "normalize_number pf (join '' '' groups @ '','' @ decs) = Some (concat groups @ ''.'' @ decs)"
proof -
  let ?t = "concat groups @ CHR '','' # decs"
  note c = group_absent [OF assms(1) not_digits(1)] and p = group_absent [OF assms(1) not_digits(2)]
  have comma: "last_index (CHR '','') ?t = int (length (concat groups))" by (rule last_index_at [OF c(2)])
  have dot: "last_index (CHR ''.'') ?t = - 1" using p by (intro last_index_absent) auto
  have first: "replace_first ?t '','' ''.'' = concat groups @ ''.'' @ decs" by (rule replace_first_at [OF c(1)])
  have one: "count_char (CHR '','') ?t = 1" by (rule count_one [OF c])
  have s: "replace_all (replace_all (trim_space (join '' '' groups @ '','' @ decs)) '' '' []) nbsp [] = ?t"
    using spaces_dropped [OF assms(1), of "CHR '',''"] by simp
  show ?thesis
    unfolding normalize_number_def s Let_def comma dot one using assms(2,3) first by (simp del: concat.simps)
qed

text \<open>A lone comma with three digits after it groups; with any other number it is the decimal sign.\<close>

lemma lone_comma_of_three:
  assumes "digit_groups groups decs" and "pf (concat groups @ decs) \<noteq> None" and "length decs = 3"
  shows "normalize_number pf (join '' '' groups @ '','' @ decs) = Some (concat groups @ decs)"
proof -
  let ?t = "concat groups @ CHR '','' # decs"
  note c = group_absent [OF assms(1) not_digits(1)] and p = group_absent [OF assms(1) not_digits(2)]
  have comma: "last_index (CHR '','') ?t = int (length (concat groups))" by (rule last_index_at [OF c(2)])
  have dot: "last_index (CHR ''.'') ?t = - 1" using p by (intro last_index_absent) auto
  have drop: "replace_all ?t '','' [] = concat groups @ decs"
    unfolding replace_all_drop using filter_absent [OF c(1)] filter_absent [OF c(2)] by simp
  have s: "replace_all (replace_all (trim_space (join '' '' groups @ '','' @ decs)) '' '' []) nbsp [] = ?t"
    using spaces_dropped [OF assms(1), of "CHR '',''"] by simp
  show ?thesis
    unfolding normalize_number_def s Let_def comma dot using assms(2,3) drop by (simp del: concat.simps)
qed

text \<open>
  However the digits before the decimal sign are grouped, a number comes to the same text: commas
  before a decimal point, points before a decimal comma, spaces before a decimal comma that is not
  followed by exactly three digits.
\<close>

theorem number_spellings_agree:
  assumes "digit_groups groups decs" and "pf (concat groups @ ''.'' @ decs) \<noteq> None"
    and "2 \<le> length groups" and "length decs \<noteq> 3"
  shows "normalize_number pf (join '','' groups @ ''.'' @ decs) = Some (concat groups @ ''.'' @ decs) \<and>
    normalize_number pf (join ''.'' groups @ '','' @ decs) = Some (concat groups @ ''.'' @ decs) \<and>
    normalize_number pf (join '' '' groups @ '','' @ decs) = Some (concat groups @ ''.'' @ decs)"
  using number_comma_groups [of groups decs pf] number_point_groups [of groups decs pf]
    number_space_groups [of groups decs pf] assms by blast

theorem number_spellings_agree_witness:
  "normalize_number (\<lambda>s. if s = ''1234.56'' then Some (Fin 1) else None) ''1,234.56'' = Some ''1234.56'' \<and>
   normalize_number (\<lambda>s. if s = ''1234.56'' then Some (Fin 1) else None) ''1.234,56'' = Some ''1234.56'' \<and>
   normalize_number (\<lambda>s. if s = ''1234.56'' then Some (Fin 1) else None) ''1 234,56'' = Some ''1234.56''"
  using number_spellings_agree [of "[''1'', ''234'']" "''56''" "\<lambda>s. if s = ''1234.56'' then Some (Fin 1) else None"]
  by (simp add: digit_groups_def all_digits_def ascii_digit_def)

end
