(* ===== verification/Data_Export.thy ===== *)
theory Data_Export
  imports Data_Import Data_Find
begin

text \<open>
  Exporting the records of a found set: the second half of \<open>server/internal/data/import.go\<close>, and the
  expressions of the Data Viewer, \<open>server/internal/data/evaluate.go\<close>, which are written out the same
  way. The rows a statement answers with, as \<open>rowsToMaps\<close> leaves them, are the parameter \<open>fetch\<close>; the
  loop over the pages ends only when the engine sends a page that is not full, so it is a partial
  function and \<open>None\<close> stands for not ending.
\<close>

section \<open>Text\<close>

fun as_driver :: "stored \<Rightarrow> driver_value" where
  "as_driver (SBool b) = DBool b"
| "as_driver (SInt64 i) = DInt64 i"
| "as_driver (SBytes s) = DBytes s"
| "as_driver _ = DOther []"

definition export_text :: "calc_env \<Rightarrow> field_type \<Rightarrow> stored \<Rightarrow> string" where
  "export_text E ft v =
     (if v = SNil then []
      else case ft of
             FieldDate \<Rightarrow>
               (case v of
                  STime t \<Rightarrow> env_time_format E date_layout t
                | _ \<Rightarrow> (let s = sprint_any E v
                        in if 10 < length s \<and> s ! 10 = CHR ''T'' then take 10 s else s))
           | FieldTimestamp \<Rightarrow>
               (case v of STime t \<Rightarrow> env_time_format E rfc3339 t | _ \<Rightarrow> sprint_any E v)
           | FieldBoolean \<Rightarrow>
               (case normalize_bool (as_driver v) of
                  DBool b \<Rightarrow> if b then ''true'' else ''false''
                | _ \<Rightarrow> sprint_any E v)
           | _ \<Rightarrow> sprint_any E v)"

section \<open>Pages\<close>

definition export_query :: "sort_field list \<Rightarrow> nat \<Rightarrow> query_options" where
  "export_query sort_fields offset =
     (if sort_fields = []
      then \<lparr>qo_limit = max_page_size, qo_offset = int offset, qo_sort_by = ''id'', qo_sort_asc = True, qo_sort = []\<rparr>
      else \<lparr>qo_limit = max_page_size, qo_offset = int offset, qo_sort_by = [], qo_sort_asc = False,
            qo_sort = sort_fields\<rparr>)"

partial_function (option) export_rows :: "(query_options \<Rightarrow> data_error + 'r list) \<Rightarrow> sort_field list \<Rightarrow> 'r list
    \<Rightarrow> (data_error + 'r list) option" where
  "export_rows read sort_fields all =
     (case read (export_query sort_fields (length all)) of
        Inl e \<Rightarrow> Some (Inl e)
      | Inr page \<Rightarrow>
          if int (length page) < max_page_size then Some (Inr (all @ page))
          else export_rows read sort_fields (all @ page))"

declare export_rows.simps [code]

record export_options =
  eo_requests :: "find_request list"
  eo_fields :: "string list"
  eo_headings :: "string list"
  eo_sort :: "sort_field list"

definition read_page :: "record_env \<Rightarrow> find_env \<Rightarrow> (string \<Rightarrow> find_value list \<Rightarrow> data_error + crecord list)
    \<Rightarrow> string \<Rightarrow> find_request list \<Rightarrow> query_options \<Rightarrow> data_error + crecord list" where
  "read_page E F fetch table_name requests query =
     (let U = env_uni (re_calc E)
      in if requests = []
         then bind_r (list_rows_query U (re_formula E) (re_catalog E) (re_dialect E) table_name query) (\<lambda>q. fetch q [])
         else bind_r (execute_find F U (re_formula E) (re_catalog E) (re_dialect E) table_name requests query)
                (\<lambda>(q, vals). fetch q vals))"

definition chosen_fields :: "field_set \<Rightarrow> string list \<Rightarrow> string list" where
  "chosen_fields fs asked = (if asked = [] then sort (remdups (map fst fs)) else asked)"

definition export_records :: "record_env \<Rightarrow> find_env \<Rightarrow> (string \<Rightarrow> find_value list \<Rightarrow> data_error + crecord list)
    \<Rightarrow> string \<Rightarrow> export_options \<Rightarrow> (data_error + table) option" where
  "export_records E F fetch table_name opts =
     (case table_fields (env_uni (re_calc E)) (re_formula E) (re_catalog E) table_name of
        Inl e \<Rightarrow> Some (Inl e)
      | Inr fs \<Rightarrow>
          (let chosen = chosen_fields fs (eo_fields opts)
           in case check_columns fs table_name chosen of
                Inl e \<Rightarrow> Some (Inl e)
              | Inr _ \<Rightarrow>
                  (let headings = (if length (eo_headings opts) \<noteq> length chosen then chosen else eo_headings opts)
                   in case export_rows (read_page E F fetch table_name (eo_requests opts)) (eo_sort opts) [] of
                        None \<Rightarrow> None
                      | Some (Inl e) \<Rightarrow> Some (Inl e)
                      | Some (Inr rows) \<Rightarrow>
                          Some (Inr \<lparr>t_columns = headings,
                            t_rows = map (\<lambda>R. map (\<lambda>f. export_text (re_calc E) (field_type_of fs f) (stored_at R f)) chosen) rows,
                            t_sheets = [], t_truncated = False\<rparr>))))"

section \<open>The Data Viewer\<close>

record evaluation =
  ev_expression :: string
  ev_value :: stored
  ev_text :: string
  ev_result :: result_type
  ev_fields :: "string list"
  ev_unknown :: "string list"
  ev_record :: string

datatype evaluation_fail = NothingToEvaluate | InvalidExpression calc_fail | EvaluationData data_error

fun storage_type_of :: "result_type \<Rightarrow> field_type" where
  "storage_type_of ResultNumber = FieldNumber"
| "storage_type_of ResultDate = FieldDate"
| "storage_type_of ResultTimestamp = FieldTimestamp"
| "storage_type_of ResultBoolean = FieldBoolean"
| "storage_type_of ResultText = FieldText"

definition evaluation_text :: "calc_env \<Rightarrow> stored \<Rightarrow> result_type \<Rightarrow> string" where
  "evaluation_text E v result = (if v = SNil then [] else export_text E (storage_type_of result) v)"

definition evaluate_expression :: "record_env \<Rightarrow> string \<Rightarrow> string \<Rightarrow> string \<Rightarrow> string
    \<Rightarrow> evaluation_fail + evaluation" where
  "evaluate_expression E table_name record_id expression result_name =
     (if trim_space expression = [] then Inl NothingToEvaluate
      else
        bind_r (wrap_l InvalidExpression (parse (re_calc E) expression)) (\<lambda>e.
        bind_r (wrap_l EvaluationData
                  (table_fields (env_uni (re_calc E)) (re_formula E) (re_catalog E) table_name)) (\<lambda>fs.
        bind_r (if record_id = [] then Inr Map.empty else wrap_l EvaluationData (re_row E table_name record_id)) (\<lambda>R.
        let read = expr_fields e;
            unknown = sort (filter (\<lambda>f. map_of fs f = None) read);
            result = parse_result_type (env_uni (re_calc E)) result_name
        in bind_r (wrap_l InvalidExpression (evaluate (re_calc E) (Some e) R result)) (\<lambda>v.
             Inr \<lparr>ev_expression = expression, ev_value = v, ev_text = evaluation_text (re_calc E) v result,
                  ev_result = result, ev_fields = read, ev_unknown = unknown, ev_record = record_id\<rparr>)))))"

section \<open>The whole found set\<close>

lemma export_rows_honest:
  assumes "\<And>n. read (export_query sort_fields n) = Inr (take 1000 (drop n rows))"
  shows "n \<le> length rows \<Longrightarrow> export_rows read sort_fields (take n rows) = Some (Inr rows)"
proof (induction "length rows - n" arbitrary: n rule: less_induct)
  case less
  have l: "length (take n rows) = n" using less.prems by simp
  have cat: "take n rows @ take 1000 (drop n rows) = take (n + 1000) rows" by (simp add: take_add)
  show ?case
  proof (cases "int (length (take 1000 (drop n rows))) < max_page_size")
    case True
    then have "length rows \<le> n + 1000" by (auto simp: max_page_size_def)
    then show ?thesis
      using True by (subst export_rows.simps) (simp only: l assms sum.case if_True cat take_all)
  next
    case False
    then have m: "n + 1000 \<le> length rows" by (auto simp: max_page_size_def)
    then have "length rows - (n + 1000) < length rows - n" by linarith
    from less.hyps [OF this m] False show ?thesis
      by (subst export_rows.simps) (simp only: l assms sum.case if_False cat)
  qed
qed

lemma check_columns_all:
  "check_columns fs table_name cols = Inr () \<longleftrightarrow> (\<forall>c \<in> set cols. map_of fs c \<noteq> None)"
  unfolding check_columns_def by (induction cols) (auto simp: check_field_def bind_r_Inr_iff)

lemma chosen_registered: "asked = [] \<Longrightarrow> c \<in> set (chosen_fields fs asked) \<Longrightarrow> map_of fs c \<noteq> None"
  by (auto simp: chosen_fields_def dest: weak_map_of_SomeI)


section \<open>What an export writes, an import reads\<close>

definition plain_number :: "string \<Rightarrow> bool" where
  "plain_number s \<longleftrightarrow> s \<noteq> [] \<and> trim_space s = s \<and> set s \<inter> {CHR '' '', CHR '','', CHR 0xC2} = {}"

definition reads_back :: "calc_env \<Rightarrow> string \<Rightarrow> gotime \<Rightarrow> bool" where
  "reads_back E layout t \<longleftrightarrow>
     trim_space (env_time_format E layout t) = env_time_format E layout t \<and> env_time_format E layout t \<noteq> [] \<and>
     (\<exists>t'. env_time_parse E layout (env_time_format E layout t) = Some t' \<and>
        env_time_format E layout t' = env_time_format E layout t)"

text \<open>The values of a field that a file of text carries, and what they become.\<close>

inductive carried :: "calc_env \<Rightarrow> field_type \<Rightarrow> stored \<Rightarrow> stored \<Rightarrow> bool" for E where
  "carried E ft SNil SNil"
| "s \<noteq> [] \<Longrightarrow> carried E FieldText (SString s) (SString s)"
| "plain_number s \<Longrightarrow> env_parse_float E s \<noteq> None \<Longrightarrow> carried E FieldNumber (SString s) (SString s)"
| "carried E FieldBoolean (SBool b) (SBool b)"
| "carried E FieldBoolean (SInt64 i) (SBool (i \<noteq> 0))"
| "trim_space s = s \<Longrightarrow> s \<noteq> [] \<Longrightarrow> std_decode s \<noteq> None \<Longrightarrow> carried E FieldContainer (SString s) (SString s)"
| "reads_back E date_layout t \<Longrightarrow> carried E FieldDate (STime t) (SString (env_time_format E date_layout t))"
| "reads_back E rfc3339 t \<Longrightarrow> carried E FieldTimestamp (STime t) (SString (env_time_format E rfc3339 t))"

lemma plain_number_normal:
  assumes "plain_number s" and "pf s \<noteq> None"
  shows "normalize_number pf s = Some s"
proof -
  have s: "CHR '' '' \<notin> set s" "CHR '','' \<notin> set s" "CHR 0xC2 \<notin> set s" "s \<noteq> []" "trim_space s = s"
    using assms(1) by (auto simp: plain_number_def)
  have "replace_all (replace_all (trim_space s) '' '' []) nbsp [] = s"
    unfolding s(5) replace_all_drop filter_absent [OF s(1)] by (rule no_nbsp [OF s(3)])
  with s assms(2) show ?thesis by (auto simp: normalize_number_def last_index_absent Let_def)
qed

lemma date_layouts_first: "\<exists>ls. date_layouts order = date_layout # ls"
  by (cases order) (simp_all add: date_layout_def)

lemma trim_words: "trim_space ''true'' = ''true''" "trim_space ''false'' = ''false''"
  by (rule trim_space_visible; simp add: visible_def)+

lemma lower_words: "to_lower U ''true'' = ''true''" "to_lower U ''false'' = ''false''"
  by (simp add: to_lower_def rune_lower_def encode_rune_ascii, code_simp)+

lemma export_coerce_bool: "coerce E FieldBoolean (if b then ''true'' else ''false'') order = Inr (SBool b)"
  by (cases b) (simp_all add: coerce_def trim_words lower_words)

lemma carried_coerce:
  assumes "carried E ft v w"
  shows "coerce E ft (export_text E ft v) order = Inr w"
  using assms
proof cases
  case 1
  then show ?thesis by (cases ft) (simp_all add: coerce_def export_text_def)
next
  case (2 s)
  then show ?thesis by (simp add: coerce_def export_text_def)
next
  case (3 s)
  then have "trim_space s = s" "s \<noteq> []" by (auto simp: plain_number_def)
  with 3 plain_number_normal [of s "env_parse_float E"] show ?thesis by (simp add: coerce_def export_text_def)
next
  case (4 b)
  then show ?thesis using export_coerce_bool by (simp add: export_text_def)
next
  case (5 i)
  then show ?thesis using export_coerce_bool [of E "i \<noteq> 0"] by (simp add: export_text_def)
next
  case (6 s)
  then show ?thesis by (auto simp: coerce_def export_text_def)
next
  case (7 t)
  obtain ls where "date_layouts order = date_layout # ls" using date_layouts_first by blast
  with 7 show ?thesis by (auto simp: coerce_def export_text_def reads_back_def)
next
  case (8 t)
  then show ?thesis by (auto simp: coerce_def export_text_def reads_back_def timestamp_layouts_def)
qed

lemma cell_of_map:
  assumes "i < length rows" and "j < length (rows ! i)"
  shows "cell \<lparr>t_columns = cols, t_rows = rows, t_sheets = sh, t_truncated = tr\<rparr> (int i) (int j) = rows ! i ! j"
  using assms by (simp add: cell_def)

lemma crlf_absent: "\<not> contains s [CR, LF] \<Longrightarrow> crlf_to_lf s = s"
proof (induction s rule: crlf_to_lf.induct)
  case (1 c d s)
  then have "\<not> contains (d # s) [CR, LF]" by (simp add: contains_Cons)
  moreover have "\<not> (c = CR \<and> d = LF)" using 1(3) by (auto simp: contains_Cons)
  ultimately show ?case using 1(2) by simp
qed auto


text \<open>
  A container is the exception further on: an import checks that the text is base64 but stores the text,
  where an insert stores the bytes; read back, it is the base64 of the base64.
\<close>

lemma imported_container_stays_text:
  assumes "coerce E FieldContainer txt order = Inr v" and "trim_space txt \<noteq> []"
  shows "v = SString (trim_space txt)"
  using assms by (auto simp: coerce_def Let_def split: if_splits)

lemma std_encode_grows: "s \<noteq> [] \<Longrightarrow> length s < length (std_encode s)"
proof -
  have "length s \<le> length (std_encode s)" for s by (induction s rule: std_encode.induct) auto
  then show "s \<noteq> [] \<Longrightarrow> ?thesis" by (induction s rule: std_encode.induct) (auto simp: less_Suc_eq_le le_SucI)
qed

text \<open>
  The Data Viewer and the field agree: on a record whose calculations hold, watching the formula of a
  calculation with its result type shows the value the field holds.
\<close>

theorem viewer_agrees_with_field:
  assumes "consistent (re_calc E) cs R" and "c \<in> set cs"
    and "parse (re_calc E) formula = Inr e" and "c_expr c = Some e"
    and "c_result c = parse_result_type (env_uni (re_calc E)) result_name"
    and "re_row E table_name i = Inr R" and "i \<noteq> []"
    and "evaluate_expression E table_name i formula result_name = Inr a"
  shows "R (c_field c) = Some (ev_value a) \<and> ev_result a = c_result c \<and>
    ev_text a = export_text (re_calc E) (storage_type_of (c_result c)) (ev_value a)"
proof -
  from assms(1,2) obtain v where v: "evaluate (re_calc E) (c_expr c) R (c_result c) = Inr v" "R (c_field c) = Some v"
    by (auto simp: consistent_def)
  from assms(8) have "ev_value a = v" "ev_result a = c_result c" "ev_text a = evaluation_text (re_calc E) v (c_result c)"
    using v(1) assms(3-7) by (auto simp: evaluate_expression_def bind_r_Inr_iff Let_def wrap_l_def split: if_splits)
  with v(2) show ?thesis by (simp add: evaluation_text_def export_text_def)
qed


section \<open>Examples\<close>

text \<open>An engine that holds one list of rows and reads the offset of a page off its statement.\<close>

definition statement_offset :: "string \<Rightarrow> nat" where
  "statement_offset q = read_nat (rev (takeWhile ascii_digit (rev q)))"

definition demo_fetch :: "crecord list \<Rightarrow> string \<Rightarrow> find_value list \<Rightarrow> data_error + crecord list" where
  "demo_fetch rows q vals = Inr (take 1000 (drop (statement_offset q) rows))"

definition demo_people_rows :: "crecord list" where
  "demo_people_rows = [[''name'' \<mapsto> SString ''Ann'', ''id'' \<mapsto> SString ''u1''], [''id'' \<mapsto> SString ''u2'']]"

definition demo_export :: export_options where
  "demo_export = \<lparr>eo_requests = [], eo_fields = [''name'', ''id''], eo_headings = [], eo_sort = []\<rparr>"

definition demo_find :: find_env where
  "demo_find = \<lparr>fe_parse_float = (\<lambda>_. None), fe_today = []\<rparr>"

lemma statement_offset_show: "statement_offset (q @ '' OFFSET '' @ show_int (int n)) = n"
proof -
  have "takeWhile ascii_digit (rev (show_nat n) @ CHR '' '' # xs) = rev (show_nat n)" for xs
    using show_nat_digits [of _ n] by (simp add: takeWhile_append ascii_digit_def)
  then show ?thesis by (simp add: statement_offset_def show_int_def)
qed

lemma demo_id_order: "order_by_clause mariadb_dialect [(''id'', FieldText), (''name'', FieldText)] ''people''
    [\<lparr>sf_field = ''id'', sf_descending = False\<rparr>] = Inr (''ORDER BY '' @ d_quote mariadb_dialect ''id'' @ '' ASC'')"
  by (simp add: order_by_clause_def check_field_def order_part_def)

lemma demo_pages:
  "read_page demo_records_env demo_find (demo_fetch demo_people_rows) ''people'' (eo_requests demo_export)
     (export_query (eo_sort demo_export) n) = Inr (take 1000 (drop n demo_people_rows))"
proof -
  have "\<exists>q. list_rows_query ascii_only (\<lambda>_. None) (re_catalog demo_records_env) mariadb_dialect ''people''
      (export_query [] n) = Inr (q @ '' OFFSET '' @ show_int (int n))"
    by (simp add: list_rows_query_def demo_fields demo_id_order export_query_def sort_order_def page_offset_def)
  then obtain q where q: "list_rows_query ascii_only (\<lambda>_. None) (re_catalog demo_records_env) mariadb_dialect ''people''
      (export_query [] n) = Inr (q @ '' OFFSET '' @ show_int (int n))" by blast
  show ?thesis
    unfolding read_page_def Let_def demo_selectors
    by (simp only: demo_export_def export_options.select_convs q bind_r_simps demo_fetch_def statement_offset_show) simp
qed

lemma demo_people: "table_fields (env_uni (re_calc demo_records_env)) (re_formula demo_records_env)
    (re_catalog demo_records_env) ''people'' = Inr [(''id'', FieldText), (''name'', FieldText)]"
  by (simp add: demo_selectors demo_fields)

definition demo_exported :: table where
  "demo_exported = \<lparr>t_columns = [''name'', ''id''], t_rows = [[''Ann'', ''u1''], [[], ''u2'']], t_sheets = [],
    t_truncated = False\<rparr>"

lemma demo_exported_rows:
  "map (\<lambda>R. map (\<lambda>f. export_text (re_calc demo_records_env)
       (field_type_of [(''id'', FieldText), (''name'', FieldText)] f) (stored_at R f)) [''name'', ''id'']) demo_people_rows
   = [[''Ann'', ''u1''], [[], ''u2'']]"
  by (simp add: demo_people_rows_def export_text_def field_type_of_def stored_at_def)

lemma demo_chosen: "chosen_fields [(''id'', FieldText), (''name'', FieldText)] (eo_fields demo_export) = [''name'', ''id'']"
  by (simp add: chosen_fields_def demo_export_def)


lemma demo_exported_table:
  "export_records demo_records_env demo_find (demo_fetch demo_people_rows) ''people'' demo_export = Some (Inr demo_exported)"
  "export_rows (read_page demo_records_env demo_find (demo_fetch demo_people_rows) ''people'' (eo_requests demo_export))
     (eo_sort demo_export) [] = Some (Inr demo_people_rows)"
proof -
  show rows: "export_rows (read_page demo_records_env demo_find (demo_fetch demo_people_rows) ''people'' (eo_requests demo_export))
     (eo_sort demo_export) [] = Some (Inr demo_people_rows)"
    using export_rows_honest [OF demo_pages, of 0] by simp
  have "check_columns [(''id'', FieldText), (''name'', FieldText)] ''people'' [''name'', ''id''] = Inr ()"
    by (simp add: check_columns_all)
  with rows show "export_records demo_records_env demo_find (demo_fetch demo_people_rows) ''people'' demo_export
      = Some (Inr demo_exported)"
    unfolding export_records_def demo_people sum.case Let_def demo_chosen
    by (simp only: sum.case option.case demo_exported_rows) (simp add: demo_export_def demo_exported_def)
qed

lemma demo_exported_bytes:
  "write_delimited demo_exported 44 True =
    Inr (bom @ ''name,id'' @ [LF] @ ''Ann,u1'' @ [LF] @ '',u2'' @ [LF])"
  by (simp add: write_delimited_def valid_delim_def valid_rune_def rune_error_def demo_exported_def csv_record_def
      csv_field_def field_needs_quotes_def next_rune_def rune_is_space_def fit_row_def encode_rune_ascii demo_comma)


definition demo_viewer_env :: record_env where
  "demo_viewer_env = demo_records_env\<lparr>re_row := \<lambda>t i. Inr [''y'' \<mapsto> SString ''0'', ''id'' \<mapsto> SString i]\<rparr>"

lemma demo_viewer_selectors:
  "re_calc demo_viewer_env = demo_env" "re_formula demo_viewer_env = (\<lambda>_. None)"
  "re_catalog demo_viewer_env = re_catalog demo_records_env"
  "re_row demo_viewer_env t i = Inr [''y'' \<mapsto> SString ''0'', ''id'' \<mapsto> SString i]"
  by (simp_all add: demo_viewer_env_def demo_selectors)

lemma demo_viewed: "consistent demo_env [demo_calculation] [''y'' \<mapsto> SString ''0'', ''id'' \<mapsto> SString ''u1'']"
  using demo_compute [of "[''y'' \<mapsto> SString ''0'', ''id'' \<mapsto> SString ''u1'']"]
  by (simp add: consistent_def compute_evaluate demo_field)

lemma demo_result_type: "parse_result_type ascii_only [] = ResultText"
  by (simp add: parse_result_type_def to_upper_def)

lemma demo_watched:
  "\<exists>a. evaluate_expression demo_viewer_env ''people'' ''u1'' ''abs(x)'' [] = Inr a"
proof -
  have "trim_space ''abs(x)'' = ''abs(x)''" by (rule trim_space_visible) (simp add: visible_def)+
  moreover have "evaluate demo_env (c_expr demo_calculation) [''y'' \<mapsto> SString ''0'', ''id'' \<mapsto> SString ''u1''] ResultText
      = Inr (SString ''0'')"
    using demo_compute [of "[''y'' \<mapsto> SString ''0'', ''id'' \<mapsto> SString ''u1'']"]
    by (simp add: compute_evaluate demo_calculation_def)
  ultimately show ?thesis
    by (simp add: evaluate_expression_def demo_viewer_selectors parse_abs_demo demo_selectors demo_fields
        demo_result_type demo_calculation_def Let_def)
qed

theorem viewer_agrees_with_field_witness:
  "\<exists>a. evaluate_expression demo_viewer_env ''people'' ''u1'' ''abs(x)'' [] = Inr a \<and> ev_value a = SString ''0''"
proof -
  let ?R = "[''y'' \<mapsto> SString ''0'', ''id'' \<mapsto> SString ''u1'']"
  from demo_watched obtain a where
    a: "evaluate_expression demo_viewer_env ''people'' ''u1'' ''abs(x)'' [] = Inr a" by blast
  have "?R (c_field demo_calculation) = Some (ev_value a) \<and> ev_result a = c_result demo_calculation \<and>
    ev_text a = export_text (re_calc demo_viewer_env) (storage_type_of (c_result demo_calculation)) (ev_value a)"
  proof (rule viewer_agrees_with_field [OF _ _ _ _ _ _ _ a])
    show "consistent (re_calc demo_viewer_env) [demo_calculation] ?R"
      unfolding demo_viewer_selectors by (rule demo_viewed)
    show "re_row demo_viewer_env ''people'' ''u1'' = Inr ?R" by (rule demo_viewer_selectors)
  qed (simp_all add: demo_viewer_selectors parse_abs_demo demo_calculation_def demo_result_type demo_selectors)
  with a show ?thesis by (auto simp: demo_field)
qed

end
