(* ===== verification/Crypto_Envelope.thy ===== *)
theory Crypto_Envelope
  imports Go_Encoding
begin

text \<open>
  The encrypted channel: \<open>server/internal/crypto/envelope.go\<close> without the certificate it signs itself.
  AES-256-GCM (\<open>crypto/aes\<close>, \<open>crypto/cipher\<close>) and SHA-256 are the record \<open>aead\<close> and an argument; what
  the code relies on of GCM is the predicate \<open>authenticated\<close>. The handler behind the middleware is a
  list of the calls it makes on its response writer.
\<close>

section \<open>Keys\<close>

definition default_channel_secret :: string where
  "default_channel_secret = ''file4base-default-channel-key-2026''"

definition derive_key :: "(string \<Rightarrow> string) \<Rightarrow> string \<Rightarrow> string" where
  "derive_key sha256 secret =
     (let s = trim_space secret
      in sha256 (''file4base-channel-v1:'' @ (if s = [] then default_channel_secret else s)))"

definition key_fingerprint :: "(string \<Rightarrow> string) \<Rightarrow> string \<Rightarrow> string" where
  "key_fingerprint sha256 key = hex_encode (take 8 (sha256 key))"

section \<open>The envelope\<close>

record aead =
  ae_seal :: "string \<Rightarrow> string \<Rightarrow> string \<Rightarrow> string \<Rightarrow> string"
  ae_open :: "string \<Rightarrow> string \<Rightarrow> string \<Rightarrow> string \<Rightarrow> string option"
  ae_overhead :: nat

text \<open>
  What Go documents of \<open>cipher.AEAD\<close>: under one key, nonce and additional data, \<open>Open\<close> gives back what
  \<open>Seal\<close> sealed and nothing else, and a sealed text is longer by the overhead.
\<close>

definition authenticated :: "aead \<Rightarrow> bool" where
  "authenticated A \<longleftrightarrow>
     (\<forall>k n c a p. ae_open A k n c a = Some p \<longleftrightarrow> c = ae_seal A k n p a) \<and>
     (\<forall>k n p a. length (ae_seal A k n p a) = length p + ae_overhead A)"

definition envelope_magic :: string where
  "envelope_magic = ''F4BE'' @ [CHR 0x01]"

definition nonce_size :: nat where
  "nonce_size = 12"

text \<open>\<open>Encrypt\<close>; \<open>None\<close> is a failure of the random source.\<close>

definition encrypt :: "aead \<Rightarrow> string \<Rightarrow> string option \<Rightarrow> string \<Rightarrow> string option" where
  "encrypt A key random p =
     map_option (\<lambda>nonce. envelope_magic @ nonce @ ae_seal A key nonce p envelope_magic) random"

definition envelope_bytes :: "string \<Rightarrow> string option" where
  "envelope_bytes payload =
     (if prefix envelope_magic payload then Some payload
      else case std_decode (trim_space payload) of
             None \<Rightarrow> None
           | Some decoded \<Rightarrow> if prefix envelope_magic decoded then Some decoded else None)"

definition decrypt :: "aead \<Rightarrow> string \<Rightarrow> string \<Rightarrow> string option" where
  "decrypt A key payload =
     (case envelope_bytes payload of
        None \<Rightarrow> None
      | Some raw \<Rightarrow>
          if length raw < length envelope_magic + nonce_size + ae_overhead A then None
          else let body = drop (length envelope_magic) raw
               in ae_open A key (take nonce_size body) (drop nonce_size body) envelope_magic)"

section \<open>The middleware\<close>

type_synonym headers = "(string \<times> string list) list"

text \<open>\<open>Header.Get\<close>, \<open>Set\<close> and \<open>Add\<close>; the names are in their canonical form.\<close>

definition header_get :: "headers \<Rightarrow> string \<Rightarrow> string" where
  "header_get h k = (case map_of h k of Some (v # _) \<Rightarrow> v | _ \<Rightarrow> [])"

fun header_set :: "string \<Rightarrow> string \<Rightarrow> headers \<Rightarrow> headers" where
  "header_set k v [] = [(k, [v])]"
| "header_set k v ((k', vs) # h) = (if k' = k then (k, [v]) # h else (k', vs) # header_set k v h)"

fun header_add :: "string \<Rightarrow> string \<Rightarrow> headers \<Rightarrow> headers" where
  "header_add k v [] = [(k, [v])]"
| "header_add k v ((k', vs) # h) = (if k' = k then (k, vs @ [v]) # h else (k', vs) # header_add k v h)"

text \<open>A request; a body is its bytes and whether reading it breaks off after them.\<close>

record channel_request =
  hq_headers :: headers
  hq_body :: "(string \<times> bool) option"
  hq_length :: int

text \<open>The calls of a handler on its writer, and what \<open>responseBuffer\<close> makes of them.\<close>

datatype writer_call =
    SetHeader string string
  | AddHeader string string
  | WriteHeader int
  | WriteBytes string

record response_buffer =
  rb_header :: headers
  rb_buf :: string
  rb_status :: int
  rb_wrote :: bool

definition write_header :: "int \<Rightarrow> response_buffer \<Rightarrow> response_buffer" where
  "write_header code r = (if rb_wrote r then r else r\<lparr>rb_status := code, rb_wrote := True\<rparr>)"

fun buffer_call :: "writer_call \<Rightarrow> response_buffer \<Rightarrow> response_buffer" where
  "buffer_call (SetHeader k v) r = r\<lparr>rb_header := header_set k v (rb_header r)\<rparr>"
| "buffer_call (AddHeader k v) r = r\<lparr>rb_header := header_add k v (rb_header r)\<rparr>"
| "buffer_call (WriteHeader code) r = write_header code r"
| "buffer_call (WriteBytes b) r =
     (let r' = (if rb_wrote r then r else write_header 200 r) in r'\<lparr>rb_buf := rb_buf r' @ b\<rparr>)"

definition new_buffer :: response_buffer where
  "new_buffer = \<lparr>rb_header = [], rb_buf = [], rb_status = 200, rb_wrote = False\<rparr>"

definition max_encrypted_request_bytes :: int where
  "max_encrypted_request_bytes = 512 * 2 ^ 20"

definition cipher_aes256gcm :: string where
  "cipher_aes256gcm = ''aes-256-gcm''"

abbreviation header_encrypted :: string where "header_encrypted \<equiv> ''X-File4base-Encrypted''"
abbreviation header_accept :: string where "header_accept \<equiv> ''Accept-Encryption''"
abbreviation header_original_type :: string where "header_original_type \<equiv> ''X-Original-Content-Type''"

datatype answer =
    Passed channel_request
  | Refused int
  | Answered headers int string

definition asked_cipher :: "unicode \<Rightarrow> string \<Rightarrow> channel_request \<Rightarrow> bool" where
  "asked_cipher U name rq \<longleftrightarrow> to_lower U (trim_space (header_get (hq_headers rq) name)) = cipher_aes256gcm"

text \<open>Reading the body of a request that is declared encrypted: the request the handler sees.\<close>

definition open_request :: "unicode \<Rightarrow> aead \<Rightarrow> int \<Rightarrow> string \<Rightarrow> channel_request \<Rightarrow> int + channel_request" where
  "open_request U A max_bytes key rq =
     (case hq_body rq of
        None \<Rightarrow> Inr rq
      | Some (body, broken) \<Rightarrow>
          if \<not> asked_cipher U header_encrypted rq then Inr rq
          else if int (length body) > max_bytes then Inl 413
          else if broken then Inl 400
          else if body = [] then Inr (rq\<lparr>hq_body := Some ([], False), hq_length := 0\<rparr>)
          else case decrypt A key body of
                 None \<Rightarrow> Inl 400
               | Some p \<Rightarrow>
                   Inr (rq\<lparr>hq_body := Some (p, False), hq_length := int (length p),
                           hq_headers := header_set ''Content-Length'' (show_nat (length p)) (hq_headers rq)\<rparr>))"

definition copy_headers :: "headers \<Rightarrow> headers" where
  "copy_headers h =
     fold (\<lambda>(k, vs) w. if equal_fold k ''content-length'' then w else fold (header_add k) vs w) h []"

definition seal_response :: "aead \<Rightarrow> string \<Rightarrow> string option \<Rightarrow> response_buffer \<Rightarrow> answer" where
  "seal_response A key random r =
     (let w = copy_headers (rb_header r)
      in if rb_buf r = [] \<or> rb_status r = 204 then Answered w (rb_status r) []
         else case encrypt A key random (rb_buf r) of
                None \<Rightarrow> Answered w 500 []
              | Some sealed \<Rightarrow>
                  (let ct = header_get (rb_header r) ''Content-Type'';
                       w = (if ct \<noteq> [] then header_set header_original_type ct w else w);
                       w = header_set header_encrypted cipher_aes256gcm w;
                       w = header_set ''Content-Type'' ''application/octet-stream'' w;
                       w = header_set ''Content-Length'' (show_nat (length sealed)) w
                   in Answered w (rb_status r) sealed))"

definition channel :: "unicode \<Rightarrow> aead \<Rightarrow> (string \<Rightarrow> string) \<Rightarrow> string \<Rightarrow> string option
    \<Rightarrow> (channel_request \<Rightarrow> writer_call list) \<Rightarrow> channel_request \<Rightarrow> answer" where
  "channel U A sha256 secret random handler rq0 =
     (let key = derive_key sha256 secret
      in case open_request U A max_encrypted_request_bytes key rq0 of
           Inl code \<Rightarrow> Refused code
         | Inr rq \<Rightarrow>
             if \<not> (asked_cipher U header_encrypted rq0 \<or> asked_cipher U header_accept rq0) then Passed rq
             else seal_response A key random (fold buffer_call (handler rq) new_buffer))"

section \<open>What an envelope opens\<close>

definition well_sealed :: "aead \<Rightarrow> string \<Rightarrow> string \<Rightarrow> string \<Rightarrow> bool" where
  "well_sealed A key p env \<longleftrightarrow>
     (\<exists>nonce. length nonce = nonce_size \<and> env = envelope_magic @ nonce @ ae_seal A key nonce p envelope_magic)"

lemma prefix_magic: "prefix envelope_magic (envelope_magic @ s)"
  by simp

lemma decrypt_iff:
  assumes "authenticated A"
  shows "decrypt A key payload = Some p \<longleftrightarrow>
    (\<exists>env. envelope_bytes payload = Some env \<and> well_sealed A key p env)"
proof
  assume "decrypt A key payload = Some p"
  then obtain env where env: "envelope_bytes payload = Some env"
    and len: "length envelope_magic + nonce_size + ae_overhead A \<le> length env"
    and opened: "ae_open A key (take nonce_size (drop (length envelope_magic) env))
        (drop nonce_size (drop (length envelope_magic) env)) envelope_magic = Some p"
    by (auto simp: decrypt_def Let_def split: option.splits if_splits)
  from env have "prefix envelope_magic env"
    by (auto simp: envelope_bytes_def split: if_splits option.splits)
  then obtain body where body: "env = envelope_magic @ body" by (auto elim: prefixE)
  with opened assms have "drop nonce_size body = ae_seal A key (take nonce_size body) p envelope_magic"
    by (simp add: authenticated_def)
  moreover have "length (take nonce_size body) = nonce_size" using len body by simp
  ultimately have "well_sealed A key p env"
    unfolding well_sealed_def body by (metis append_take_drop_id)
  with env show "\<exists>env. envelope_bytes payload = Some env \<and> well_sealed A key p env" by blast
next
  assume "\<exists>env. envelope_bytes payload = Some env \<and> well_sealed A key p env"
  then obtain nonce where env: "envelope_bytes payload =
      Some (envelope_magic @ nonce @ ae_seal A key nonce p envelope_magic)" and n: "length nonce = nonce_size"
    by (auto simp: well_sealed_def)
  from assms have "length (ae_seal A key nonce p envelope_magic) = length p + ae_overhead A"
    "ae_open A key nonce (ae_seal A key nonce p envelope_magic) envelope_magic = Some p"
    by (auto simp: authenticated_def)
  with env n show "decrypt A key payload = Some p" by (simp add: decrypt_def)
qed


text \<open>What was encrypted opens again, sent as it is or as base64.\<close>

lemma std_letter_visible: "n < 64 \<Longrightarrow> visible (std_letter n) \<and> std_letter n \<noteq> CHR 0x01"
proof -
  have "list_all (\<lambda>n. visible (std_letter n) \<and> std_letter n \<noteq> CHR 0x01) [0 ..< 64]" by code_simp
  then show "n < 64 \<Longrightarrow> ?thesis" by (auto simp: list_all_iff)
qed

lemma std_encode_visible: "c \<in> set (std_encode s) \<Longrightarrow> visible c \<and> c \<noteq> CHR 0x01"
proof -
  have "visible pad_char" by (simp add: visible_def)
  then show "c \<in> set (std_encode s) \<Longrightarrow> ?thesis"
    by (induction s rule: std_encode.induct) (auto simp: std_letter_visible byte_parts)
qed

lemma std_encode_trimmed: "trim_space (std_encode s) = std_encode s"
proof (cases "std_encode s = []")
  case False
  show ?thesis
    by (rule trim_space_visible [OF False])
      (simp_all only: std_encode_visible [OF hd_in_set [OF False]] std_encode_visible [OF last_in_set [OF False]])
qed simp

lemma base64_not_magic: "\<not> prefix envelope_magic (std_encode s)"
  using std_encode_visible [of "CHR 0x01" s] by (auto simp: envelope_magic_def elim!: prefixE)

lemma encrypted_opens:
  assumes "authenticated A" and "encrypt A key (Some nonce) p = Some env" and "length nonce = nonce_size"
  shows "decrypt A key env = Some p" and "decrypt A key (std_encode env) = Some p"
proof -
  have env: "well_sealed A key p env" "prefix envelope_magic env"
    using assms(2,3) by (auto simp: encrypt_def well_sealed_def)
  then show "decrypt A key env = Some p"
    unfolding decrypt_iff [OF assms(1)] by (auto simp: envelope_bytes_def)
  show "decrypt A key (std_encode env) = Some p"
    unfolding decrypt_iff [OF assms(1)]
    using env by (auto simp: envelope_bytes_def base64_not_magic std_encode_trimmed std_decode_encode)
qed

section \<open>The channel\<close>

lemma header_get_set: "header_get (header_set k v h) k' = (if k' = k then v else header_get h k')"
  by (induction h) (auto simp: header_get_def split: list.splits)


text \<open>Surrounding white space in the secret does not matter, and a blank one is the default.\<close>

lemma derive_key_trimmed: "derive_key h secret = derive_key h (trim_space secret)"
  by (simp add: derive_key_def)

lemma derive_key_blank: "trim_space secret = [] \<Longrightarrow> derive_key h secret = derive_key h default_channel_secret"
proof -
  have "trim_space default_channel_secret = default_channel_secret"
    unfolding default_channel_secret_def by (rule trim_space_visible) (simp_all add: visible_def)
  then show "trim_space secret = [] \<Longrightarrow> ?thesis" by (simp add: derive_key_def default_channel_secret_def)
qed

section \<open>Examples\<close>

text \<open>A cipher that appends its key, nonce and additional data as the tag.\<close>

definition demo_tag :: "string \<Rightarrow> string \<Rightarrow> string \<Rightarrow> string" where
  "demo_tag k n a = take 16 (k @ n @ a @ replicate 16 (CHR ''x''))"

definition demo_aead :: aead where
  "demo_aead =
     \<lparr>ae_seal = (\<lambda>k n p a. p @ demo_tag k n a),
      ae_open = (\<lambda>k n c a. if suffix (demo_tag k n a) c then Some (take (length c - 16) c) else None),
      ae_overhead = 16\<rparr>"

lemma demo_tag_length: "length (demo_tag k n a) = 16"
  by (simp add: demo_tag_def)

lemma demo_authenticated: "authenticated demo_aead"
proof -
  have "(if suffix (demo_tag k n a) c then Some (take (length c - 16) c) else None) = Some p \<longleftrightarrow> c = p @ demo_tag k n a"
    for k n a c p
    using demo_tag_length [of k n a] by (auto simp: suffix_def)
  then show ?thesis by (simp add: authenticated_def demo_aead_def demo_tag_length)
qed

definition demo_nonce :: string where
  "demo_nonce = ''abcdefghijkl''"

lemma demo_nonce_length: "length demo_nonce = nonce_size"
  by (simp add: demo_nonce_def nonce_size_def)


definition demo_body :: string where
  "demo_body = envelope_magic @ demo_nonce @ ''hi'' @ demo_tag (derive_key id ''s'') demo_nonce envelope_magic"

definition demo_sealed :: channel_request where
  "demo_sealed = \<lparr>hq_headers = [(header_encrypted, [''aes-256-gcm''])], hq_body = Some (demo_body, False), hq_length = 35\<rparr>"

lemma demo_asked: "asked_cipher ascii_only header_encrypted demo_sealed"
proof -
  have "trim_space ''aes-256-gcm'' = ''aes-256-gcm''" by (rule trim_space_visible) (simp_all add: visible_def)
  moreover have "to_lower ascii_only ''aes-256-gcm'' = ''aes-256-gcm''"
    by (simp add: to_lower_def rune_lower_def encode_rune_ascii, code_simp)
  ultimately show ?thesis
    by (simp add: asked_cipher_def demo_sealed_def header_get_def cipher_aes256gcm_def)
qed

lemma demo_opened: "decrypt demo_aead (derive_key id ''s'') demo_body = Some ''hi''"
  unfolding decrypt_iff [OF demo_authenticated]
  using demo_nonce_length by (auto simp: envelope_bytes_def well_sealed_def demo_aead_def demo_body_def)

lemma demo_body_small: "demo_body \<noteq> []" "int (length demo_body) \<le> max_encrypted_request_bytes"
  by (simp_all add: demo_body_def envelope_magic_def demo_nonce_def demo_tag_length max_encrypted_request_bytes_def)

lemma demo_answered: "\<exists>h status out. channel ascii_only demo_aead id ''s'' (Some demo_nonce) (\<lambda>rq. [WriteBytes ''secret'']) demo_sealed
    = Answered h status out"
  using demo_asked demo_opened demo_body_small
  by (simp add: channel_def open_request_def demo_sealed_def seal_response_def encrypt_def Let_def not_less)


end
