(* ===== verification/Telemetry.thy ===== *)
theory Telemetry
  imports Go_Float Go_Encoding "HOL-Library.AList"
begin

text \<open>
  Request telemetry: \<open>server/internal/telemetry\<close>. Trace contexts (\<open>trace.go\<close>), problem details
  (\<open>problem.go\<close>), the logging middleware (\<open>middleware.go\<close>) and the collector (\<open>collector.go\<close>), whose mutex
  makes each call atomic. Moments are seconds since the epoch; the rendering of a moment, the random
  bytes and the memory statistics are arguments. Counters are integers without a bound.
\<close>

section \<open>Trace contexts\<close>

definition generate_trace_id :: "string option \<Rightarrow> string" where
  "generate_trace_id random =
     (case random of None \<Rightarrow> ''00000000000000000000000000000001'' | Some b \<Rightarrow> hex_encode b)"

definition generate_span_id :: "string option \<Rightarrow> string" where
  "generate_span_id random =
     (case random of None \<Rightarrow> ''0000000000000001'' | Some b \<Rightarrow> hex_encode b)"

definition parse_traceparent :: "string \<Rightarrow> (string \<times> string) option" where
  "parse_traceparent header =
     (case split_char (CHR ''-'') (trim_space header) of
        vsn # tid # sid # flg # rst \<Rightarrow>
          if length vsn \<noteq> 2 \<or> vsn = ''ff'' then None
          else if length tid \<noteq> 32 \<or> length sid \<noteq> 16 then None
          else if \<not> hex_decodes tid then None
          else if \<not> hex_decodes sid then None
          else if tid = replicate 32 (CHR ''0'') \<or> sid = replicate 16 (CHR ''0'') then None
          else Some (tid, sid)
      | _ \<Rightarrow> None)"

definition traceparent_header :: "string \<times> string \<Rightarrow> string" where
  "traceparent_header ts = ''00-'' @ fst ts @ ''-'' @ snd ts @ ''-01''"

section \<open>Problem details\<close>

definition default_type_for_status :: "int \<Rightarrow> string" where
  "default_type_for_status status =
     ''https://file4base.org/errors/'' @
     (if status = 400 then ''bad-request'' else if status = 401 then ''unauthorized''
      else if status = 403 then ''forbidden'' else if status = 404 then ''not-found''
      else if status = 409 then ''conflict'' else if status = 422 then ''validation-failed''
      else if status = 429 then ''rate-limit-exceeded'' else if status = 503 then ''service-unavailable''
      else ''internal-error'')"

record problem_details =
  pb_type :: string
  pb_title :: string
  pb_status :: int
  pb_detail :: string
  pb_instance :: string
  pb_invalid :: "(string \<times> string) list"
  pb_trace :: string

text \<open>The request, when there is one, gives the trace id of its context and its path.\<close>

definition write_problem :: "(string \<times> string) option \<Rightarrow> int \<Rightarrow> string \<Rightarrow> string \<Rightarrow> problem_details" where
  "write_problem rq status title detail =
     \<lparr>pb_type = default_type_for_status status, pb_title = title, pb_status = status,
      pb_detail = trim_space detail,
      pb_instance = (case rq of None \<Rightarrow> [] | Some (trace, path) \<Rightarrow> path), pb_invalid = [],
      pb_trace = (case rq of None \<Rightarrow> [] | Some (trace, path) \<Rightarrow> trace)\<rparr>"

definition write_validation_problem :: "(string \<times> string) option \<Rightarrow> string \<Rightarrow> (string \<times> string) list
    \<Rightarrow> problem_details" where
  "write_validation_problem rq detail invalid =
     \<lparr>pb_type = ''https://file4base.org/errors/validation-failed'', pb_title = ''Validation Failed'', pb_status = 422,
      pb_detail = detail,
      pb_instance = (case rq of None \<Rightarrow> [] | Some (trace, path) \<Rightarrow> path), pb_invalid = invalid,
      pb_trace = (case rq of None \<Rightarrow> [] | Some (trace, path) \<Rightarrow> trace)\<rparr>"

definition write_internal_error :: "(string \<times> string) option \<Rightarrow> string option \<Rightarrow> problem_details" where
  "write_internal_error rq err =
     write_problem rq 500 ''Internal Server Error''
       (case err of None \<Rightarrow> ''An unexpected server error occurred.'' | Some msg \<Rightarrow> msg)"

section \<open>Log entries\<close>

record log_entry =
  le_timestamp :: string
  le_level :: string
  le_message :: string
  le_trace :: string
  le_span :: string
  le_service :: string
  le_version :: string
  le_method :: string
  le_path :: string
  le_status :: int
  le_bytes :: int
  le_duration :: f64
  le_client :: string
  le_agent :: string

definition is_failed :: "log_entry \<Rightarrow> bool" where
  "is_failed e \<longleftrightarrow> 400 \<le> le_status e"

section \<open>The middleware\<close>

text \<open>What the writer it wraps around the response counts; a write is given by the bytes that got through.\<close>

datatype status_call = StatusHeader int | StatusWrite int

fun status_step :: "status_call \<Rightarrow> int \<times> int \<Rightarrow> int \<times> int" where
  "status_step (StatusHeader code) (status, bytes) = (code, bytes)"
| "status_step (StatusWrite n) (status, bytes) = ((if status = 0 then 200 else status), bytes + n)"

record log_env =
  lg_service :: string
  lg_version :: string
  lg_client :: string
  lg_method :: string
  lg_path :: string
  lg_agent :: string
  lg_stamp :: string
  lg_random_trace :: "string option"
  lg_random_span :: "string option"
  lg_micros :: int

definition trace_ids :: "log_env \<Rightarrow> string \<Rightarrow> string \<times> string" where
  "trace_ids L header =
     (case parse_traceparent header of
        Some ids \<Rightarrow> ids
      | None \<Rightarrow> (generate_trace_id (lg_random_trace L), generate_span_id (lg_random_span L)))"

definition response_headers :: "string \<times> string \<Rightarrow> (string \<times> string) list" where
  "response_headers ids =
     [(''traceparent'', traceparent_header ids), (''X-Trace-ID'', fst ids),
      (''X-Content-Type-Options'', ''nosniff''), (''X-Frame-Options'', ''SAMEORIGIN''),
      (''Referrer-Policy'', ''strict-origin-when-cross-origin'')]"

definition log_level :: "int \<Rightarrow> string" where
  "log_level status = (if 500 \<le> status then ''ERROR'' else if 400 \<le> status then ''WARN'' else ''INFO'')"

text \<open>The entry a request leaves in the log, \<open>None\<close> for a healthy probe.\<close>

definition request_entry :: "log_env \<Rightarrow> string \<Rightarrow> status_call list \<Rightarrow> log_entry option" where
  "request_entry L header calls =
     (let ids = trace_ids L header;
          (status, bytes) = fold status_step calls (200, 0)
      in if (lg_path L = ''/healthz/liveness'' \<or> lg_path L = ''/livez'') \<and> status = 200 then None
         else Some
           \<lparr>le_timestamp = lg_stamp L, le_level = log_level status,
            le_message = ''HTTP '' @ lg_method L @ '' '' @ lg_path L @ '' -> '' @ show_int status,
            le_trace = fst ids, le_span = snd ids, le_service = lg_service L, le_version = lg_version L,
            le_method = lg_method L, le_path = lg_path L, le_status = status, le_bytes = bytes,
            le_duration = f_div (f_of_int (lg_micros L)) (Fin 1000), le_client = lg_client L, le_agent = lg_agent L\<rparr>)"

section \<open>The collector\<close>

record minute_bucket =
  mb_timestamp :: string
  mb_label :: string
  mb_requests :: int
  mb_2xx :: int
  mb_3xx :: int
  mb_4xx :: int
  mb_5xx :: int
  mb_bytes :: int
  mb_avg :: f64
  mb_p95 :: f64
  mb_max :: f64
  mb_latency :: f64
  mb_latencies :: "f64 list"

record endpoint_stat =
  ep_method :: string
  ep_path :: string
  ep_requests :: int
  ep_errors :: int
  ep_bytes :: int
  ep_avg :: f64
  ep_max :: f64
  ep_latency :: f64

record collector =
  tc_start :: int
  tc_service :: string
  tc_version :: string
  tc_requests :: int
  tc_errors :: int
  tc_bytes :: int
  tc_latency :: f64
  tc_buckets :: "int \<Rightarrow> minute_bucket option"
  tc_endpoints :: "(string \<times> endpoint_stat) list"
  tc_recent :: "log_entry list"
  tc_recent_errors :: "log_entry list"

definition new_collector :: "int \<Rightarrow> collector" where
  "new_collector start =
     \<lparr>tc_start = start, tc_service = ''file4base-api'', tc_version = ''0.12.1'', tc_requests = 0, tc_errors = 0,
      tc_bytes = 0, tc_latency = fzero, tc_buckets = Map.empty, tc_endpoints = [], tc_recent = [],
      tc_recent_errors = []\<rparr>"

definition all_rune_digits :: "string \<Rightarrow> bool" where
  "all_rune_digits p \<longleftrightarrow> list_all (\<lambda>r. 48 \<le> r \<and> r \<le> 57) (runes p)"

definition normalize_part :: "string \<Rightarrow> string" where
  "normalize_part p =
     (if 24 \<le> length p \<and> 3 \<le> length (filter (\<lambda>c. c = CHR ''-'') p) then ''{id}''
      else if p \<noteq> [] \<and> all_rune_digits p then ''{id}'' else p)"

definition normalize_path :: "string \<Rightarrow> string" where
  "normalize_path path = join ''/'' (map normalize_part (split_char (CHR ''/'') path))"

definition minute_of :: "int \<Rightarrow> int" where
  "minute_of now = now div 60 * 60"

definition new_bucket :: "(string \<Rightarrow> int \<Rightarrow> string) \<Rightarrow> int \<Rightarrow> minute_bucket" where
  "new_bucket fmt epoch =
     \<lparr>mb_timestamp = fmt ''2006-01-02T15:04:05Z07:00'' epoch, mb_label = fmt ''15:04'' epoch, mb_requests = 0,
      mb_2xx = 0, mb_3xx = 0, mb_4xx = 0, mb_5xx = 0, mb_bytes = 0, mb_avg = fzero, mb_p95 = fzero, mb_max = fzero,
      mb_latency = fzero, mb_latencies = []\<rparr>"

definition count_status :: "int \<Rightarrow> minute_bucket \<Rightarrow> minute_bucket" where
  "count_status status b =
     (if 500 \<le> status then b\<lparr>mb_5xx := mb_5xx b + 1\<rparr>
      else if 400 \<le> status then b\<lparr>mb_4xx := mb_4xx b + 1\<rparr>
      else if 300 \<le> status then b\<lparr>mb_3xx := mb_3xx b + 1\<rparr>
      else b\<lparr>mb_2xx := mb_2xx b + 1\<rparr>)"

definition bucket_add :: "log_entry \<Rightarrow> minute_bucket \<Rightarrow> minute_bucket" where
  "bucket_add e b =
     (let n = mb_requests b + 1;
          l = f_add (mb_latency b) (le_duration e)
      in count_status (le_status e)
           (b\<lparr>mb_requests := n, mb_bytes := mb_bytes b + le_bytes e, mb_latency := l,
              mb_avg := f_div l (f_of_int n),
              mb_max := (if f_lt (mb_max b) (le_duration e) then le_duration e else mb_max b),
              mb_latencies := (if length (mb_latencies b) < 500 then mb_latencies b @ [le_duration e]
                               else mb_latencies b)\<rparr>))"

definition record_bucket :: "(string \<Rightarrow> int \<Rightarrow> string) \<Rightarrow> int \<Rightarrow> log_entry \<Rightarrow> (int \<Rightarrow> minute_bucket option)
    \<Rightarrow> int \<Rightarrow> minute_bucket option" where
  "record_bucket fmt m e bs =
     (let (b, bs) =
        (case bs m of
           Some b \<Rightarrow> (b, bs)
         | None \<Rightarrow>
             (new_bucket fmt m, \<lambda>k. if k < m - 65 * 60 then None else (bs(m \<mapsto> new_bucket fmt m)) k))
      in bs(m \<mapsto> bucket_add e b))"

definition new_endpoint :: "string \<Rightarrow> string \<Rightarrow> endpoint_stat" where
  "new_endpoint meth path =
     \<lparr>ep_method = meth, ep_path = path, ep_requests = 0, ep_errors = 0, ep_bytes = 0, ep_avg = fzero,
      ep_max = fzero, ep_latency = fzero\<rparr>"

definition endpoint_add :: "log_entry \<Rightarrow> endpoint_stat \<Rightarrow> endpoint_stat" where
  "endpoint_add e ep =
     (let n = ep_requests ep + 1;
          l = f_add (ep_latency ep) (le_duration e)
      in ep\<lparr>ep_requests := n, ep_bytes := ep_bytes ep + le_bytes e, ep_latency := l, ep_avg := f_div l (f_of_int n),
            ep_max := (if f_lt (ep_max ep) (le_duration e) then le_duration e else ep_max ep),
            ep_errors := (if is_failed e then ep_errors ep + 1 else ep_errors ep)\<rparr>)"

definition endpoint_key :: "string \<Rightarrow> string \<Rightarrow> string" where
  "endpoint_key meth path = meth @ '' '' @ path"

definition record_endpoint :: "log_entry \<Rightarrow> (string \<times> endpoint_stat) list \<Rightarrow> (string \<times> endpoint_stat) list" where
  "record_endpoint e eps =
     (let path = normalize_path (le_path e);
          key = endpoint_key (le_method e) path
      in case map_of eps key of
           Some ep \<Rightarrow> AList.update key (endpoint_add e ep) eps
         | None \<Rightarrow>
             let path = (if 200 \<le> length eps then ''other'' else path);
                 key = endpoint_key (le_method e) path
             in AList.update key (endpoint_add e (new_endpoint (le_method e) path)) eps)"

definition record_entry :: "(string \<Rightarrow> int \<Rightarrow> string) \<Rightarrow> int \<Rightarrow> log_entry \<Rightarrow> collector \<Rightarrow> collector" where
  "record_entry fmt now e c =
     c\<lparr>tc_service := (if le_service e \<noteq> [] then le_service e else tc_service c),
       tc_version := (if le_version e \<noteq> [] then le_version e else tc_version c),
       tc_requests := tc_requests c + 1,
       tc_bytes := tc_bytes c + le_bytes e,
       tc_latency := f_add (tc_latency c) (le_duration e),
       tc_errors := (if is_failed e then tc_errors c + 1 else tc_errors c),
       tc_buckets := record_bucket fmt (minute_of now) e (tc_buckets c),
       tc_endpoints := record_endpoint e (tc_endpoints c),
       tc_recent := take 100 (e # tc_recent c),
       tc_recent_errors := (if is_failed e then take 50 (e # tc_recent_errors c) else tc_recent_errors c)\<rparr>"

section \<open>Snapshots\<close>

text \<open>\<open>sort.Float64s\<close> puts NaN first; \<open>None\<close> is an index out of range, a panic.\<close>

definition float_less :: "f64 \<Rightarrow> f64 \<Rightarrow> bool" where
  "float_less x y \<longleftrightarrow> f_lt x y \<or> x = NaN \<and> y \<noteq> NaN"

definition compute_p95 :: "(f64 \<Rightarrow> int) \<Rightarrow> f64 list \<Rightarrow> f64 option" where
  "compute_p95 oor vals =
     (if vals = [] then Some fzero
      else let cp = stable_sort float_less vals;
               idx = f_to_int oor (f_mul (f_of_int (int (length cp) - 1)) (round64 False (19 / 20)))
           in if 0 \<le> idx \<and> idx < int (length cp) then Some (cp ! nat idx) else None)"

record memory_stats =
  ms_alloc :: f64
  ms_sys :: f64
  ms_goroutines :: int
  ms_gc :: int

record snapshot =
  sn_service :: string
  sn_version :: string
  sn_uptime :: int
  sn_requests :: int
  sn_errors :: int
  sn_bytes :: int
  sn_rpm :: int
  sn_avg :: f64
  sn_p95 :: f64
  sn_memory :: memory_stats
  sn_series :: "minute_bucket list"
  sn_endpoints :: "endpoint_stat list"
  sn_recent :: "log_entry list"
  sn_recent_errors :: "log_entry list"
  sn_collected :: string

definition snapshot_minutes :: "int \<Rightarrow> nat" where
  "snapshot_minutes minutes = (if minutes \<le> 0 \<or> 60 < minutes then 30 else nat minutes)"

definition series_bucket :: "(f64 \<Rightarrow> int) \<Rightarrow> (string \<Rightarrow> int \<Rightarrow> string) \<Rightarrow> (int \<Rightarrow> minute_bucket option) \<Rightarrow> int
    \<Rightarrow> minute_bucket option" where
  "series_bucket oor fmt bs epoch =
     (case bs epoch of
        Some b \<Rightarrow> map_option (\<lambda>p. b\<lparr>mb_p95 := p\<rparr>) (compute_p95 oor (mb_latencies b))
      | None \<Rightarrow> Some (new_bucket fmt epoch))"

definition current_rpm :: "minute_bucket list \<Rightarrow> int" where
  "current_rpm series =
     (case rev series of
        [] \<Rightarrow> 0
      | [b] \<Rightarrow> mb_requests b
      | b # b' # _ \<Rightarrow> if mb_requests b < mb_requests b' then mb_requests b' else mb_requests b)"

text \<open>
  \<open>Snapshot\<close>; the order \<open>sort.Slice\<close> leaves the endpoints in, which Go does not determine for equal
  counts, is the argument \<open>arrange\<close>. \<open>None\<close> is a panic.
\<close>

definition take_snapshot :: "(f64 \<Rightarrow> int) \<Rightarrow> (string \<Rightarrow> int \<Rightarrow> string) \<Rightarrow> (endpoint_stat list \<Rightarrow> endpoint_stat list)
    \<Rightarrow> memory_stats \<Rightarrow> int \<Rightarrow> int \<Rightarrow> collector \<Rightarrow> snapshot option" where
  "take_snapshot oor fmt arrange mem now minutes c =
     (let n = snapshot_minutes minutes;
          epochs = map (\<lambda>i. minute_of now - int i * 60) (rev [0 ..< n]);
          latencies = concat (map (\<lambda>k. case tc_buckets c k of Some b \<Rightarrow> mb_latencies b | None \<Rightarrow> []) epochs)
      in case those (map (series_bucket oor fmt (tc_buckets c)) epochs) of
           None \<Rightarrow> None
         | Some series \<Rightarrow>
             map_option (\<lambda>p95.
               \<lparr>sn_service = tc_service c, sn_version = tc_version c, sn_uptime = now - tc_start c,
                sn_requests = tc_requests c, sn_errors = tc_errors c, sn_bytes = tc_bytes c,
                sn_rpm = current_rpm series,
                sn_avg = (if 0 < tc_requests c then f_div (tc_latency c) (f_of_int (tc_requests c)) else fzero),
                sn_p95 = p95, sn_memory = mem, sn_series = series,
                sn_endpoints = take 25 (arrange (map snd (tc_endpoints c))),
                sn_recent = tc_recent c, sn_recent_errors = tc_recent_errors c,
                sn_collected = fmt ''2006-01-02T15:04:05Z07:00'' now\<rparr>)
               (compute_p95 oor latencies))"

section \<open>Percentiles\<close>

lemma ninety_five: "round64 False (19 / 20) = Fin (8556839292003942 / 2 ^ 53)"
  by code_simp

lemma p95_index:
  assumes "N \<le> 2 ^ 40"
  shows "f_to_int oor (f_mul (f_of_int (int N)) (round64 False (19 / 20))) = int (19 * N div 20)"
proof (cases "N = 0")
  case True
  then show ?thesis by (simp add: f_mul_def ninety_five f_is_zero_def) (simp add: round64_def rat_trunc_def)
next
  case False
  define c :: rat where "c = 8556839292003942 / 2 ^ 53"
  define r where "r = of_nat N * c"
  define q where "q = ilog2 r - 52"
  define k where "k = 19 * N div 20"
  define v where "v = of_int (round_even (r / pow2 q)) * pow2 q"
  have N1: "1 \<le> N" using False by simp
  have Nr: "(1::rat) \<le> of_nat N" "(of_nat N :: rat) \<le> 2 ^ 40"
    using N1 assms by (simp_all flip: of_nat_le_iff)
  have split: "(19 * of_nat N :: rat) = 20 * of_nat k + of_nat (19 * N mod 20)"
  proof -
    have "19 * N = 20 * k + 19 * N mod 20" by (simp add: k_def)
    then have "(of_nat (19 * N) :: rat) = of_nat (20 * k + 19 * N mod 20)" by simp
    then show ?thesis by simp
  qed
  have rN: "r = 19 * of_nat N / 20 - of_nat N * (8 / 20) / 2 ^ 53"
    by (simp add: r_def c_def)
  have r_lo: "1 / 2 \<le> r" using Nr by (simp add: r_def c_def)
  have r_hi: "r \<le> 2 ^ 40" using Nr by (simp add: r_def c_def)
  then have "r < 2 ^ 1000" by (rule order_le_less_trans) simp
  note nf = round64_normal [OF r_lo this, folded q_def]
  have fin: "f_mul (f_of_int (int N)) (round64 False (19 / 20)) = Fin v"
    using assms nf(1) N1
    by (simp add: f_mul_def ninety_five f_is_zero_def v_def r_def c_def)
  have "of_nat k \<le> v \<and> v < of_nat k + 1"
  proof (cases "19 * N mod 20 = 0")
    case True
    then have "20 dvd 19 * N" by (simp add: mod_eq_0_iff_dvd)
    then have "20 dvd N" by presburger
    then obtain j where j: "N = 20 * j" by auto
    then have kj: "k = 19 * j" by (simp add: k_def)
    have "ilog2 r < 52"
    proof (rule ccontr)
      assume "\<not> ilog2 r < 52"
      then have "pow2 52 \<le> pow2 (ilog2 r)" by (intro pow2_mono) simp
      with ilog2_bounds(1) [of r] r_lo r_hi show False by (simp add: pow2_def)
    qed
    then have i: "q = - int (nat (52 - ilog2 r))" by (simp add: q_def)
    define i where "i = nat (52 - ilog2 r)"
    with i have i: "q = - int i" by simp
    then have pq: "pow2 q = 1 / 2 ^ i" by (simp add: pow2_def)
    have exact: "(of_int (int k * 2 ^ i) :: rat) = of_nat k / pow2 q" by (simp add: pq)
    have "of_nat k - r = 8 * of_nat j / 2 ^ 53" by (simp add: rN kj j)
    moreover have "8 * of_nat j / 2 ^ 53 < pow2 q / 2"
    proof -
      have "r = 19 * of_nat j - 8 * of_nat j / 2 ^ 53" by (simp add: rN j)
      then have "17 * of_nat j \<le> r" by simp
      moreover have "(0::rat) < of_nat j" using N1 j by (cases j) auto
      ultimately have "16 * of_nat j < pow2 q * 2 ^ 53" using nf(4) by linarith
      then show ?thesis by simp
    qed
    ultimately have close: "\<bar>of_nat k - r\<bar> < pow2 q / 2"
      by (simp add: abs_of_nonneg)
    have "\<bar>of_int (int k * 2 ^ i) - r / pow2 q\<bar> = \<bar>of_nat k - r\<bar> / pow2 q"
      unfolding exact by (simp add: pow2_pos abs_of_pos flip: diff_divide_distrib)
    also have "\<dots> < 1 / 2" using close pow2_pos [of q] by (simp add: field_simps)
    finally have "round_even (r / pow2 q) = int k * 2 ^ i" by (rule round_even_unique)
    then have "v = of_nat k" unfolding v_def by (simp add: pq)
    then show ?thesis by simp
  next
    case False
    have m: "(1::rat) \<le> of_nat (19 * N mod 20)" "(of_nat (19 * N mod 20) :: rat) \<le> 19"
    proof -
      have "1 \<le> 19 * N mod 20" "19 * N mod 20 \<le> 19" using False by linarith+
      then show "(1::rat) \<le> of_nat (19 * N mod 20)" "(of_nat (19 * N mod 20) :: rat) \<le> 19"
        by (simp_all flip: of_nat_le_iff)
    qed
    have "pow2 q \<le> 1 / 2 ^ 10" using nf(3) r_hi by simp
    then have "\<bar>v - r\<bar> \<le> 1 / 2 ^ 11" using nf(2) by (simp add: v_def)
    moreover have "of_nat k + 1 / 20 - 1 / 2 ^ 10 \<le> r" "r \<le> of_nat k + 19 / 20"
    proof -
      define a b where "a = (of_nat N :: rat)" and "b = (of_nat (19 * N mod 20) :: rat)"
      have "r = 19 * a / 20 - a / 22517998136852480" "19 * a = 20 * of_nat k + b" "1 \<le> b" "b \<le> 19"
          "1 \<le> a" "a \<le> 1099511627776"
        using split m Nr by (simp_all add: rN a_def b_def)
      then have "r = of_nat k + b / 20 - a / 22517998136852480" "b \<le> 19" "1 \<le> b" "1 \<le> a"
          "a / 22517998136852480 \<le> 1 / 2 ^ 14" by (simp_all add: add_divide_distrib)
      then show "of_nat k + 1 / 20 - 1 / 2 ^ 10 \<le> r" "r \<le> of_nat k + 19 / 20" by simp_all
    qed
    ultimately show ?thesis unfolding abs_le_iff by simp
  qed
  then have "\<lfloor>v\<rfloor> = int k" "0 \<le> v" by (simp_all add: floor_eq_iff)
  moreover have "int k < 2 ^ 63" using assms by (simp add: k_def)
  ultimately show ?thesis unfolding fin by (simp add: rat_trunc_def k_def)
qed
lemma float_less_asym: "float_less x y \<Longrightarrow> \<not> float_less y x"
  by (auto simp: float_less_def dest: f_lt_asym)

lemma float_less_negtrans: "\<not> float_less x y \<Longrightarrow> \<not> float_less y z \<Longrightarrow> \<not> float_less x z"
  unfolding float_less_def f_lt_def by (cases x; cases y; cases z) auto

lemma p95_value:
  assumes "vals \<noteq> []" and "length vals \<le> 2 ^ 40"
  shows "compute_p95 oor vals = Some (stable_sort float_less vals ! (19 * (length vals - 1) div 20))"
proof -
  have "int (length vals) - 1 = int (length vals - 1)" using assms by (cases vals) auto
  moreover have "length vals - 1 \<le> 2 ^ 40" using assms by simp
  note p95_index [OF this, of oor]
  moreover have "19 * (length vals - 1) div 20 < length vals" using assms by (cases vals) auto
  ultimately show ?thesis
    unfolding compute_p95_def Let_def length_stable_sort using assms(1) by (simp only: if_False) simp
qed

lemma p95_total: "length vals \<le> 2 ^ 40 \<Longrightarrow> \<exists>p. compute_p95 oor vals = Some p"
  using p95_value [of vals oor] by (cases "vals = []") (auto simp: compute_p95_def)

text \<open>
  The 95th percentile is the element at rank \<open>floor (0.95 * (n - 1))\<close>, although the rank is
  computed in floating point: for up to \<open>2 ^ 40\<close> values the product of \<open>n - 1\<close> and the nearest double
  to 0.95 rounds so that its integer part is the exact one, the index is in range (no panic), and the
  value returned is one of the values, with at least that many of them below or equal and the others
  above or equal.
\<close>

theorem p95_rank:
  assumes "vals \<noteq> []" and "length vals \<le> 2 ^ 40" and "rank = 19 * (length vals - 1) div 20"
  shows "\<exists>p. compute_p95 oor vals = Some p \<and> p \<in> set vals \<and>
    rank < length (filter (\<lambda>x. \<not> float_less p x) vals) \<and>
    length vals - rank \<le> length (filter (\<lambda>x. \<not> float_less x p) vals)"
proof -
  let ?s = "stable_sort float_less vals"
  have r: "rank < length ?s" using assms by (cases vals) auto
  have irr: "\<And>x. \<not> float_less x x" using float_less_asym by blast
  have sorted: "sorted_wrt (\<lambda>x y. \<not> float_less y x) ?s"
    by (rule sorted_stable_sort [OF float_less_asym float_less_negtrans])
  have "?s ! rank \<in> set vals" using nth_mem [OF r] by simp
  then show ?thesis
    using p95_value [OF assms(1,2), of oor] sorted_rank [OF sorted irr r]
    unfolding assms(3) [symmetric] length_filter_stable_sort length_stable_sort by blast
qed

theorem p95_rank_witness:
  "\<exists>p. compute_p95 amd64_oor [Fin 4, Fin 1, Fin 9] = Some p \<and> p \<in> set [Fin 4, Fin 1, Fin 9] \<and>
    1 < length (filter (\<lambda>x. \<not> float_less p x) [Fin 4, Fin 1, Fin 9]) \<and>
    length [Fin 4, Fin 1, Fin 9] - 1 \<le> length (filter (\<lambda>x. \<not> float_less x p) [Fin 4, Fin 1, Fin 9])"
  by (rule p95_rank) simp_all

section \<open>What a log leaves in the collector\<close>

text \<open>A log: the entries in the order of their recording, each with the moment it was recorded.\<close>

definition record_log :: "(string \<Rightarrow> int \<Rightarrow> string) \<Rightarrow> (int \<times> log_entry) list \<Rightarrow> collector \<Rightarrow> collector" where
  "record_log fmt rs = fold (\<lambda>(now, e). record_entry fmt now e) rs"

definition minute_entries :: "(int \<times> log_entry) list \<Rightarrow> int \<Rightarrow> log_entry list" where
  "minute_entries rs k = map snd (filter (\<lambda>(now, e). minute_of now = k) rs)"

definition bucket_of :: "(string \<Rightarrow> int \<Rightarrow> string) \<Rightarrow> log_entry list \<Rightarrow> int \<Rightarrow> minute_bucket" where
  "bucket_of fmt es k = fold bucket_add es (new_bucket fmt k)"

definition buckets_of :: "(string \<Rightarrow> int \<Rightarrow> string) \<Rightarrow> (int \<times> log_entry) list \<Rightarrow> int \<Rightarrow> minute_bucket option" where
  "buckets_of fmt rs k =
     (if minute_entries rs k = [] \<or> k < minute_of (fst (last rs)) - 3900 then None
      else Some (bucket_of fmt (minute_entries rs k) k))"

lemma record_log_simps [simp]:
  "record_log fmt [] c = c"
  "record_log fmt (rs @ [(now, e)]) c = record_entry fmt now e (record_log fmt rs c)"
  by (simp_all add: record_log_def)

lemma minute_entries_simps [simp]:
  "minute_entries [] k = []"
  "minute_entries (rs @ [(now, e)]) k = minute_entries rs k @ (if minute_of now = k then [e] else [])"
  by (simp_all add: minute_entries_def)

lemma bucket_of_simps [simp]:
  "bucket_of fmt [] k = new_bucket fmt k" "bucket_of fmt [e] k = bucket_add e (new_bucket fmt k)"
  "bucket_of fmt (es @ [e]) k = bucket_add e (bucket_of fmt es k)"
  by (simp_all add: bucket_of_def)

lemma minute_of_mono: "a \<le> b \<Longrightarrow> minute_of a \<le> minute_of b"
  by (simp add: minute_of_def zdiv_mono1)

lemma minute_entries_last:
  assumes "sorted (map fst (rs @ [(now, e)]))" and "minute_entries rs k \<noteq> []"
  shows "k \<le> minute_of (fst (last rs))" and "minute_of (fst (last rs)) \<le> minute_of now"
proof -
  from assms(2) obtain t x where "(t, x) \<in> set rs" "minute_of t = k"
    by (auto simp: minute_entries_def filter_empty_conv)
  moreover from this have "rs \<noteq> []" by auto
  then have "\<forall>p\<in>set rs. fst p \<le> fst (last rs)" "fst (last rs) \<le> now"
    using assms(1) by (induction rs rule: rev_induct) (auto simp: sorted_append)
  ultimately show "k \<le> minute_of (fst (last rs))" and "minute_of (fst (last rs)) \<le> minute_of now"
    by (auto intro!: minute_of_mono)
qed

lemma record_bucket_step:
  assumes "sorted (map fst (rs @ [(now, e)]))"
  shows "record_bucket fmt (minute_of now) e (buckets_of fmt rs) = buckets_of fmt (rs @ [(now, e)])"
proof
  fix k
  let ?m = "minute_of now"
  show "record_bucket fmt ?m e (buckets_of fmt rs) k = buckets_of fmt (rs @ [(now, e)]) k"
  proof (cases "minute_entries rs ?m = []")
    case True
    then show ?thesis
      using minute_entries_last [OF assms, of k]
      by (cases "minute_entries rs k = []") (auto simp: record_bucket_def buckets_of_def)
  next
    case False
    then have "minute_of (fst (last rs)) = ?m" using minute_entries_last [OF assms] by fastforce
    then show ?thesis using False by (auto simp: record_bucket_def buckets_of_def)
  qed
qed

lemma take_recent: "take n (x # take n xs) = take n (x # xs)"
  by (cases n) (simp_all add: min_def)

lemma record_log_collector:
  assumes "sorted (map fst rs)" and "es = map snd rs"
  shows "let c = record_log fmt rs (new_collector start) in
    tc_start c = start \<and>
    tc_requests c = int (length es) \<and> tc_errors c = int (length (filter is_failed es)) \<and>
    tc_bytes c = sum_list (map le_bytes es) \<and> tc_recent c = take 100 (rev es) \<and>
    tc_recent_errors c = take 50 (rev (filter is_failed es)) \<and> tc_buckets c = buckets_of fmt rs"
  using assms
proof (induction rs arbitrary: es rule: rev_induct)
  case Nil
  then show ?case by (simp add: new_collector_def buckets_of_def fun_eq_iff)
next
  case (snoc p rs)
  obtain now e where p: "p = (now, e)" by (cases p)
  have sorted: "sorted (map fst rs)" using snoc.prems by (simp add: sorted_append)
  note ih = snoc.IH [OF sorted refl, unfolded Let_def]
  have "record_bucket fmt (minute_of now) e (tc_buckets (record_log fmt rs (new_collector start)))
      = buckets_of fmt (rs @ [(now, e)])"
    using ih record_bucket_step [of rs now e fmt] snoc.prems by (simp add: p)
  then show ?case
    using ih snoc.prems(2) by (simp add: p Let_def record_entry_def take_recent)
qed

lemma bucket_of_facts:
  "mb_requests (bucket_of fmt es k) = int (length es) \<and>
   mb_2xx (bucket_of fmt es k) + mb_3xx (bucket_of fmt es k) + mb_4xx (bucket_of fmt es k)
     + mb_5xx (bucket_of fmt es k) = int (length es) \<and>
   mb_4xx (bucket_of fmt es k) + mb_5xx (bucket_of fmt es k) = int (length (filter is_failed es)) \<and>
   mb_bytes (bucket_of fmt es k) = sum_list (map le_bytes es) \<and>
   mb_latencies (bucket_of fmt es k) = take 500 (map le_duration es)"
proof (induction es rule: rev_induct)
  case (snoc e es)
  then show ?case
    by (auto simp: bucket_add_def count_status_def is_failed_def Let_def)
qed (simp add: new_bucket_def)


definition window :: "int \<Rightarrow> int \<Rightarrow> int list" where
  "window now minutes = map (\<lambda>i. minute_of now - int i * 60) (rev [0 ..< snapshot_minutes minutes])"

lemma snapshot_minutes_range: "1 \<le> snapshot_minutes m \<and> snapshot_minutes m \<le> 60"
  by (auto simp: snapshot_minutes_def)

lemma window_recent:
  assumes "k \<in> set (window now m)" and "list_all (\<lambda>p. fst p \<le> now) rs" and "rs \<noteq> []"
  shows "\<not> k < minute_of (fst (last rs)) - 3900"
proof -
  from assms(1) obtain i where "k = minute_of now - int i * 60" "i < snapshot_minutes m"
    by (auto simp: window_def)
  moreover have "i < 60" using \<open>i < _\<close> snapshot_minutes_range [of m] by simp
  moreover have "minute_of (fst (last rs)) \<le> minute_of now"
    using assms(2,3) by (auto simp: list_all_iff intro!: minute_of_mono)
  ultimately show ?thesis by simp
qed

definition shown_bucket :: "(f64 \<Rightarrow> int) \<Rightarrow> (string \<Rightarrow> int \<Rightarrow> string) \<Rightarrow> log_entry list \<Rightarrow> int \<Rightarrow> minute_bucket" where
  "shown_bucket oor fmt es k =
     (if es = [] then new_bucket fmt k
      else (bucket_of fmt es k)\<lparr>mb_p95 := the (compute_p95 oor (take 500 (map le_duration es)))\<rparr>)"

lemma shown_bucket_requests [simp]: "mb_requests (shown_bucket oor fmt es k) = int (length es)"
  using bucket_of_facts [of fmt es k] by (simp add: shown_bucket_def new_bucket_def)

lemma series_bucket_log:
  assumes "k \<in> set (window now m)" and "list_all (\<lambda>p. fst p \<le> now) rs"
  shows "series_bucket oor fmt (buckets_of fmt rs) k = Some (shown_bucket oor fmt (minute_entries rs k) k)"
proof (cases "minute_entries rs k = []")
  case True
  then show ?thesis by (simp add: series_bucket_def buckets_of_def shown_bucket_def)
next
  case False
  then have "rs \<noteq> []" by auto
  note recent = window_recent [OF assms this]
  let ?lat = "take 500 (map le_duration (minute_entries rs k))"
  have "length ?lat \<le> 2 ^ 40" by simp
  from p95_total [OF this] obtain p where "compute_p95 oor ?lat = Some p" by blast
  then show ?thesis
    using False recent bucket_of_facts [of fmt "minute_entries rs k" k]
    by (simp add: series_bucket_def buckets_of_def shown_bucket_def)
qed

lemma window_latencies:
  "length (concat (map (\<lambda>k. case buckets_of fmt rs k of Some b \<Rightarrow> mb_latencies b | None \<Rightarrow> []) (window now m)))
    \<le> 2 ^ 40"
proof -
  have "length (case buckets_of fmt rs k of Some b \<Rightarrow> mb_latencies b | None \<Rightarrow> []) \<le> 500" for k
    using bucket_of_facts [of fmt "minute_entries rs k" k] by (simp add: buckets_of_def)
  then have "length (concat (map (\<lambda>k. case buckets_of fmt rs k of Some b \<Rightarrow> mb_latencies b | None \<Rightarrow> []) ks))
      \<le> 500 * length ks" for ks
    by (induction ks) (auto intro: add_mono)
  from this [of "window now m"] snapshot_minutes_range [of m] show ?thesis
    by (simp add: window_def)
qed

text \<open>
  A report is always produced, and its numbers are the log's: whatever was recorded up to now and
  for whatever number of minutes asked (1 to 60, and 30 for any other), no percentile indexes out of
  range, the series has one entry for each of those minutes, ending in the present one, with the number
  of requests of that minute, and at most 25 endpoints are listed.
\<close>

theorem snapshot_exact:
  assumes "sorted (map fst rs)" and "list_all (\<lambda>p. fst p \<le> now) rs"
    and "c = record_log fmt rs (new_collector start)" and "\<And>xs. length (arrange xs) = length xs"
  shows "\<exists>s. take_snapshot oor fmt arrange mem now minutes c = Some s \<and>
    sn_uptime s = now - start \<and> sn_requests s = int (length rs) \<and>
    sn_errors s = int (length (filter is_failed (map snd rs))) \<and>
    map mb_requests (sn_series s) =
      map (\<lambda>i. int (length (minute_entries rs (minute_of now - int i * 60)))) (rev [0 ..< snapshot_minutes minutes]) \<and>
    length (sn_endpoints s) = min 25 (length (tc_endpoints c)) \<and>
    sn_recent s = take 100 (rev (map snd rs))"
proof -
  note log = record_log_collector [OF assms(1) refl, of fmt start, folded assms(3), unfolded Let_def]
  have series: "those (map (series_bucket oor fmt (tc_buckets c)) (window now minutes))
      = Some (map (\<lambda>k. shown_bucket oor fmt (minute_entries rs k) k) (window now minutes))"
    using series_bucket_log [OF _ assms(2)] log by (intro those_map) simp
  let ?lat = "concat (map (\<lambda>k. case tc_buckets c k of Some b \<Rightarrow> mb_latencies b | None \<Rightarrow> []) (window now minutes))"
  have "length ?lat \<le> 2 ^ 40" using window_latencies [of fmt rs now minutes] log by simp
  from p95_total [OF this] obtain p where "compute_p95 oor ?lat = Some p" by blast
  with series show ?thesis
    unfolding take_snapshot_def Let_def window_def [symmetric]
    using log assms(4) by (simp add: window_def)
qed

definition sample_request :: log_entry where
  "sample_request =
     \<lparr>le_timestamp = [], le_level = ''INFO'', le_message = [], le_trace = [], le_span = [], le_service = ''api'',
      le_version = ''1'', le_method = ''GET'', le_path = ''/a/42'', le_status = 404, le_bytes = 7,
      le_duration = Fin 3, le_client = [], le_agent = []\<rparr>"


theorem snapshot_exact_witness:
  "\<exists>s. take_snapshot amd64_oor (\<lambda>f t. f) rev \<lparr>ms_alloc = Fin 1, ms_sys = Fin 2, ms_goroutines = 3, ms_gc = 4\<rparr> 100 2
      (record_log (\<lambda>f t. f) [(60, sample_request), (61, sample_request)] (new_collector 0)) = Some s \<and>
    sn_uptime s = 100 \<and> sn_requests s = 2 \<and> map mb_requests (sn_series s) = [0, 2]"
  using snapshot_exact [OF _ _ refl length_rev, of "[(60, sample_request), (61, sample_request)]" 100 amd64_oor
      "\<lambda>f t. f" "\<lparr>ms_alloc = Fin 1, ms_sys = Fin 2, ms_goroutines = 3, ms_gc = 4\<rparr>" 2 0]
  by (auto simp: snapshot_minutes_def minute_entries_def minute_of_def numeral_2_eq_2)

section \<open>Endpoints\<close>

definition entry_key :: "log_entry \<Rightarrow> string" where
  "entry_key e = endpoint_key (le_method e) (normalize_path (le_path e))"

definition endpoint_of :: "log_entry list \<Rightarrow> endpoint_stat" where
  "endpoint_of es = fold endpoint_add es (new_endpoint (le_method (hd es)) (normalize_path (le_path (hd es))))"

lemma record_endpoint_known:
  "map_of eps (entry_key e) = Some ep \<Longrightarrow>
    map_of (record_endpoint e eps) = (map_of eps)(entry_key e \<mapsto> endpoint_add e ep)"
  by (simp add: record_endpoint_def entry_key_def Let_def update_conv')

lemma record_endpoint_new:
  "map_of eps (entry_key e) = None \<Longrightarrow> length eps < 200 \<Longrightarrow>
    map_of (record_endpoint e eps) = (map_of eps)(entry_key e \<mapsto> endpoint_of [e])"
  by (simp add: record_endpoint_def entry_key_def endpoint_of_def Let_def update_conv')

lemma endpoint_of_facts:
  "es \<noteq> [] \<Longrightarrow> ep_requests (endpoint_of es) = int (length es) \<and>
    ep_errors (endpoint_of es) = int (length (filter is_failed es)) \<and>
    ep_bytes (endpoint_of es) = sum_list (map le_bytes es) \<and>
    ep_method (endpoint_of es) = le_method (hd es) \<and> ep_path (endpoint_of es) = normalize_path (le_path (hd es))"
proof -
  have "ep_requests (fold endpoint_add es ep) = ep_requests ep + int (length es) \<and>
    ep_errors (fold endpoint_add es ep) = ep_errors ep + int (length (filter is_failed es)) \<and>
    ep_bytes (fold endpoint_add es ep) = ep_bytes ep + sum_list (map le_bytes es) \<and>
    ep_method (fold endpoint_add es ep) = ep_method ep \<and> ep_path (fold endpoint_add es ep) = ep_path ep" for ep
    by (induction es arbitrary: ep) (auto simp: endpoint_add_def Let_def)
  then show ?thesis by (simp add: endpoint_of_def new_endpoint_def)
qed

text \<open>With at most two hundred routes in the log every route has the statistics of its own requests.\<close>

lemma record_log_endpoints:
  assumes "card (entry_key ` set (map snd rs)) \<le> 200"
  shows "map_of (tc_endpoints (record_log fmt rs (new_collector start))) key =
      (case filter (\<lambda>e. entry_key e = key) (map snd rs) of [] \<Rightarrow> None | es \<Rightarrow> Some (endpoint_of es))"
    and "fst ` set (tc_endpoints (record_log fmt rs (new_collector start))) = entry_key ` set (map snd rs)"
    and "distinct (map fst (tc_endpoints (record_log fmt rs (new_collector start))))"
proof -
  let ?c = "\<lambda>rs. tc_endpoints (record_log fmt rs (new_collector start))"
  have "(\<forall>key. map_of (?c rs) key =
      (case filter (\<lambda>e. entry_key e = key) (map snd rs) of [] \<Rightarrow> None | es \<Rightarrow> Some (endpoint_of es))) \<and>
    fst ` set (?c rs) = entry_key ` set (map snd rs) \<and> distinct (map fst (?c rs))"
    using assms
  proof (induction rs rule: rev_induct)
    case (snoc p rs)
    obtain now e where p: "p = (now, e)" by (cases p)
    let ?k = "entry_key e" and ?es = "\<lambda>key. filter (\<lambda>e. entry_key e = key) (map snd rs)"
    have keys: "entry_key ` set (map snd (rs @ [p])) = insert ?k (entry_key ` set (map snd rs))"
      by (simp add: p)
    have "card (entry_key ` set (map snd rs)) \<le> card (entry_key ` set (map snd (rs @ [p])))"
      unfolding keys by (rule card_insert_le)
    with snoc have ih: "\<And>key. map_of (?c rs) key = (case ?es key of [] \<Rightarrow> None | es \<Rightarrow> Some (endpoint_of es))"
        "fst ` set (?c rs) = entry_key ` set (map snd rs)" "distinct (map fst (?c rs))"
      by auto
    have step: "?c (rs @ [p]) = record_endpoint e (?c rs)" by (simp add: p record_entry_def)
    have upd: "map_of (?c (rs @ [p])) = (map_of (?c rs))(?k \<mapsto> endpoint_of (?es ?k @ [e]))"
    proof (cases "?es ?k")
      case Nil
      then have "?k \<notin> entry_key ` set (map snd rs)" by (auto simp: filter_empty_conv)
      then have "Suc (card (entry_key ` set (map snd rs))) = card (entry_key ` set (map snd (rs @ [p])))"
        unfolding keys by simp
      then have "card (set (map fst (?c rs))) < 200" using snoc.prems ih(2) by simp
      then have "length (?c rs) < 200" using distinct_card [OF ih(3)] by simp
      then show ?thesis using record_endpoint_new [of "?c rs" e] ih(1) [of ?k] Nil by (simp add: step)
    next
      case (Cons a as)
      then show ?thesis
        using record_endpoint_known [of "?c rs" e "endpoint_of (?es ?k)"] ih(1) [of ?k]
        by (simp add: step endpoint_of_def)
    qed
    have "distinct (map fst (?c (rs @ [p])))"
      using ih(3) unfolding step record_endpoint_def Let_def
      by (auto intro!: distinct_update split: option.split)
    moreover have "fst ` set (?c (rs @ [p])) = entry_key ` set (map snd (rs @ [p]))"
    proof -
      have "dom (map_of (?c (rs @ [p]))) = insert ?k (dom (map_of (?c rs)))" unfolding upd by simp
      then show ?thesis unfolding keys ih(2) [symmetric] dom_map_of_conv_image_fst .
    qed
    moreover have "map_of (?c (rs @ [p])) key = (case filter (\<lambda>e. entry_key e = key) (map snd (rs @ [p])) of
        [] \<Rightarrow> None | es \<Rightarrow> Some (endpoint_of es))" for key
      unfolding upd using ih(1) [of key] by (auto simp: p split: list.splits)
    ultimately show ?case by blast
  qed (simp add: new_collector_def)
  then show "map_of (?c rs) key =
      (case filter (\<lambda>e. entry_key e = key) (map snd rs) of [] \<Rightarrow> None | es \<Rightarrow> Some (endpoint_of es))"
    and "fst ` set (?c rs) = entry_key ` set (map snd rs)" and "distinct (map fst (?c rs))" by blast+
qed

text \<open>
  Past that bound every request for a route without an entry starts the common one again: what it
  had counted is lost.
\<close>

lemma overflow_endpoint_restarts:
  assumes "200 \<le> length eps" and "map_of eps (entry_key e) = None"
  shows "map_of (record_endpoint e eps) (endpoint_key (le_method e) ''other'') =
    Some (endpoint_add e (new_endpoint (le_method e) ''other''))"
  using assms by (simp add: record_endpoint_def entry_key_def Let_def update_conv')

definition well_formed_ids :: "string \<times> string \<Rightarrow> bool" where
  "well_formed_ids ids \<longleftrightarrow> length (fst ids) = 32 \<and> length (snd ids) = 16 \<and>
     list_all is_hex_digit (fst ids) \<and> list_all is_hex_digit (snd ids) \<and>
     fst ids \<noteq> replicate 32 (CHR ''0'') \<and> snd ids \<noteq> replicate 16 (CHR ''0'')"

lemma parsed_ids: "parse_traceparent h = Some ids \<Longrightarrow> well_formed_ids ids"
  by (auto simp: parse_traceparent_def well_formed_ids_def hex_decodes_def split: list.splits if_splits)

lemma parse_header:
  assumes "well_formed_ids ids"
  shows "parse_traceparent (traceparent_header ids) = Some ids"
proof -
  obtain a b where ids: "ids = (a, b)" by (cases ids)
  have "CHR ''-'' \<notin> set s" if "list_all is_hex_digit s" for s
    using that by (auto simp: list_all_iff is_hex_digit_def)
  then have dash: "CHR ''-'' \<notin> set a" "CHR ''-'' \<notin> set b"
    using assms by (auto simp: well_formed_ids_def ids)
  have "trim_space (traceparent_header ids) = traceparent_header ids"
    by (rule trim_space_visible) (simp_all add: traceparent_header_def visible_def)
  moreover have "split_char (CHR ''-'') (traceparent_header ids) = [''00'', a, b, ''01'']"
    using dash by (simp add: traceparent_header_def ids split_char_once split_char_none)
  ultimately show ?thesis
    using assms by (simp add: parse_traceparent_def well_formed_ids_def ids hex_decodes_def)
qed

lemma encoded_random:
  assumes "pred_option (\<lambda>b. length b = n \<and> b \<noteq> replicate n (CHR 0x00)) r" and "r = Some b"
  shows "length (hex_encode b) = 2 * n \<and> list_all is_hex_digit (hex_encode b) \<and>
    hex_encode b \<noteq> replicate (2 * n) (CHR ''0'')"
  using assms hex_encode_digits [of b] hex_encode_zeros [of b n] by auto

text \<open>
  Trace contexts travel: the \<open>traceparent\<close> header the middleware puts on a response is one the same
  parser accepts, with the same two ids, whether the ids came from the request's own header (anything
  at all), from the random generator (unless all its bytes are zero) or are the fallback ids.
\<close>

theorem trace_propagates:
  assumes "pred_option (\<lambda>b. length b = 16 \<and> b \<noteq> replicate 16 (CHR 0x00)) (lg_random_trace L)"
    and "pred_option (\<lambda>b. length b = 8 \<and> b \<noteq> replicate 8 (CHR 0x00)) (lg_random_span L)"
  shows "parse_traceparent (traceparent_header (trace_ids L header)) = Some (trace_ids L header)"
proof (rule parse_header)
  show "well_formed_ids (trace_ids L header)"
  proof (cases "parse_traceparent header")
    case None
    have fixed: "list_all is_hex_digit ''00000000000000000000000000000001'' \<and>
        list_all is_hex_digit ''0000000000000001''" by code_simp
    have "length (generate_trace_id (lg_random_trace L)) = 32 \<and>
        list_all is_hex_digit (generate_trace_id (lg_random_trace L)) \<and>
        generate_trace_id (lg_random_trace L) \<noteq> replicate 32 (CHR ''0'')"
      using encoded_random [OF assms(1)] fixed
      by (cases "lg_random_trace L") (simp_all add: generate_trace_id_def numeral_eq_Suc)
    moreover have "length (generate_span_id (lg_random_span L)) = 16 \<and>
        list_all is_hex_digit (generate_span_id (lg_random_span L)) \<and>
        generate_span_id (lg_random_span L) \<noteq> replicate 16 (CHR ''0'')"
      using encoded_random [OF assms(2)] fixed
      by (cases "lg_random_span L") (simp_all add: generate_span_id_def numeral_eq_Suc)
    ultimately show ?thesis using None by (simp add: trace_ids_def well_formed_ids_def)
  qed (simp add: trace_ids_def parsed_ids)
qed

definition sample_env :: log_env where
  "sample_env =
     \<lparr>lg_service = ''api'', lg_version = ''1'', lg_client = [], lg_method = ''GET'', lg_path = ''/'', lg_agent = [],
      lg_stamp = [], lg_random_trace = Some ''0123456789abcdef'', lg_random_span = Some ''01234567'', lg_micros = 5\<rparr>"

theorem trace_propagates_witness:
  "parse_traceparent (traceparent_header (trace_ids sample_env ''00-x'')) = Some (trace_ids sample_env ''00-x'')"
  by (rule trace_propagates) (simp_all add: sample_env_def numeral_eq_Suc)


lemma normalize_part_idem: "normalize_part (normalize_part p) = normalize_part p"
proof -
  have "normalize_part ''{id}'' = ''{id}''" by code_simp
  then show ?thesis by (simp add: normalize_part_def)
qed

lemma normalize_path_idem: "normalize_path (normalize_path path) = normalize_path path"
proof -
  let ?ps = "map normalize_part (split_char (CHR ''/'') path)"
  have "\<forall>x\<in>set ?ps. CHR ''/'' \<notin> set x"
    using split_char_no_sep by (auto simp: normalize_part_def)
  then have "split_char (CHR ''/'') (join ''/'' ?ps) = ?ps" by (intro split_char_join) simp_all
  then show ?thesis by (simp add: normalize_path_def normalize_part_idem comp_def)
qed

end
