(* ===== verification/Swagger_Base64.thy ===== *)
theory Swagger_Base64
  imports Main
begin

text \<open>
  The base64 codec inside the script bundles of the API documentation page,
  \<open>server/internal/api/swagger/ui/swagger-ui-bundle.js\<close> and \<open>swagger-ui-standalone-preset.js\<close> (the
  same pair is under \<open>docs/swagger\<close>): the functions \<open>getLens\<close>, \<open>byteLength\<close>, \<open>toByteArray\<close>,
  \<open>fromByteArray\<close> and \<open>encodeChunk\<close>. These are minified third-party files, one long line each; only
  this module of them is modelled.

  A JavaScript string is the list of its code units; reading outside a string or a table gives
  \<open>undefined\<close>, which the shifts turn into 0. A typed array ignores writes past its end and starts
  out as zeros. All intermediate values stay below \<open>2^24\<close>, so the 32-bit operators are those on
  natural numbers.
\<close>

unbundle bit_operations_syntax

section \<open>The tables\<close>

definition b64_alphabet :: "nat list" where
  "b64_alphabet = map of_char ''ABCDEFGHIJKLMNOPQRSTUVWXYZabcdefghijklmnopqrstuvwxyz0123456789+/''"

definition b64_lookup :: "nat \<Rightarrow> nat" where
  "b64_lookup i = b64_alphabet ! i"

text \<open>The reverse table, with the URL-safe characters added at the end of the module.\<close>

definition b64_rev :: "nat \<Rightarrow> nat" where
  "b64_rev c =
     (if c = 45 then 62 else if c = 95 then 63
      else if c \<in> set b64_alphabet then length (takeWhile (\<lambda>d. d \<noteq> c) b64_alphabet) else 0)"

definition code_at :: "nat list \<Rightarrow> nat \<Rightarrow> nat" where
  "code_at s i = (if i < length s then b64_rev (s ! i) else 0)"

section \<open>Decoding\<close>

datatype js_error = BadStringLength | BadArrayLength

abbreviation equals_sign :: nat where "equals_sign \<equiv> 61"

definition get_lens :: "nat list \<Rightarrow> js_error + nat \<times> nat" where
  "get_lens s =
     (let n = length s; i = length (takeWhile (\<lambda>c. c \<noteq> equals_sign) s)
      in if n mod 4 > 0 then Inl BadStringLength
         else Inr (i, if i = n then 0 else 4 - i mod 4))"

definition byte_length :: "nat list \<Rightarrow> js_error + int" where
  "byte_length s =
     (case get_lens s of
        Inl e \<Rightarrow> Inl e
      | Inr (i, p) \<Rightarrow> Inr (3 * (int i + int p) div 4 - int p))"

definition decode_quad :: "nat list \<Rightarrow> nat list" where
  "decode_quad s =
     (let t = push_bit 18 (code_at s 0) OR push_bit 12 (code_at s 1) OR push_bit 6 (code_at s 2)
                OR code_at s 3
      in [drop_bit 16 t AND 255, drop_bit 8 t AND 255, 255 AND t])"

text \<open>The loop over groups of four characters.\<close>

fun decode_groups :: "nat \<Rightarrow> nat list \<Rightarrow> nat list" where
  "decode_groups 0 s = []"
| "decode_groups (Suc n) s = decode_quad s @ decode_groups n (drop 4 s)"

definition decode_tail :: "nat \<Rightarrow> nat list \<Rightarrow> nat list" where
  "decode_tail p s =
     (if p = 2
      then [255 AND (push_bit 2 (code_at s 0) OR drop_bit 4 (code_at s 1))]
      else if p = 1
      then (let t = push_bit 10 (code_at s 0) OR push_bit 4 (code_at s 1) OR drop_bit 2 (code_at s 2)
            in [drop_bit 8 t AND 255, 255 AND t])
      else [])"

definition typed_array :: "nat \<Rightarrow> nat list \<Rightarrow> nat list" where
  "typed_array n out = take n (out @ replicate n 0)"

definition to_byte_array :: "nat list \<Rightarrow> js_error + nat list" where
  "to_byte_array s =
     (case get_lens s of
        Inl e \<Rightarrow> Inl e
      | Inr (i, p) \<Rightarrow>
          (let len = 3 * (int i + int p) div 4 - int p;
               l = (if p > 0 then i - 4 else i);
               groups = (l + 3) div 4
           in if len < 0 then Inl BadArrayLength
              else Inr (typed_array (nat len)
                     (decode_groups groups s @ decode_tail p (drop (4 * groups) s)))))"

section \<open>Encoding\<close>

definition encode_triple :: "nat \<Rightarrow> nat \<Rightarrow> nat \<Rightarrow> nat list" where
  "encode_triple a b c =
     (let t = (push_bit 16 a AND 16711680) + (push_bit 8 b AND 65280) + (255 AND c)
      in [b64_lookup (drop_bit 18 t AND 63), b64_lookup (drop_bit 12 t AND 63),
          b64_lookup (drop_bit 6 t AND 63), b64_lookup (63 AND t)])"

fun encode_chunk :: "nat list \<Rightarrow> nat list" where
  "encode_chunk (a # b # c # s) = encode_triple a b c @ encode_chunk s"
| "encode_chunk [a, b] = encode_triple a b 0"
| "encode_chunk [a] = encode_triple a 0 0"
| "encode_chunk [] = []"

definition max_chunk :: nat where
  "max_chunk = 16383"

function encode_chunks :: "nat list \<Rightarrow> nat list" where
  "encode_chunks s =
     (if s = [] then [] else encode_chunk (take max_chunk s) @ encode_chunks (drop max_chunk s))"
  by pat_completeness auto
termination
  by (relation "measure length") (auto simp: max_chunk_def)

declare encode_chunks.simps [simp del]

definition encode_tail :: "nat list \<Rightarrow> nat list" where
  "encode_tail s =
     (case s of
        [a] \<Rightarrow> [b64_lookup (drop_bit 2 a), b64_lookup (push_bit 4 a AND 63), equals_sign, equals_sign]
      | [a, b] \<Rightarrow>
          (let t = push_bit 8 a + b
           in [b64_lookup (drop_bit 10 t), b64_lookup (drop_bit 4 t AND 63),
               b64_lookup (push_bit 2 t AND 63), equals_sign])
      | _ \<Rightarrow> [])"

definition from_byte_array :: "nat list \<Rightarrow> nat list" where
  "from_byte_array s =
     (let c = length s - length s mod 3
      in encode_chunks (take c s) @ encode_tail (drop c s))"

section \<open>Facts\<close>

lemma alphabet_list: "b64_alphabet = [65..<91] @ [97..<123] @ [48..<58] @ [43, 47]"
  by (simp add: b64_alphabet_def upt_conv_Cons)

lemma alphabet_facts:
  assumes "i < 64"
  shows "b64_rev (b64_lookup i) = i \<and> b64_lookup i \<noteq> equals_sign"
proof -
  have len: "i < length b64_alphabet" using assms by (simp add: alphabet_list)
  have "distinct b64_alphabet" by (auto simp: alphabet_list)
  then have "takeWhile (\<lambda>d. d \<noteq> b64_alphabet ! i) b64_alphabet = take i b64_alphabet"
    using len by (intro takeWhile_eq_take_P_nth) (auto simp: nth_eq_iff_index_eq)
  moreover have "b64_alphabet ! i \<in> set b64_alphabet" using len by simp
  moreover from this have "b64_alphabet ! i \<notin> {45, 95, 61}" by (auto simp: alphabet_list)
  ultimately show ?thesis
    using len by (simp add: b64_rev_def b64_lookup_def)
qed

lemma and_masks: "x AND 255 = x mod 256" "255 AND x = x mod 256" "x AND 63 = x mod 64" "63 AND x = x mod (64::nat)"
  using take_bit_eq_mask [of 8 x] take_bit_eq_mask [of 6 x]
  by (simp_all add: take_bit_eq_mod mask_eq_exp_minus_1 and.commute)

lemma or_shift: "b < 2 ^ n \<Longrightarrow> push_bit n a OR b = a * 2 ^ n + (b::nat)"
proof -
  assume b: "b < 2 ^ n"
  have "push_bit n a + b = push_bit n a OR b"
  proof (rule disjunctive_add)
    fix m
    show "\<not> bit (push_bit n a) m \<or> \<not> bit b m"
    proof (cases "m < n")
      case False
      then have "b < 2 ^ m" using b by (meson linorder_not_less order_less_le_trans power_increasing one_le_numeral)
      then show ?thesis by (simp add: bit_iff_odd)
    qed (simp add: bit_push_bit_iff)
  qed
  then show ?thesis by (simp add: push_bit_eq_mult)
qed

lemma high_masks: "a < 256 \<Longrightarrow> push_bit 16 a AND 16711680 = a * 65536"
  "a < 256 \<Longrightarrow> push_bit 8 a AND 65280 = a * (256::nat)"
proof -
  assume a: "a < 256"
  have "push_bit 16 a AND push_bit 16 255 = push_bit 16 (a AND 255)"
    "push_bit 8 a AND push_bit 8 255 = push_bit 8 (a AND 255)"
    by (simp_all only: push_bit_and)
  then show "push_bit 16 a AND 16711680 = a * 65536" "push_bit 8 a AND 65280 = a * 256"
    using a by (simp_all add: push_bit_eq_mult and_masks)
qed


text \<open>What the decoder reads of an encoded group.\<close>

lemma code_at_lookup:
  "i < 64 \<Longrightarrow> code_at (b64_lookup i # s) 0 = i"
  "j < 64 \<Longrightarrow> code_at (x # b64_lookup j # s) (Suc 0) = j"
  "k < 64 \<Longrightarrow> code_at (x # y # b64_lookup k # s) 2 = k"
  "l < 64 \<Longrightarrow> code_at (x # y # z # b64_lookup l # s) 3 = l"
  using alphabet_facts by (simp_all add: code_at_def numeral_eq_Suc)

lemma quad_bits:
  assumes "t < 2 ^ 24"
  shows "push_bit 18 (t div 2 ^ 18) OR push_bit 12 (t div 2 ^ 12 mod 64) OR push_bit 6 (t div 2 ^ 6 mod 64)
    OR t mod 64 = (t::nat)"
proof -
  have e1: "push_bit 6 (t div 2 ^ 6 mod 64) OR t mod 64 = t mod 2 ^ 12"
    using or_shift [of "t mod 64" 6 "t div 2 ^ 6 mod 64"] mod_mult2_eq [of t 64 64] by simp
  have e2: "push_bit 12 (t div 2 ^ 12 mod 64) OR t mod 2 ^ 12 = t mod 2 ^ 18"
    using or_shift [of "t mod 2 ^ 12" 12 "t div 2 ^ 12 mod 64"] mod_mult2_eq [of t "2 ^ 12" 64] by simp
  have e3: "push_bit 18 (t div 2 ^ 18) OR t mod 2 ^ 18 = t"
    using or_shift [of "t mod 2 ^ 18" 18 "t div 2 ^ 18"] by simp
  show ?thesis by (simp only: or.assoc e1 e2 e3)
qed

lemma low_byte: "c < 256 \<Longrightarrow> (x * 256 + c) div 256 = x \<and> (x * 256 + c) mod 256 = (c::nat)"
  by simp

lemma bytes_of:
  assumes "a < 256" and "b < 256" and "c < 256"
  shows "(a * 65536 + b * 256 + c) div 65536 = a \<and> (a * 65536 + b * 256 + c) div 256 mod 256 = b \<and>
    (a * 65536 + b * 256 + c) mod 256 = (c::nat)"
proof -
  let ?t = "(a * 256 + b) * 256 + c"
  have d: "?t div 256 = a * 256 + b" "?t mod 256 = c" using low_byte [OF assms(3)] by blast+
  have "?t div 65536 = ?t div 256 div 256" by (simp add: div_mult2_eq [of _ 256 256, simplified])
  also have "\<dots> = a" using low_byte [OF assms(2)] by (simp only: d)
  finally have "?t div 65536 = a" .
  moreover have "?t div 256 mod 256 = b" using low_byte [OF assms(2)] by (simp only: d)
  moreover have "?t = a * 65536 + b * 256 + c" by simp
  ultimately show ?thesis using d(2) by metis
qed

lemma decode_triple:
  assumes "a < 256" and "b < 256" and "c < 256"
  shows "decode_quad (encode_triple a b c @ s) = [a, b, c]"
proof -
  define t where "t = a * 65536 + b * 256 + c"
  have lt: "t < 2 ^ 24" using assms by (simp add: t_def)
  have enc: "encode_triple a b c = [b64_lookup (t div 2 ^ 18), b64_lookup (t div 2 ^ 12 mod 64),
      b64_lookup (t div 2 ^ 6 mod 64), b64_lookup (t mod 64)]"
    using assms lt by (simp add: encode_triple_def Let_def high_masks and_masks t_def drop_bit_eq_div)
  have "decode_quad (encode_triple a b c @ s) = [t div 65536, t div 256 mod 256, t mod 256]"
    using lt quad_bits [OF lt]
    by (simp add: decode_quad_def enc code_at_lookup and_masks drop_bit_eq_div Let_def less_mult_imp_div_less)
  then show ?thesis using bytes_of [OF assms] by (simp add: t_def)
qed

lemma encode_chunk_append:
  "length xs mod 3 = 0 \<Longrightarrow> encode_chunk (xs @ ys) = encode_chunk xs @ encode_chunk ys"
  by (induction xs rule: encode_chunk.induct) auto

lemma encode_chunks_eq: "encode_chunks s = encode_chunk s"
proof (induction s rule: encode_chunks.induct)
  case (1 s)
  show ?case
  proof (cases "s = []")
    case False
    have "encode_chunk (take max_chunk s @ drop max_chunk s)
        = encode_chunk (take max_chunk s) @ encode_chunk (drop max_chunk s)"
    proof (cases "length s \<le> max_chunk")
      case short: False
      then have "length (take max_chunk s) mod 3 = 0" by (simp add: max_chunk_def)
      then show ?thesis by (rule encode_chunk_append)
    qed simp
    with 1 False show ?thesis by (subst encode_chunks.simps) simp
  qed (simp add: encode_chunks.simps)
qed

lemma encode_triple_shape: "\<exists>w x y z. encode_triple a b c = [w, x, y, z] \<and> equals_sign \<notin> {w, x, y, z}"
proof -
  have "b64_lookup (u mod 64) \<noteq> equals_sign" for u using alphabet_facts [of "u mod 64"] by simp
  then show ?thesis by (auto simp: encode_triple_def Let_def and_masks)
qed

lemma encode_chunk_facts:
  "length s = 3 * k \<Longrightarrow> \<forall>b \<in> set s. b < 256 \<Longrightarrow>
   length (encode_chunk s) = 4 * k \<and> equals_sign \<notin> set (encode_chunk s) \<and>
   decode_groups k (encode_chunk s @ t) = s"
proof (induction s arbitrary: k rule: encode_chunk.induct)
  case (1 a b c s)
  then obtain n where n: "k = Suc n" "length s = 3 * n" by (cases k) auto
  obtain w x y z where e: "encode_triple a b c = [w, x, y, z]" "equals_sign \<notin> {w, x, y, z}"
    using encode_triple_shape by blast
  have "decode_quad (encode_triple a b c @ encode_chunk s @ t) = [a, b, c]"
    using 1 by (intro decode_triple) auto
  with 1(1) [OF n(2)] 1(3) n e show ?case by auto
qed (auto, presburger+)

lemma mult_mod_64: "a * 16 mod 64 = a mod 4 * (16::nat)" "a * 4 mod 64 = a mod 16 * (4::nat)"
  using mult_mod_right [of 16 a 4] mult_mod_right [of 4 a 16] by (simp_all add: mult.commute)

lemma tail_one:
  assumes "a < 256"
  shows "decode_tail 2 (encode_tail [a] @ s) = [a] \<and>
   (\<exists>x y. encode_tail [a] = [x, y, equals_sign, equals_sign] \<and> equals_sign \<notin> {x, y})"
proof -
  have x: "a div 4 < 64" using assms by simp
  have y: "a mod 4 * 16 < 64" by simp
  have o: "push_bit 2 (a div 4) OR a mod 4 = a" using or_shift [of "a mod 4" 2 "a div 4"] by simp
  have enc: "encode_tail [a] = [b64_lookup (a div 4), b64_lookup (a mod 4 * 16), equals_sign, equals_sign]"
    by (simp add: encode_tail_def and_masks drop_bit_eq_div push_bit_eq_mult mult_mod_64)
  have "drop_bit 4 (a mod 4 * 16) = a mod 4" by (simp add: drop_bit_eq_div)
  then have "decode_tail 2 (encode_tail [a] @ s) = [a]"
    using assms o by (simp add: enc decode_tail_def code_at_lookup(1) [OF x] code_at_lookup(2) [OF y] and_masks)
  with enc alphabet_facts [OF x] alphabet_facts [OF y] show ?thesis by simp
qed

lemma tail_two:
  assumes "a < 256" and "b < 256"
  shows "decode_tail 1 (encode_tail [a, b] @ s) = [a, b] \<and>
   (\<exists>x y z. encode_tail [a, b] = [x, y, z, equals_sign] \<and> equals_sign \<notin> {x, y, z})"
proof -
  define t where "t = a * 256 + b"
  have lt: "t < 65536" using assms by (simp add: t_def)
  have x: "t div 1024 < 64" using lt by (simp add: less_mult_imp_div_less)
  have y: "t div 16 mod 64 < 64" and z: "t mod 16 * 4 < 64" by simp_all
  have e1: "push_bit 4 (t div 16 mod 64) OR t mod 16 = t mod 1024"
    using or_shift [of "t mod 16" 4 "t div 16 mod 64"] mod_mult2_eq [of t 16 64] by simp
  have e2: "push_bit 10 (t div 1024) OR t mod 1024 = t"
    using or_shift [of "t mod 1024" 10 "t div 1024"] by simp
  have d: "t div 256 = a" "t mod 256 = b" using low_byte [OF assms(2)] by (simp_all add: t_def)
  have enc: "encode_tail [a, b] = [b64_lookup (t div 1024), b64_lookup (t div 16 mod 64),
      b64_lookup (t mod 16 * 4), equals_sign]"
    by (simp add: encode_tail_def Let_def and_masks drop_bit_eq_div push_bit_eq_mult mult_mod_64
        t_def [symmetric] mult.commute [of 256 a])
  have z4: "drop_bit 2 (t mod 16 * 4) = t mod 16" by (simp add: drop_bit_eq_div)
  have "decode_tail 1 (encode_tail [a, b] @ s) = [t div 256 mod 256, t mod 256]"
    by (simp add: enc decode_tail_def Let_def code_at_lookup(1) [OF x] code_at_lookup(2) [OF y]
        code_at_lookup(3) [OF z] z4 or.assoc e1 e2 and_masks drop_bit_eq_div [of 8])
  with d assms enc alphabet_facts [OF x] alphabet_facts [OF y] alphabet_facts [OF z]
  show ?thesis by simp
qed

lemma takeWhile_no_equals:
  "equals_sign \<notin> set e \<Longrightarrow> takeWhile (\<lambda>c. c \<noteq> equals_sign) (e @ t) = e @ takeWhile (\<lambda>c. c \<noteq> equals_sign) t"
  by (auto intro: takeWhile_append2)

lemma typed_array_id: "length out = n \<Longrightarrow> typed_array n out = out"
  by (simp add: typed_array_def)

section \<open>Properties\<close>

text \<open>
  C38. Decoding what \<open>fromByteArray\<close> produced gives back the bytes, for every byte sequence, and
  \<open>byteLength\<close> of the text is their number.
\<close>

theorem base64_roundtrip:
  assumes "\<forall>b \<in> set s. b < 256"
  shows "to_byte_array (from_byte_array s) = Inr s \<and> byte_length (from_byte_array s) = Inr (int (length s))"
proof -
  define k where "k = length s div 3"
  define main where "main = take (3 * k) s"
  define rest where "rest = drop (3 * k) s"
  have s: "s = main @ rest" by (simp add: main_def rest_def)
  have c: "length s - length s mod 3 = 3 * k" by (simp add: k_def minus_mod_eq_mult_div)
  have lm: "length main = 3 * k" by (simp add: main_def k_def)
  have lr: "length rest = length s mod 3" by (simp add: rest_def k_def minus_mult_div_eq_mod [symmetric])
  have bm: "\<forall>b \<in> set main. b < 256" and br: "\<forall>b \<in> set rest. b < 256" using assms s by auto
  define e where "e = encode_chunk main"
  have out: "from_byte_array s = e @ encode_tail rest"
    by (simp add: from_byte_array_def Let_def c encode_chunks_eq e_def main_def rest_def)
  have len: "length e = 4 * k" and ne: "equals_sign \<notin> set e"
    and dec: "decode_groups k (e @ t) = main" for t
    using encode_chunk_facts [OF lm bm] by (auto simp: e_def)
  have m: "Suc (Suc (4 * k)) mod 4 = 2" "Suc (Suc (Suc (4 * k))) mod 4 = 3" "(4 * k + 3) mod 4 = 3"
    by presburger+
  have "length rest < 3" using lr by simp
  then consider "rest = []" | a where "rest = [a]" | a b where "rest = [a, b]"
    by (cases rest; cases "tl rest"; cases "tl (tl rest)") auto
  then show ?thesis
  proof cases
    case 1
    then have o: "from_byte_array s = e" by (simp add: out encode_tail_def)
    have g: "get_lens e = Inr (4 * k, 0)"
    proof -
      have "takeWhile (\<lambda>c. c \<noteq> equals_sign) e = e" using ne by (auto simp: takeWhile_eq_all_conv)
      then show ?thesis using len by (simp only: get_lens_def Let_def) simp
    qed
    have "(4 * k + 3) div 4 = k" by simp
    then have "to_byte_array e = Inr main"
      using dec [of "[]"] lm by (simp add: to_byte_array_def g decode_tail_def typed_array_id Let_def)
    moreover have "byte_length e = Inr (int (length main))" by (simp add: byte_length_def g lm)
    ultimately show ?thesis using o s 1 by simp
  next
    case 2
    with br have a: "a < 256" by simp
    obtain x y where t: "encode_tail [a] = [x, y, equals_sign, equals_sign]" "equals_sign \<notin> {x, y}"
      using tail_one [OF a] by blast
    let ?o = "e @ [x, y, equals_sign, equals_sign]"
    have o: "from_byte_array s = ?o" using 2 t by (simp add: out)
    have "takeWhile (\<lambda>c. c \<noteq> equals_sign) ?o = e @ [x, y]" using t(2) by (subst takeWhile_no_equals [OF ne]) simp
    then have g: "get_lens ?o = Inr (4 * k + 2, 2)" using len m by (simp add: get_lens_def Let_def)
    have gr: "(4 * k + 2 - 4 + 3) div 4 = k" by (cases k) simp_all
    have tl: "decode_tail 2 [x, y, equals_sign, equals_sign] = [a]"
      using tail_one [OF a, of "[]"] t by simp
    have "to_byte_array ?o = Inr (main @ [a])"
      using dec gr tl lm len by (simp add: to_byte_array_def g typed_array_id Let_def)
    moreover have "byte_length ?o = Inr (int (length (main @ [a])))" by (simp add: byte_length_def g lm)
    ultimately show ?thesis using o s 2 by simp
  next
    case 3
    with br have ab: "a < 256" "b < 256" by simp_all
    obtain x y z where t: "encode_tail [a, b] = [x, y, z, equals_sign]" "equals_sign \<notin> {x, y, z}"
      using tail_two [OF ab] by blast
    let ?o = "e @ [x, y, z, equals_sign]"
    have o: "from_byte_array s = ?o" using 3 t by (simp add: out)
    have "takeWhile (\<lambda>c. c \<noteq> equals_sign) ?o = e @ [x, y, z]" using t(2) by (subst takeWhile_no_equals [OF ne]) simp
    then have g: "get_lens ?o = Inr (4 * k + 3, 1)" using len m by (simp add: get_lens_def Let_def)
    have gr: "(4 * k + 3 - 4 + 3) div 4 = k" by (cases k) simp_all
    have tl: "decode_tail 1 [x, y, z, equals_sign] = [a, b]"
      using tail_two [OF ab, of "[]"] t by simp
    have "to_byte_array ?o = Inr (main @ [a, b])"
      using dec gr tl lm len by (simp add: to_byte_array_def g typed_array_id Let_def)
    moreover have "byte_length ?o = Inr (int (length (main @ [a, b])))" by (simp add: byte_length_def g lm)
    ultimately show ?thesis using o s 3 by simp
  qed
qed

theorem base64_roundtrip_witness:
  "to_byte_array (from_byte_array [77, 97, 110, 255]) = Inr [77, 97, 110, 255]"
  using base64_roundtrip [of "[77, 97, 110, 255]"] by simp

text \<open>
  A text is refused exactly when its length is not a multiple of four or it starts with a
  padding sign; every other text decodes, to as many bytes as \<open>byteLength\<close> says.
\<close>

theorem base64_refusals:
  "(case to_byte_array s of
      Inl BadStringLength \<Rightarrow> length s mod 4 \<noteq> 0
    | Inl BadArrayLength \<Rightarrow> length s mod 4 = 0 \<and> s \<noteq> [] \<and> hd s = equals_sign
    | Inr out \<Rightarrow> length s mod 4 = 0 \<and> \<not> (s \<noteq> [] \<and> hd s = equals_sign) \<and> byte_length s = Inr (int (length out)))"
proof -
  define i where "i = length (takeWhile (\<lambda>c. c \<noteq> equals_sign) s)"
  define p where "p = (if i = length s then 0 else 4 - i mod 4)"
  define n where "n = 3 * (int i + int p) div 4 - int p"
  have i0: "i = 0 \<longleftrightarrow> s = [] \<or> hd s = equals_sign" by (cases s) (auto simp: i_def)
  have neg: "n < 0 \<longleftrightarrow> i = 0 \<and> s \<noteq> []" if "length s mod 4 = 0"
  proof (cases "i = length s")
    case True
    then show ?thesis using that by (auto simp: n_def p_def)
  next
    case False
    define m where "m = i div 4"
    have im: "i = 4 * m + i mod 4" by (simp add: m_def)
    have "int i + int p = 4 * (int m + 1)"
      using False im by (simp add: p_def of_nat_diff)
    then have "n = 3 * (int m + 1) - int p" by (simp add: n_def)
    moreover have "1 \<le> p" "p \<le> 4" "p = 4 \<longleftrightarrow> i mod 4 = 0" using False by (auto simp: p_def)
    moreover have "s \<noteq> []" using False by (auto simp: i_def)
    ultimately show ?thesis using im by (cases m) auto
  qed
  have ta: "length (typed_array k out) = k" for k out by (simp add: typed_array_def)
  show ?thesis
  proof (cases "length s mod 4 = 0")
    case True
    then have g: "get_lens s = Inr (i, p)" by (simp add: get_lens_def i_def p_def Let_def)
    have b: "byte_length s = Inr n" by (simp add: byte_length_def g n_def)
    show ?thesis
    proof (cases "n < 0")
      case neg': True
      then have "to_byte_array s = Inl BadArrayLength" unfolding n_def by (simp add: to_byte_array_def g Let_def)
      with neg' neg [OF True] i0 True show ?thesis by auto
    next
      case False
      then obtain out where o: "to_byte_array s = Inr out" "length out = nat n"
        unfolding n_def by (simp add: to_byte_array_def g Let_def ta)
      have "s = [] \<or> hd s \<noteq> equals_sign" using False neg [OF True] i0 by auto
      with o b False True show ?thesis by simp
    qed
  qed (simp add: to_byte_array_def get_lens_def Let_def)
qed

end
