(* ===== verification/Web_Detector.thy ===== *)
theory Web_Detector
  imports Go_Prelude
begin

text \<open>
  The new-version detector of the web client, the script of \<open>client/web/index.html\<close>. Its variables
  \<open>baseline\<close> and \<open>shown\<close> and the bar on the page are the state; an answer to one of the polls, and a
  click on one of the two buttons, are the steps. Answers may arrive in any order. The page, the
  network and the timer are the events of a run.
\<close>

section \<open>What a poll answers\<close>

text \<open>
  A response to the request for \<open>version.json\<close>: no network or a body that is not JSON (the promise is
  rejected), a status that is not OK, JSON without a truthy \<open>version\<close>, or one, by its \<open>String()\<close>.
\<close>

datatype response = Rejected | NotOk | NoVersion | Version string

fun fetch_version :: "response \<Rightarrow> string option" where
  "fetch_version Rejected = None"
| "fetch_version NotOk = None"
| "fetch_version NoVersion = None"
| "fetch_version (Version v) = Some v"

section \<open>The state and its steps\<close>

record detector =
  dt_baseline :: "string option"
  dt_shown :: bool
  dt_bars :: "string list"

definition detector_init :: detector where
  "detector_init = \<lparr>dt_baseline = None, dt_shown = False, dt_bars = []\<rparr>"

definition show_bar :: "string \<Rightarrow> detector \<Rightarrow> detector" where
  "show_bar v d = (if dt_shown d then d else d\<lparr>dt_shown := True, dt_bars := dt_bars d @ [v]\<rparr>)"

text \<open>The continuation of \<open>check\<close>; \<open>!v\<close> also holds of the empty text.\<close>

definition check_answer :: "response \<Rightarrow> detector \<Rightarrow> detector" where
  "check_answer r d =
     (case fetch_version r of
        None \<Rightarrow> d
      | Some v \<Rightarrow>
          if v = [] then d
          else (case dt_baseline d of
                  None \<Rightarrow> d\<lparr>dt_baseline := Some v\<rparr>
                | Some b \<Rightarrow> if v \<noteq> b then show_bar v d else d))"

text \<open>Cancelling a bar removes that bar, wherever it is.\<close>

definition cancel_bar :: "nat \<Rightarrow> detector \<Rightarrow> detector" where
  "cancel_bar i d = d\<lparr>dt_bars := take i (dt_bars d) @ drop (Suc i) (dt_bars d), dt_shown := False\<rparr>"

inductive detector_step :: "detector \<Rightarrow> detector \<Rightarrow> bool" where
  answer: "detector_step d (check_answer r d)"
| cancel: "i < length (dt_bars d) \<Longrightarrow> detector_step d (cancel_bar i d)"

inductive detector_reachable :: "detector \<Rightarrow> bool" where
  init: "detector_reachable detector_init"
| step: "detector_reachable d \<Longrightarrow> detector_step d d' \<Longrightarrow> detector_reachable d'"

inductive_cases detector_stepE: "detector_step d d'"

section \<open>Forcing the update\<close>

text \<open>
  What \<open>forceUpdate\<close> does, in order. The registrations are read when the browser has service
  workers, which may throw, be rejected, or answer the workers with whether each unregisters; a
  rejection skips the clearing of the caches, and the \<open>catch\<close> before the last \<open>then\<close> swallows it.
\<close>

datatype registrations = NoServiceWorker | ThrowsOnRead | RejectsOnRead | Registered "(string \<times> bool) list"

datatype update_effect = Unregister string | DeleteCache string | Navigate

definition unregister_workers :: "registrations \<Rightarrow> update_effect list \<times> bool" where
  "unregister_workers regs =
     (case regs of
        NoServiceWorker \<Rightarrow> ([], True)
      | ThrowsOnRead \<Rightarrow> ([], True)
      | RejectsOnRead \<Rightarrow> ([], False)
      | Registered ws \<Rightarrow> (map (\<lambda>w. Unregister (fst w)) ws, list_all snd ws))"

definition clear_caches :: "string list option \<Rightarrow> update_effect list" where
  "clear_caches keys = (case keys of None \<Rightarrow> [] | Some ks \<Rightarrow> map DeleteCache ks)"

definition force_update :: "registrations \<Rightarrow> string list option \<Rightarrow> update_effect list" where
  "force_update regs keys =
     (let (effects, fulfilled) = unregister_workers regs
      in effects @ (if fulfilled then clear_caches keys else []) @ [Navigate])"

section \<open>The invariant\<close>

definition detector_inv :: "detector \<Rightarrow> bool" where
  "detector_inv d \<longleftrightarrow>
     dt_bars d = [] \<and> \<not> dt_shown d \<or>
     (\<exists>v b. dt_bars d = [v] \<and> dt_shown d \<and> dt_baseline d = Some b \<and> v \<noteq> b \<and> v \<noteq> [])"

lemma detector_inv_step: "detector_inv d \<Longrightarrow> detector_step d d' \<Longrightarrow> detector_inv d'"
  by (erule detector_stepE)
     (auto simp: detector_inv_def check_answer_def show_bar_def cancel_bar_def split: option.splits)

lemma detector_inv_reachable: "detector_reachable d \<Longrightarrow> detector_inv d"
  by (induction rule: detector_reachable.induct)
     (auto simp: detector_inv_step, simp add: detector_inv_def detector_init_def)

lemma baseline_step: "detector_step d d' \<Longrightarrow> dt_baseline d = Some b \<Longrightarrow> dt_baseline d' = Some b"
  by (erule detector_stepE) (auto simp: check_answer_def show_bar_def cancel_bar_def split: option.splits)

section \<open>Properties\<close>

text \<open>
  However the answers and clicks interleave, the page never has more than one bar, \<open>shown\<close> tells
  exactly whether there is one, and the bar offers a version that is not the one the page was
  loaded with; once known, that version is never replaced.
\<close>

theorem detector_safe:
  assumes "detector_reachable d"
  shows "length (dt_bars d) = (if dt_shown d then 1 else 0) \<and>
    (\<forall>v \<in> set (dt_bars d). v \<noteq> [] \<and> dt_baseline d \<noteq> None \<and> dt_baseline d \<noteq> Some v) \<and>
    (\<forall>d' b. detector_step d d' \<longrightarrow> dt_baseline d = Some b \<longrightarrow> dt_baseline d' = Some b)"
proof -
  from detector_inv_reachable [OF assms]
  consider "dt_bars d = []" "\<not> dt_shown d"
    | v b where "dt_bars d = [v]" "dt_shown d" "dt_baseline d = Some b" "v \<noteq> b" "v \<noteq> []"
    unfolding detector_inv_def by blast
  then have "length (dt_bars d) = (if dt_shown d then 1 else 0) \<and>
    (\<forall>v \<in> set (dt_bars d). v \<noteq> [] \<and> dt_baseline d \<noteq> None \<and> dt_baseline d \<noteq> Some v)"
    by cases simp_all
  then show ?thesis using baseline_step by blast
qed

theorem detector_safe_witness:
  "length (dt_bars (check_answer (Version ''2'') (check_answer (Version ''1'') detector_init))) = 1"
proof -
  have "detector_reachable (check_answer (Version ''2'') (check_answer (Version ''1'') detector_init))"
    by (rule detector_reachable.step [OF detector_reachable.step [OF detector_reachable.init
          detector_step.answer] detector_step.answer])
  from detector_safe [OF this, THEN conjunct1]
  have "length (dt_bars (check_answer (Version ''2'') (check_answer (Version ''1'') detector_init)))
      = (if dt_shown (check_answer (Version ''2'') (check_answer (Version ''1'') detector_init)) then 1 else 0)" .
  moreover have "dt_shown (check_answer (Version ''2'') (check_answer (Version ''1'') detector_init))"
    by (simp add: check_answer_def detector_init_def show_bar_def)
  ultimately show ?thesis by simp
qed



end
