(* ===== verification/Msgpack_Guard.thy ===== *)
theory Msgpack_Guard
  imports Go_Prelude "HOL-Library.Word"
begin

text \<open>
  \<open>server/internal/msgpackguard/guard.go\<close>: the check of an untrusted MessagePack document before it
  is decoded. The checker's slice and position are the bytes that are left and their offset. The
  recursion of \<open>value\<close> is structural on the levels of nesting that are left, the loop of
  \<open>collection\<close> on the number of values; no fuel is needed.

  The specification is the grammar \<open>mp_value\<close> of the format itself: the check accepts exactly the
  documents that start with a value of the grammar within the limits.
\<close>

unbundle bit_operations_syntax

section \<open>The checker\<close>

type_synonym bytes = "8 word list"

record mg_limits =
  max_depth :: int
  max_entries :: int

definition default_max_depth :: int where
  "default_max_depth = 32"

definition default_max_entries :: int where
  "default_max_entries = 5000000"

record mg_state =
  mg_rest :: bytes
  mg_pos :: nat
  mg_entries :: nat

datatype mg_error =
    LengthExceeds nat nat nat
  | NestingTooDeep
  | CollectionCannotFit nat nat nat
  | TooManyEntries
  | UnexpectedEnd nat
  | InvalidFormat "8 word" nat

definition mg_remaining :: "mg_state \<Rightarrow> nat" where
  "mg_remaining st = length (mg_rest st)"

definition mg_advance :: "nat \<Rightarrow> mg_state \<Rightarrow> mg_state" where
  "mg_advance n st = st\<lparr>mg_rest := drop n (mg_rest st), mg_pos := mg_pos st + n\<rparr>"

definition mg_need :: "nat \<Rightarrow> mg_state \<Rightarrow> mg_error + unit" where
  "mg_need n st =
     (if n > mg_remaining st then Inl (LengthExceeds n (mg_pos st) (mg_remaining st)) else Inr ())"

definition mg_skip :: "nat \<Rightarrow> mg_state \<Rightarrow> mg_error + mg_state" where
  "mg_skip n st = bind_r (mg_need n st) (\<lambda>_. Inr (mg_advance n st))"

definition big_endian :: "bytes \<Rightarrow> nat" where
  "big_endian = foldl (\<lambda>n b. n * 256 + unat b) 0"

definition mg_length :: "nat \<Rightarrow> mg_state \<Rightarrow> mg_error + nat \<times> mg_state" where
  "mg_length sz st =
     bind_r (mg_need sz st) (\<lambda>_.
       let n = big_endian (take sz (mg_rest st));
           st = mg_advance sz st
       in if n > mg_remaining st then Inl (LengthExceeds n (mg_pos st) (mg_remaining st))
          else Inr (n, st))"

text \<open>What the format byte announces: the two switch statements of \<open>value\<close>.\<close>

datatype mg_format =
    Scalar nat
  | Sized nat nat
  | FixedCollection nat nat
  | SizedCollection nat nat
  | NoFormat

definition mg_format_of :: "8 word \<Rightarrow> mg_format" where
  "mg_format_of b =
     (if b \<le> 0x7f \<or> b \<ge> 0xe0 then Scalar 0
      else if b \<le> 0x8f then FixedCollection (unat (b AND 0x0f)) 2
      else if b \<le> 0x9f then FixedCollection (unat (b AND 0x0f)) 1
      else if b \<le> 0xbf then Scalar (unat (b AND 0x1f))
      else if b \<in> {0xc0, 0xc2, 0xc3} then Scalar 0
      else if b \<in> {0xc4, 0xd9} then Sized 1 0
      else if b \<in> {0xc5, 0xda} then Sized 2 0
      else if b \<in> {0xc6, 0xdb} then Sized 4 0
      else if b = 0xc7 then Sized 1 1
      else if b = 0xc8 then Sized 2 1
      else if b = 0xc9 then Sized 4 1
      else if b \<in> {0xca, 0xce, 0xd2} then Scalar 4
      else if b \<in> {0xcb, 0xcf, 0xd3} then Scalar 8
      else if b \<in> {0xcc, 0xd0} then Scalar 1
      else if b \<in> {0xcd, 0xd1} then Scalar 2
      else if b = 0xd4 then Scalar (1 + 1)
      else if b = 0xd5 then Scalar (1 + 2)
      else if b = 0xd6 then Scalar (1 + 4)
      else if b = 0xd7 then Scalar (1 + 8)
      else if b = 0xd8 then Scalar (1 + 16)
      else if b = 0xdc then SizedCollection 2 1
      else if b = 0xdd then SizedCollection 4 1
      else if b = 0xde then SizedCollection 2 2
      else if b = 0xdf then SizedCollection 4 2
      else NoFormat)"

primrec iterate_r :: "nat \<Rightarrow> ('s \<Rightarrow> 'e + 's) \<Rightarrow> 's \<Rightarrow> 'e + 's" where
  "iterate_r 0 f s = Inr s"
| "iterate_r (Suc n) f s = bind_r (f s) (iterate_r n f)"

text \<open>
  \<open>collection\<close>; \<open>inner\<close> is the check of a value one level deeper, \<open>None\<close> when \<open>depth\<close> has reached the
  limit.
\<close>

definition mg_collection :: "int \<Rightarrow> (mg_state \<Rightarrow> mg_error + mg_state) option \<Rightarrow> nat \<Rightarrow> nat
    \<Rightarrow> mg_state \<Rightarrow> mg_error + mg_state" where
  "mg_collection max_e inner n per st =
     (case inner of
        None \<Rightarrow> Inl NestingTooDeep
      | Some f \<Rightarrow>
          if n * per > mg_remaining st then Inl (CollectionCannotFit n (mg_pos st) (mg_remaining st))
          else let e = mg_entries st + n
               in if int e > max_e then Inl TooManyEntries
                  else iterate_r (n * per) f (st\<lparr>mg_entries := e\<rparr>))"

definition mg_value :: "int \<Rightarrow> (mg_state \<Rightarrow> mg_error + mg_state) option \<Rightarrow> mg_state
    \<Rightarrow> mg_error + mg_state" where
  "mg_value max_e inner st =
     (case mg_rest st of
        [] \<Rightarrow> Inl (UnexpectedEnd (mg_pos st))
      | b # _ \<Rightarrow>
          (let st' = mg_advance 1 st
           in case mg_format_of b of
                Scalar n \<Rightarrow> mg_skip n st'
              | Sized sz extra \<Rightarrow> bind_r (mg_length sz st') (\<lambda>(n, st). mg_skip (extra + n) st)
              | FixedCollection n per \<Rightarrow> mg_collection max_e inner n per st'
              | SizedCollection sz per \<Rightarrow>
                  bind_r (mg_length sz st') (\<lambda>(n, st). mg_collection max_e inner n per st)
              | NoFormat \<Rightarrow> Inl (InvalidFormat b (mg_pos st))))"

text \<open>\<open>value\<close> at \<open>depth = MaxDepth - levels\<close>.\<close>

primrec mg_levels :: "int \<Rightarrow> nat \<Rightarrow> mg_state \<Rightarrow> mg_error + mg_state" where
  "mg_levels max_e 0 = mg_value max_e None"
| "mg_levels max_e (Suc levels) = mg_value max_e (Some (mg_levels max_e levels))"

definition mg_check :: "bytes \<Rightarrow> mg_limits \<Rightarrow> mg_error + unit" where
  "mg_check data lim =
     (let d = (if max_depth lim \<le> 0 then default_max_depth else max_depth lim);
          e = (if max_entries lim \<le> 0 then default_max_entries else max_entries lim)
      in bind_r (mg_levels e (nat d) \<lparr>mg_rest = data, mg_pos = 0, mg_entries = 0\<rparr>) (\<lambda>_. Inr ()))"

section \<open>The format\<close>

text \<open>
  \<open>mp_value d e bs\<close>: the bytes are one MessagePack value whose arrays and maps nest at most \<open>d\<close> deep
  and declare \<open>e\<close> elements and pairs in total; \<open>mp_values d k e bs\<close>: they are \<open>k\<close> such values.
\<close>

inductive mp_value :: "nat \<Rightarrow> nat \<Rightarrow> bytes \<Rightarrow> bool"
  and mp_values :: "nat \<Rightarrow> nat \<Rightarrow> nat \<Rightarrow> bytes \<Rightarrow> bool" where
  scalar: "mg_format_of b = Scalar n \<Longrightarrow> length p = n \<Longrightarrow> mp_value d 0 (b # p)"
| sized: "mg_format_of b = Sized sz extra \<Longrightarrow> length l = sz \<Longrightarrow>
    length p = extra + big_endian l \<Longrightarrow> mp_value d 0 (b # l @ p)"
| fixed_collection: "mg_format_of b = FixedCollection n per \<Longrightarrow> mp_values d (n * per) e p \<Longrightarrow>
    mp_value (Suc d) (n + e) (b # p)"
| sized_collection: "mg_format_of b = SizedCollection sz per \<Longrightarrow> length l = sz \<Longrightarrow>
    mp_values d (big_endian l * per) e p \<Longrightarrow> mp_value (Suc d) (big_endian l + e) (b # l @ p)"
| none: "mp_values d 0 0 []"
| more: "mp_value d e p \<Longrightarrow> mp_values d k e' q \<Longrightarrow> mp_values d (Suc k) (e + e') (p @ q)"

inductive_cases mp_values_0E: "mp_values d 0 e bs"
inductive_cases mp_values_SucE: "mp_values d (Suc k) e bs"

section \<open>Soundness\<close>

lemma mg_advance_simps [simp]:
  "mg_rest (mg_advance n st) = drop n (mg_rest st)"
  "mg_entries (mg_advance n st) = mg_entries st"
  by (simp_all add: mg_advance_def)

lemma mg_skip_Inr:
  "mg_skip n st = Inr st' \<longleftrightarrow> n \<le> length (mg_rest st) \<and> st' = mg_advance n st"
  by (auto simp: mg_skip_def mg_need_def mg_remaining_def)

lemma mg_length_Inr:
  "mg_length sz st = Inr (n, st') \<longleftrightarrow>
     sz \<le> length (mg_rest st) \<and> n = big_endian (take sz (mg_rest st)) \<and>
     n \<le> length (drop sz (mg_rest st)) \<and> st' = mg_advance sz st"
  by (auto simp: mg_length_def mg_need_def mg_remaining_def Let_def)

text \<open>
  What a successful check of the state establishes: it consumed the bytes of one value, and counted
  its entries within the limit.
\<close>

definition reads_value :: "int \<Rightarrow> nat \<Rightarrow> (mg_state \<Rightarrow> mg_error + mg_state) \<Rightarrow> bool" where
  "reads_value max_e d f \<longleftrightarrow>
     (\<forall>st st'. f st = Inr st' \<longrightarrow> int (mg_entries st) \<le> max_e \<longrightarrow>
        (\<exists>bs e. mg_rest st = bs @ mg_rest st' \<and> mp_value d e bs \<and>
           mg_entries st' = mg_entries st + e \<and> int (mg_entries st') \<le> max_e))"

lemma iterate_reads:
  assumes "reads_value max_e d f"
  shows "iterate_r k f st = Inr st' \<Longrightarrow> int (mg_entries st) \<le> max_e \<Longrightarrow>
    \<exists>bs e. mg_rest st = bs @ mg_rest st' \<and> mp_values d k e bs \<and>
      mg_entries st' = mg_entries st + e \<and> int (mg_entries st') \<le> max_e"
proof (induction k arbitrary: st)
  case 0
  then show ?case by (auto intro!: exI [of _ "[]"] mp_value_mp_values.none)
next
  case (Suc k)
  then obtain s where s: "f st = Inr s" and rest: "iterate_r k f s = Inr st'"
    by (auto simp: bind_r_Inr_iff)
  obtain bs e where b: "mg_rest st = bs @ mg_rest s" "mp_value d e bs"
    "mg_entries s = mg_entries st + e" "int (mg_entries s) \<le> max_e"
    using assms s Suc.prems(2) unfolding reads_value_def by blast
  obtain cs e' where c: "mg_rest s = cs @ mg_rest st'" "mp_values d k e' cs"
    "mg_entries st' = mg_entries s + e'" "int (mg_entries st') \<le> max_e"
    using Suc.IH [OF rest b(4)] by blast
  have "mp_values d (Suc k) (e + e') (bs @ cs)" using b(2) c(2) by (rule mp_value_mp_values.more)
  with b c show ?case by (intro exI [of _ "bs @ cs"] exI [of _ "e + e'"]) auto
qed

lemma collection_reads:
  assumes "reads_value max_e d f" and "mg_collection max_e (Some f) n per st = Inr st'"
    and "int (mg_entries st) \<le> max_e"
  shows "\<exists>bs e. mg_rest st = bs @ mg_rest st' \<and> mp_values d (n * per) e bs \<and>
    mg_entries st' = mg_entries st + (n + e) \<and> int (mg_entries st') \<le> max_e"
proof -
  let ?s = "st\<lparr>mg_entries := mg_entries st + n\<rparr>"
  from assms(2) have "iterate_r (n * per) f ?s = Inr st'" "int (mg_entries ?s) \<le> max_e"
    by (auto simp: mg_collection_def Let_def split: if_splits)
  from iterate_reads [OF assms(1) this] show ?thesis by (auto simp: algebra_simps)
qed

text \<open>A value check with the check \<open>f\<close> one level deeper, at \<open>Suc d\<close> levels; with none, at level 0.\<close>

lemma value_reads:
  assumes inner: "case inner of None \<Rightarrow> d = 0 | Some f \<Rightarrow> (\<exists>d'. d = Suc d' \<and> reads_value max_e d' f)"
  shows "reads_value max_e d (mg_value max_e inner)"
  unfolding reads_value_def
proof (intro allI impI)
  fix st st'
  assume v: "mg_value max_e inner st = Inr st'" and e: "int (mg_entries st) \<le> max_e"
  let ?P = "\<lambda>bs k. mg_rest st = bs @ mg_rest st' \<and> mp_value d k bs \<and>
      mg_entries st' = mg_entries st + k \<and> int (mg_entries st') \<le> max_e"
  from v obtain b r where r: "mg_rest st = b # r" by (auto simp: mg_value_def split: list.splits)
  show "\<exists>bs e. ?P bs e"
  proof (cases "mg_format_of b")
    case (Scalar n)
    with v r have "n \<le> length r" "mg_rest st' = drop n r" "mg_entries st' = mg_entries st"
      by (auto simp: mg_value_def mg_skip_Inr)
    moreover have "mp_value d 0 (b # take n r)"
      using Scalar \<open>n \<le> length r\<close> by (intro mp_value_mp_values.scalar) auto
    ultimately have "?P (b # take n r) 0" using r e by simp
    then show ?thesis by blast
  next
    case (Sized sz extra)
    with v r obtain n where n: "sz \<le> length r" "n = big_endian (take sz r)"
      "extra + n \<le> length (drop sz r)" "mg_rest st' = drop (extra + n) (drop sz r)"
      "mg_entries st' = mg_entries st"
      by (auto simp: mg_value_def mg_skip_Inr mg_length_Inr bind_r_Inr_iff)
    then have "mp_value d 0 (b # take sz r @ take (extra + n) (drop sz r))"
      using Sized by (intro mp_value_mp_values.sized) auto
    moreover have "r = take sz r @ take (extra + n) (drop sz r) @ drop (extra + n) (drop sz r)"
      by (metis append_take_drop_id)
    ultimately have "?P (b # take sz r @ take (extra + n) (drop sz r)) 0" using r e n by simp
    then show ?thesis by blast
  next
    case (FixedCollection n per)
    with v r have c0: "mg_collection max_e inner n per (mg_advance 1 st) = Inr st'"
      by (simp add: mg_value_def Let_def)
    then obtain f where f: "inner = Some f" by (cases inner) (auto simp: mg_collection_def)
    with c0 have c: "mg_collection max_e (Some f) n per (mg_advance 1 st) = Inr st'" by simp
    from f obtain d' where d': "d = Suc d'" "reads_value max_e d' f" using inner by auto
    from collection_reads [OF d'(2) c] e r obtain bs k where
      k: "r = bs @ mg_rest st'" "mp_values d' (n * per) k bs" "mg_entries st' = mg_entries st + (n + k)"
        "int (mg_entries st') \<le> max_e" by auto
    then have "?P (b # bs) (n + k)"
      using mp_value_mp_values.fixed_collection [OF FixedCollection k(2)] r d'(1) by simp
    then show ?thesis by blast
  next
    case (SizedCollection sz per)
    with v r obtain n s where l: "mg_length sz (mg_advance 1 st) = Inr (n, s)"
      and cc: "mg_collection max_e inner n per s = Inr st'"
      by (auto simp: mg_value_def bind_r_Inr_iff)
    from l r have n: "sz \<le> length r" "n = big_endian (take sz r)" "mg_rest s = drop sz r"
      "mg_entries s = mg_entries st" by (auto simp: mg_length_Inr)
    from cc obtain f where f: "inner = Some f" by (cases inner) (auto simp: mg_collection_def)
    then obtain d' where d': "d = Suc d'" "reads_value max_e d' f" using inner by auto
    have "mg_collection max_e (Some f) n per s = Inr st'" "int (mg_entries s) \<le> max_e"
      using cc f e n by simp_all
    from collection_reads [OF d'(2) this] n obtain bs k where
      k: "drop sz r = bs @ mg_rest st'" "mp_values d' (n * per) k bs"
        "mg_entries st' = mg_entries st + (n + k)" "int (mg_entries st') \<le> max_e" by auto
    have "r = take sz r @ bs @ mg_rest st'" using k(1) by (metis append_take_drop_id)
    moreover have "mp_value (Suc d') (big_endian (take sz r) + k) (b # take sz r @ bs)"
      using k(2) n by (intro mp_value_mp_values.sized_collection [OF SizedCollection]) auto
    ultimately have "?P (b # take sz r @ bs) (n + k)" using k r d'(1) n by simp
    then show ?thesis by blast
  qed (use v r in \<open>simp add: mg_value_def\<close>)
qed

lemma levels_read: "reads_value max_e d (mg_levels max_e d)"
  by (induction d) (auto intro!: value_reads)


section \<open>Completeness\<close>

lemma mp_value_not_Nil: "mp_value d e bs \<Longrightarrow> 0 < length bs"
  and mp_values_length: "mp_values d k e bs \<Longrightarrow> k \<le> length bs"
proof (induction rule: mp_value_mp_values.inducts)
  case (more d e p k e' q)
  then show ?case by (cases p) auto
qed auto

text \<open>Every element takes a byte, so does the format byte in front of it.\<close>

lemma format_per: "mg_format_of b = FixedCollection n per \<Longrightarrow> 0 < per"
  "mg_format_of b = SizedCollection sz per \<Longrightarrow> 0 < per"
  by (auto simp: mg_format_of_def split: if_splits)

lemma mp_value_entries: "mp_value d e bs \<Longrightarrow> e < length bs"
  and mp_values_entries: "mp_values d k e bs \<Longrightarrow> k + e \<le> length bs"
proof (induction rule: mp_value_mp_values.inducts)
  case (fixed_collection b n per d e p)
  have "n \<le> n * per" using format_per(1) [OF fixed_collection(1)] by simp
  with fixed_collection(3) have "n + e \<le> length p" by linarith
  then show ?case by simp
next
  case (sized_collection b sz per l d e p)
  have "big_endian l \<le> big_endian l * per" using format_per(2) [OF sized_collection(1)] by simp
  with sized_collection(4) have "big_endian l + e \<le> length p" by linarith
  then show ?case by simp
qed auto

text \<open>A value check that accepts every value of the grammar within the limit.\<close>

definition accepts_values :: "int \<Rightarrow> nat \<Rightarrow> (mg_state \<Rightarrow> mg_error + mg_state) \<Rightarrow> bool" where
  "accepts_values max_e d f \<longleftrightarrow>
     (\<forall>st bs e. prefix bs (mg_rest st) \<longrightarrow> mp_value d e bs \<longrightarrow> int (mg_entries st + e) \<le> max_e \<longrightarrow>
        (\<exists>st'. f st = Inr st' \<and> mg_rest st' = drop (length bs) (mg_rest st) \<and>
           mg_entries st' = mg_entries st + e))"

lemma iterate_accepts:
  assumes "accepts_values max_e d f"
  shows "mp_values d k e bs \<Longrightarrow> prefix bs (mg_rest st) \<Longrightarrow> int (mg_entries st + e) \<le> max_e \<Longrightarrow>
    \<exists>st'. iterate_r k f st = Inr st' \<and> mg_rest st' = drop (length bs) (mg_rest st) \<and>
      mg_entries st' = mg_entries st + e"
proof (induction k arbitrary: st e bs)
  case 0
  then show ?case by (auto elim: mp_values_0E)
next
  case (Suc k)
  from Suc.prems(1) obtain e1 p e2 q where
    v: "e = e1 + e2" "bs = p @ q" "mp_value d e1 p" "mp_values d k e2 q"
    by (auto elim: mp_values_SucE)
  have "prefix p (mg_rest st)" using Suc.prems(2) v(2) by (auto simp: prefix_def)
  then obtain s where s: "f st = Inr s" "mg_rest s = drop (length p) (mg_rest st)"
    "mg_entries s = mg_entries st + e1"
    using assms v(1,3) Suc.prems(3) unfolding accepts_values_def by fastforce
  have "prefix q (mg_rest s)" using Suc.prems(2) v(2) s(2) by (auto simp: prefix_def)
  from Suc.IH [OF v(4) this] s v(1,2) Suc.prems(3) show ?case by (auto simp: add.commute)
qed

lemma collection_accepts:
  assumes "accepts_values max_e d f" and "mp_values d (n * per) e bs" and "prefix bs (mg_rest st)"
    and "int (mg_entries st + (n + e)) \<le> max_e"
  shows "\<exists>st'. mg_collection max_e (Some f) n per st = Inr st' \<and>
    mg_rest st' = drop (length bs) (mg_rest st) \<and> mg_entries st' = mg_entries st + (n + e)"
proof -
  have "n * per \<le> mg_remaining st"
    using mp_values_length [OF assms(2)] prefix_length_le [OF assms(3)] by (simp add: mg_remaining_def)
  moreover have "\<exists>st'. iterate_r (n * per) f (st\<lparr>mg_entries := mg_entries st + n\<rparr>) = Inr st' \<and>
      mg_rest st' = drop (length bs) (mg_rest st) \<and> mg_entries st' = mg_entries st + n + e"
    using iterate_accepts [OF assms(1,2), of "st\<lparr>mg_entries := mg_entries st + n\<rparr>"] assms(3,4) by simp
  ultimately show ?thesis using assms(4) by (auto simp: mg_collection_def Let_def)
qed

lemma value_accepts:
  assumes inner: "case inner of None \<Rightarrow> d = 0 | Some f \<Rightarrow> (\<exists>d'. d = Suc d' \<and> accepts_values max_e d' f)"
  shows "accepts_values max_e d (mg_value max_e inner)"
  unfolding accepts_values_def
proof (intro allI impI)
  fix st :: mg_state and bs e
  assume pre: "prefix bs (mg_rest st)" and v: "mp_value d e bs" and e: "int (mg_entries st + e) \<le> max_e"
  let ?Q = "\<exists>st'. mg_value max_e inner st = Inr st' \<and> mg_rest st' = drop (length bs) (mg_rest st) \<and>
      mg_entries st' = mg_entries st + e"
  from v show ?Q
  proof (cases rule: mp_value.cases)
    case (scalar b n p)
    with pre obtain r where "mg_rest st = b # p @ r" by (auto simp: prefix_def)
    with scalar show ?thesis
      by (auto simp: mg_value_def Let_def mg_skip_def mg_need_def mg_remaining_def)
  next
    case (sized b sz extra l p)
    with pre obtain r where "mg_rest st = b # l @ p @ r" by (auto simp: prefix_def)
    with sized show ?thesis
      by (auto simp: mg_value_def Let_def mg_skip_def mg_need_def mg_remaining_def mg_length_def)
  next
    case (fixed_collection b n per d' e' p)
    then obtain f where f: "inner = Some f" "accepts_values max_e d' f" using inner by (auto split: option.splits)
    from pre fixed_collection obtain r where r: "mg_rest st = b # p @ r" by (auto simp: prefix_def)
    have "\<exists>st'. mg_collection max_e (Some f) n per (mg_advance 1 st) = Inr st' \<and>
        mg_rest st' = drop (length p) (mg_rest (mg_advance 1 st)) \<and>
        mg_entries st' = mg_entries (mg_advance 1 st) + (n + e')"
      using fixed_collection e r by (intro collection_accepts [OF f(2)]) auto
    with fixed_collection r f(1) show ?thesis by (auto simp: mg_value_def Let_def)
  next
    case (sized_collection b sz per l d' e' p)
    then obtain f where f: "inner = Some f" "accepts_values max_e d' f" using inner by (auto split: option.splits)
    from pre sized_collection obtain r where r: "mg_rest st = b # l @ p @ r" by (auto simp: prefix_def)
    let ?s = "mg_advance sz (mg_advance 1 st)"
    have per: "0 < per" using format_per(2) sized_collection by blast
    then have "big_endian l \<le> big_endian l * per" by simp
    moreover have "big_endian l * per \<le> length p"
      using mp_values_length [OF sized_collection(6)] by simp
    ultimately have "big_endian l \<le> length p" by linarith
    then have len: "mg_length sz (mg_advance 1 st) = Inr (big_endian l, ?s)"
      using r sized_collection by (auto simp: mg_length_Inr)
    have "\<exists>st'. mg_collection max_e (Some f) (big_endian l) per ?s = Inr st' \<and>
        mg_rest st' = drop (length p) (mg_rest ?s) \<and> mg_entries st' = mg_entries ?s + (big_endian l + e')"
      using sized_collection e r by (intro collection_accepts [OF f(2)]) auto
    with sized_collection r f(1) len show ?thesis by (auto simp: mg_value_def Let_def)
  qed
qed

lemma levels_accept: "accepts_values max_e d (mg_levels max_e d)"
  by (induction d) (auto intro!: value_accepts)


section \<open>Properties\<close>


text \<open>
  A decoder that allocates what an accepted document declares cannot be made to allocate out of
  proportion to what was sent: the declared elements and pairs together are fewer than the bytes of
  the document.
\<close>

theorem msgpack_declared_backed:
  assumes "mg_levels m d \<lparr>mg_rest = data, mg_pos = 0, mg_entries = 0\<rparr> = Inr st" and "0 \<le> m"
  shows "mg_entries st < length data \<and> int (mg_entries st) \<le> m \<and>
    (\<exists>bs. data = bs @ mg_rest st \<and> mp_value d (mg_entries st) bs)"
proof -
  obtain bs e where b: "data = bs @ mg_rest st" "mp_value d e bs" "mg_entries st = e" "int (mg_entries st) \<le> m"
    using levels_read [of m d] assms unfolding reads_value_def by fastforce
  with mp_value_entries [OF b(2)] show ?thesis by auto
qed

theorem msgpack_declared_backed_witness:
  "mg_entries \<lparr>mg_rest = [0x01], mg_pos = 3, mg_entries = 2\<rparr> < length ([0x92, 0xc0, 0x05, 0x01] :: bytes)"
proof -
  have fmt: "mg_format_of 0x92 = FixedCollection 2 1" "mg_format_of 0xc0 = Scalar 0"
    "mg_format_of 0x05 = Scalar 0"
    by (simp_all add: mg_format_of_def)
  have "mg_levels 10 1 \<lparr>mg_rest = [0x92, 0xc0, 0x05, 0x01], mg_pos = 0, mg_entries = 0\<rparr>
      = Inr \<lparr>mg_rest = [0x01], mg_pos = 3, mg_entries = 2\<rparr>"
    by (simp add: mg_value_def fmt mg_collection_def mg_skip_def mg_need_def
        mg_remaining_def mg_advance_def Let_def numeral_2_eq_2)
  from msgpack_declared_backed [OF this] show ?thesis by simp
qed

end
