(* ===== verification/Realtime_Hub.thy ===== *)
theory Realtime_Hub
  imports Go_Prelude
begin

text \<open>
  \<open>server/internal/realtime/hub.go\<close>: the fan-out of change events to the clients of a database. A
  subscription is a number; its buffered channel is the list of events in it, its pointer to the hub
  whether it is still open. The hub's lock makes every operation atomic; the clients' receives are
  operations too, so an interleaving is a sequence of operations.
\<close>

record event =
  ev_type :: string
  ev_resource :: string
  ev_database :: string
  ev_origin :: string
  ev_at :: int

definition subscription_buffer :: nat where
  "subscription_buffer = 64"

record hub =
  hub_subs :: "string \<Rightarrow> nat set option"
  hub_next :: nat
  sub_events :: "nat \<Rightarrow> event list"
  sub_database :: "nat \<Rightarrow> string"
  sub_open :: "nat \<Rightarrow> bool"

definition new_hub :: hub where
  "new_hub = \<lparr>hub_subs = (\<lambda>_. None), hub_next = 0, sub_events = (\<lambda>_. []), sub_database = (\<lambda>_. []),
     sub_open = (\<lambda>_. False)\<rparr>"

definition hub_key :: "unicode \<Rightarrow> string \<Rightarrow> string" where
  "hub_key U database = to_lower U (trim_space database)"

definition hub_set :: "hub \<Rightarrow> string \<Rightarrow> nat set" where
  "hub_set h k = (case hub_subs h k of None \<Rightarrow> {} | Some s \<Rightarrow> s)"

definition subscribe :: "unicode \<Rightarrow> string \<Rightarrow> hub \<Rightarrow> nat \<times> hub" where
  "subscribe U database h =
     (let i = hub_next h; k = hub_key U database
      in (i, h\<lparr>hub_subs := (hub_subs h)(k \<mapsto> insert i (hub_set h k)), hub_next := Suc i,
              sub_events := (sub_events h)(i := []), sub_database := (sub_database h)(i := k),
              sub_open := (sub_open h)(i := True)\<rparr>))"

definition close_subscription :: "nat \<Rightarrow> hub \<Rightarrow> hub" where
  "close_subscription i h =
     (if \<not> sub_open h i then h
      else let k = sub_database h i;
               subs = (case hub_subs h k of
                         None \<Rightarrow> hub_subs h
                       | Some s \<Rightarrow> (hub_subs h)(k := if s - {i} = {} then None else Some (s - {i})))
           in h\<lparr>hub_subs := subs, sub_open := (sub_open h)(i := False)\<rparr>)"

definition publish :: "unicode \<Rightarrow> int \<Rightarrow> event \<Rightarrow> hub \<Rightarrow> hub" where
  "publish U now ev h =
     (let ev = (if ev_at ev = 0 then ev\<lparr>ev_at := now\<rparr> else ev);
          targets = hub_set h (hub_key U (ev_database ev))
      in h\<lparr>sub_events := (\<lambda>i. if i \<in> targets \<and> length (sub_events h i) < subscription_buffer
                              then sub_events h i @ [ev] else sub_events h i)\<rparr>)"

definition subscribers :: "unicode \<Rightarrow> string \<Rightarrow> hub \<Rightarrow> nat" where
  "subscribers U database h = card (hub_set h (hub_key U database))"

text \<open>A client takes the oldest event out of its channel.\<close>

definition receive :: "nat \<Rightarrow> hub \<Rightarrow> hub" where
  "receive i h = h\<lparr>sub_events := (sub_events h)(i := tl (sub_events h i))\<rparr>"

datatype hub_op = Subscribe string | Close nat | Publish int event | Receive nat

fun hub_step :: "unicode \<Rightarrow> hub_op \<Rightarrow> hub \<Rightarrow> hub" where
  "hub_step U (Subscribe d) h = snd (subscribe U d h)"
| "hub_step U (Close i) h = close_subscription i h"
| "hub_step U (Publish now ev) h = publish U now ev h"
| "hub_step U (Receive i) h = receive i h"

definition hub_run :: "unicode \<Rightarrow> hub_op list \<Rightarrow> hub" where
  "hub_run U ops = fold (hub_step U) ops new_hub"

section \<open>The invariant\<close>

definition hub_inv :: "unicode \<Rightarrow> hub \<Rightarrow> bool" where
  "hub_inv U h \<longleftrightarrow>
     (\<forall>k. hub_subs h k \<noteq> Some {}) \<and>
     (\<forall>k i. i \<in> hub_set h k \<longleftrightarrow> sub_open h i \<and> sub_database h i = k) \<and>
     (\<forall>i. sub_open h i \<longrightarrow> i < hub_next h) \<and>
     (\<forall>i. length (sub_events h i) \<le> subscription_buffer) \<and>
     (\<forall>i. \<forall>ev \<in> set (sub_events h i). hub_key U (ev_database ev) = sub_database h i)"

lemma hub_set_update: "hub_set (h\<lparr>hub_subs := (hub_subs h)(k := v)\<rparr>) j =
    (if j = k then (case v of None \<Rightarrow> {} | Some s \<Rightarrow> s) else hub_set h j)"
  by (simp add: hub_set_def)

lemma hub_inv_subscribe:
  assumes "hub_inv U h"
  shows "hub_inv U (snd (subscribe U d h))"
proof -
  have "\<not> sub_open h (hub_next h)" using assms by (auto simp: hub_inv_def)
  then have "hub_next h \<notin> hub_set h k" for k using assms by (auto simp: hub_inv_def)
  with assms show ?thesis
    by (auto simp: subscribe_def hub_inv_def Let_def hub_set_def less_SucI split: option.splits if_splits)
qed

lemma hub_inv_close:
  assumes "hub_inv U h"
  shows "hub_inv U (close_subscription i h)"
proof (cases "sub_open h i")
  case True
  let ?k = "sub_database h i"
  from assms True have "i \<in> hub_set h ?k" by (simp add: hub_inv_def)
  then obtain s where s: "hub_subs h ?k = Some s" "i \<in> s" by (auto simp: hub_set_def split: option.splits)
  have mem: "j \<in> (case hub_subs h k of None \<Rightarrow> {} | Some s \<Rightarrow> s) \<longleftrightarrow> sub_open h j \<and> sub_database h j = k" for j k
    using assms by (simp add: hub_inv_def hub_set_def)
  have sm: "j \<in> s \<longleftrightarrow> sub_open h j \<and> sub_database h j = ?k" for j using mem [of j ?k] s by simp
  have "hub_set (close_subscription i h) k = (if k = ?k then s - {i} else hub_set h k)" for k
    using True s by (auto simp: close_subscription_def hub_set_def Let_def)
  moreover have "hub_subs (close_subscription i h) k \<noteq> Some {}" for k
    using True s assms by (auto simp: close_subscription_def hub_inv_def Let_def)
  moreover have "sub_open (close_subscription i h) = (sub_open h)(i := False)"
    "sub_database (close_subscription i h) = sub_database h" "hub_next (close_subscription i h) = hub_next h"
    "sub_events (close_subscription i h) = sub_events h"
    using True by (simp_all add: close_subscription_def Let_def)
  ultimately show ?thesis using assms sm by (auto simp: hub_inv_def)
qed (use assms in \<open>simp add: close_subscription_def\<close>)

lemma hub_inv_publish: "hub_inv U h \<Longrightarrow> hub_inv U (publish U now ev h)"
  by (auto simp: hub_inv_def publish_def hub_set_def Let_def)

lemma in_tl: "x \<in> set (tl xs) \<Longrightarrow> x \<in> set xs"
  by (cases xs) auto

lemma hub_inv_receive: "hub_inv U h \<Longrightarrow> hub_inv U (receive i h)"
  by (auto simp: hub_inv_def receive_def hub_set_def dest: in_tl le_trans [OF diff_le_self])

lemma hub_inv_step: "hub_inv U h \<Longrightarrow> hub_inv U (hub_step U op h)"
  by (cases op) (simp_all add: hub_inv_subscribe hub_inv_close hub_inv_publish hub_inv_receive)

lemma hub_inv_run: "hub_inv U (hub_run U ops)"
proof -
  have "hub_inv U (fold (hub_step U) ops h)" if "hub_inv U h" for h
    using that by (induction ops arbitrary: h) (auto simp: hub_inv_step)
  moreover have "hub_inv U new_hub" by (simp add: hub_inv_def new_hub_def hub_set_def)
  ultimately show ?thesis by (simp add: hub_run_def)
qed

section \<open>Properties\<close>

text \<open>
  C35. In every interleaving of subscribing, closing, publishing and receiving: a client's queue never
  exceeds 64 events and only ever holds events of the database it subscribed to; the hub's sets are
  exactly the open subscriptions by database, and no empty set stays behind.
\<close>

theorem hub_isolates_databases:
  "length (sub_events (hub_run U ops) i) \<le> 64 \<and>
   ev_database ` set (sub_events (hub_run U ops) i) \<subseteq> {d. hub_key U d = sub_database (hub_run U ops) i} \<and>
   hub_set (hub_run U ops) k = {i. sub_open (hub_run U ops) i \<and> sub_database (hub_run U ops) i = k} \<and>
   hub_subs (hub_run U ops) k \<noteq> Some {}"
  using hub_inv_run [of U ops] unfolding hub_inv_def subscription_buffer_def by auto

text \<open>
  Publishing an event appends it, stamped, to the queue of every open subscription of its database
  that has room, and changes no other queue: nothing is reordered, and a full queue loses only the
  new event.
\<close>

theorem publish_delivers:
  assumes "h = hub_run U ops"
  shows "sub_events (publish U now ev h) i =
    (if sub_open h i \<and> sub_database h i = hub_key U (ev_database ev) \<and> length (sub_events h i) < 64
     then sub_events h i @ [if ev_at ev = 0 then ev\<lparr>ev_at := now\<rparr> else ev] else sub_events h i)"
proof -
  have "i \<in> hub_set h (hub_key U (ev_database ev)) \<longleftrightarrow> sub_open h i \<and> sub_database h i = hub_key U (ev_database ev)"
    using hub_inv_run [of U ops] assms by (simp add: hub_inv_def)
  then show ?thesis
    by (cases "ev_at ev = 0") (auto simp: publish_def Let_def subscription_buffer_def)
qed

definition demo_event :: event where
  "demo_event = \<lparr>ev_type = ''data'', ev_resource = ''t'', ev_database = ''d'', ev_origin = [], ev_at = 0\<rparr>"

theorem publish_delivers_witness:
  "sub_events (publish ascii_only 9 demo_event (hub_run ascii_only [Subscribe ''d''])) 0
   = [demo_event\<lparr>ev_at := 9\<rparr>]"
proof -
  have "hub_run ascii_only [Subscribe ''d''] = snd (subscribe ascii_only ''d'' new_hub)"
    by (simp add: hub_run_def)
  then show ?thesis
    using publish_delivers [OF refl, of ascii_only 9 demo_event "[Subscribe ''d'']" 0]
    by (simp add: subscribe_def new_hub_def demo_event_def Let_def)
qed

end
