(* ===== verification/Schema_Mfa.thy ===== *)
theory Schema_Mfa
  imports Go_Encoding "HOL-Library.Word"
begin

unbundle bit_operations_syntax

text \<open>
  Time-based one-time passwords: the functions of \<open>server/internal/schema/mfa.go\<close> that generate a
  secret and compute and verify codes. HMAC-SHA-1 is the argument \<open>hm\<close> (key, then message); the
  counter is a 64-bit word and the truncated digest a 32-bit one, as in the code. A moment is its Unix
  time in seconds. The operations on accounts that use them are in \<open>Schema_Accounts\<close>.
\<close>

section \<open>Codes\<close>

definition generate_mfa_secret :: "string option \<Rightarrow> string option" where
  "generate_mfa_secret random = map_option b32_encode random"

text \<open>\<open>None\<close> for a failure stands for an index out of range, a panic.\<close>

datatype totp_error = EmptySecret | InvalidSecret | DigestTooShort

definition clean_secret :: "unicode \<Rightarrow> string \<Rightarrow> string" where
  "clean_secret U secret =
     rev (dropWhile (\<lambda>c. c = CHR ''='') (rev (to_upper U (replace_all (trim_space secret) '' '' []))))"

text \<open>Go's division of an \<open>int64\<close> truncates towards zero.\<close>

definition totp_counter :: "int \<Rightarrow> 64 word" where
  "totp_counter unix = word_of_int (if 0 \<le> unix then unix div 30 else - (- unix div 30))"

definition counter_bytes :: "64 word \<Rightarrow> string" where
  "counter_bytes c = map (\<lambda>i. char_of (unat (drop_bit (8 * i) c AND 0xFF))) [7, 6, 5, 4, 3, 2, 1, 0]"

definition byte32 :: "char \<Rightarrow> 32 word" where
  "byte32 c = of_nat (of_char c)"

definition digest_offset :: "string \<Rightarrow> nat" where
  "digest_offset dig = unat ((of_nat (of_char (last dig)) :: 8 word) AND 0x0F)"

definition truncate_digest :: "string \<Rightarrow> 32 word option" where
  "truncate_digest dig =
     (if dig = [] then None
      else case drop (digest_offset dig) dig of
             b0 # b1 # b2 # b3 # _ \<Rightarrow>
               Some (push_bit 24 (byte32 b0 AND 0x7F) OR push_bit 16 (byte32 b1 AND 0xFF)
                 OR push_bit 8 (byte32 b2 AND 0xFF) OR (byte32 b3 AND 0xFF))
           | _ \<Rightarrow> None)"

definition six_digits :: "nat \<Rightarrow> string" where
  "six_digits n = replicate (6 - length (show_nat n)) (CHR ''0'') @ show_nat n"

definition totp_code :: "unicode \<Rightarrow> (string \<Rightarrow> string \<Rightarrow> string) \<Rightarrow> string \<Rightarrow> int \<Rightarrow> totp_error + string" where
  "totp_code U hm secret unix =
     (let cleaned = clean_secret U secret
      in if cleaned = [] then Inl EmptySecret
         else case b32_decode cleaned of
           None \<Rightarrow> Inl InvalidSecret
         | Some key \<Rightarrow>
             (case truncate_digest (hm key (counter_bytes (totp_counter unix))) of
                None \<Rightarrow> Inl DigestTooShort
              | Some bin \<Rightarrow> Inr (six_digits (unat (bin mod 1000000)))))"

definition trimmed_code :: "string \<Rightarrow> string" where
  "trimmed_code code = replace_all (trim_space code) '' '' []"

definition verify_totp :: "unicode \<Rightarrow> (string \<Rightarrow> string \<Rightarrow> string) \<Rightarrow> string \<Rightarrow> string \<Rightarrow> int \<Rightarrow> bool" where
  "verify_totp U hm secret code now \<longleftrightarrow>
     length (trimmed_code code) = 6 \<and>
     list_ex (\<lambda>d. totp_code U hm secret (now + d) = Inr (trimmed_code code)) [0, - 30, 30]"

section \<open>The standard they follow\<close>

text \<open>RFC 4226 and RFC 6238 on natural numbers, for a key of bytes and a counter.\<close>

definition rfc_counter :: "nat \<Rightarrow> string" where
  "rfc_counter n = map (\<lambda>i. char_of (n div 256 ^ i mod 256)) [7, 6, 5, 4, 3, 2, 1, 0]"

definition rfc_truncate :: "string \<Rightarrow> nat" where
  "rfc_truncate dig =
     (let k = byte_val (last dig) mod 16
      in byte_val (dig ! k) mod 128 * 2 ^ 24 + byte_val (dig ! (k + 1)) * 2 ^ 16
           + byte_val (dig ! (k + 2)) * 2 ^ 8 + byte_val (dig ! (k + 3)))"

definition rfc_code :: "(string \<Rightarrow> string \<Rightarrow> string) \<Rightarrow> string \<Rightarrow> nat \<Rightarrow> string" where
  "rfc_code hm key n = six_digits (rfc_truncate (hm key (rfc_counter n)) mod 10 ^ 6)"

section \<open>Facts\<close>

lemma unat_and_mask: "unat (w AND mask n) = unat w mod 2 ^ n"
  by (simp only: take_bit_eq_mask [symmetric] unsigned_take_bit_eq) (simp add: take_bit_eq_mod)

lemma byte_masks:
  "(0xFF :: 64 word) = mask 8" "(0x0F :: 8 word) = mask 4" "(0xFF :: 32 word) = mask 8" "(0x7F :: 32 word) = mask 7"
  by (simp_all add: mask_eq_exp_minus_1)

lemma counter_bytes_nat:
  assumes "n < 2 ^ 64"
  shows "counter_bytes (word_of_nat n) = rfc_counter n"
proof -
  have n: "unat (word_of_nat n :: 64 word) = n" using assms by (simp add: unat_of_nat)
  have "unat (drop_bit (8 * i) (word_of_nat n :: 64 word) AND 0xFF) = n div 256 ^ i mod 256" for i
    unfolding byte_masks(1) unat_and_mask unat_drop_bit_eq n by (simp add: drop_bit_eq_div power_mult)
  then show ?thesis unfolding counter_bytes_def rfc_counter_def by (simp only:)
qed

lemma totp_counter_nat:
  assumes "0 \<le> unix"
  shows "totp_counter unix = word_of_nat (nat unix div 30)"
proof -
  obtain m where m: "unix = int m" using assms by (metis nat_0_le)
  have "int m div 30 = int (m div 30)" by (simp add: zdiv_int)
  then have "totp_counter unix = word_of_int (int (m div 30))" by (simp only: totp_counter_def m of_nat_0_le_iff if_True)
  then show ?thesis by (simp only: m nat_int of_int_of_nat_eq)
qed

lemma digest_offset_mod: "digest_offset dig = byte_val (last dig) mod 16"
  unfolding digest_offset_def byte_masks(2) unat_and_mask by (simp add: unat_of_nat)

text \<open>Four bytes put side by side in a word.\<close>

lemma or_add_nat:
  fixes x y :: nat
  assumes "y < 2 ^ k"
  shows "push_bit k x OR y = x * 2 ^ k + y"
proof -
  have y: "take_bit k y = y" using assms by (simp add: take_bit_nat_eq_self_iff)
  have "push_bit k x AND y = 0"
  proof (rule bit_eqI)
    fix n
    have "bit y n \<Longrightarrow> n < k" using bit_take_bit_iff [of k y n] y by simp
    then show "bit (push_bit k x AND y) n \<longleftrightarrow> bit (0 :: nat) n"
      by (auto simp: bit_and_iff bit_push_bit_iff)
  qed
  then have "push_bit k x OR y = push_bit k x + y" by (simp add: disjunctive_add_eq_or)
  then show ?thesis by (simp add: push_bit_eq_mult)
qed

lemma unat_byte32: "unat (byte32 c) = byte_val c"
  unfolding byte32_def unat_of_nat by (intro mod_less order_less_le_trans [OF byte_val_lt]) simp

lemma unat_push_small:
  assumes "unat w < 2 ^ (32 - k)" and "k \<le> 32"
  shows "unat (push_bit k (w :: 32 word)) = push_bit k (unat w)"
proof -
  have "unat w * 2 ^ k < 2 ^ (32 - k) * 2 ^ k" using assms(1) by simp
  also have "\<dots> = (2::nat) ^ 32" using assms(2) by (simp flip: power_add)
  finally have "push_bit k (unat w) < 2 ^ 32" by (simp add: push_bit_eq_mult)
  then show ?thesis by (simp add: unsigned_push_bit_eq take_bit_nat_eq_self_iff)
qed

lemma four_bytes:
  "unat (push_bit 24 (byte32 a AND 0x7F) OR push_bit 16 (byte32 b AND 0xFF)
      OR push_bit 8 (byte32 c AND 0xFF) OR (byte32 d AND 0xFF))
   = byte_val a mod 128 * 2 ^ 24 + byte_val b * 2 ^ 16 + byte_val c * 2 ^ 8 + byte_val d"
proof -
  have m: "unat (byte32 x AND 0xFF) = byte_val x" "unat (byte32 x AND 0x7F) = byte_val x mod 128" for x
    unfolding byte_masks(3,4) unat_and_mask unat_byte32 using byte_val_lt [of x] by simp_all
  have lt: "byte_val x < 256" "byte_val x mod 128 < 128" for x :: char by simp_all
  have p: "unat (push_bit 24 (byte32 a AND 0x7F)) = push_bit 24 (byte_val a mod 128)"
    "unat (push_bit 16 (byte32 b AND 0xFF)) = push_bit 16 (byte_val b)"
    "unat (push_bit 8 (byte32 c AND 0xFF)) = push_bit 8 (byte_val c)"
  proof -
    have "unat (byte32 a AND 0x7F) < 2 ^ (32 - 24)" "unat (byte32 b AND 0xFF) < 2 ^ (32 - 16)"
      "unat (byte32 c AND 0xFF) < 2 ^ (32 - 8)"
      unfolding m by (rule order_less_le_trans [OF lt(2)], simp) (rule order_less_le_trans [OF lt(1)], simp)+
    note u = this [THEN unat_push_small]
    show "unat (push_bit 24 (byte32 a AND 0x7F)) = push_bit 24 (byte_val a mod 128)"
      "unat (push_bit 16 (byte32 b AND 0xFF)) = push_bit 16 (byte_val b)"
      "unat (push_bit 8 (byte32 c AND 0xFF)) = push_bit 8 (byte_val c)"
      using u(1) u(2) u(3) unfolding m by simp_all
  qed
  define z where "z = byte_val c * 2 ^ 8 + byte_val d"
  define y where "y = byte_val b * 2 ^ 16 + z"
  have z: "push_bit 8 (byte_val c) OR byte_val d = z" unfolding z_def by (rule or_add_nat) simp
  have join: "x * m + y < k * m" if "x < k" "y < m" for x y k m :: nat
    using digit_split(3) [OF that] .
  have "z < 2 ^ 8 * 2 ^ 8" unfolding z_def by (rule join) (rule order_less_le_trans [OF lt(1)], simp)+
  then have "z < 2 ^ 16" by simp
  then have y: "push_bit 16 (byte_val b) OR z = y" unfolding y_def by (rule or_add_nat)
  have "y < 2 ^ 8 * 2 ^ 16"
    unfolding y_def by (rule join [OF _ \<open>z < 2 ^ 16\<close>], rule order_less_le_trans [OF lt(1)], simp)
  then have "y < 2 ^ 24" by simp
  then have x: "push_bit 24 (byte_val a mod 128) OR y = byte_val a mod 128 * 2 ^ 24 + y" by (rule or_add_nat)
  show ?thesis unfolding unsigned_or_eq p m or.assoc z y x by (simp add: y_def z_def)
qed

lemma digest_four:
  assumes "length dig = 20"
  obtains a b c d rest where "drop (digest_offset dig) dig = a # b # c # d # rest"
    and "a = dig ! digest_offset dig" "b = dig ! (digest_offset dig + 1)" "c = dig ! (digest_offset dig + 2)"
      "d = dig ! (digest_offset dig + 3)"
proof -
  let ?k = "digest_offset dig"
  have k: "?k < 16" by (simp add: digest_offset_mod)
  then have "drop ?k dig = dig ! ?k # dig ! (?k + 1) # dig ! (?k + 2) # dig ! (?k + 3) # drop (?k + 4) dig"
    using assms by (simp add: Cons_nth_drop_Suc [symmetric] eval_nat_numeral)
  then show ?thesis using that by blast
qed

lemma truncate_rfc:
  assumes "length dig = 20"
  shows "\<exists>w. truncate_digest dig = Some w \<and> unat w = rfc_truncate dig"
proof -
  obtain a b c d rest where dr: "drop (digest_offset dig) dig = a # b # c # d # rest"
    and n: "a = dig ! digest_offset dig" "b = dig ! (digest_offset dig + 1)" "c = dig ! (digest_offset dig + 2)"
      "d = dig ! (digest_offset dig + 3)" using digest_four [OF assms] by blast
  have "dig \<noteq> []" using assms by auto
  then have t: "truncate_digest dig = Some (push_bit 24 (byte32 a AND 0x7F) OR push_bit 16 (byte32 b AND 0xFF)
      OR push_bit 8 (byte32 c AND 0xFF) OR (byte32 d AND 0xFF))"
    by (simp only: truncate_digest_def dr if_False list.case)
  have "rfc_truncate dig = byte_val a mod 128 * 2 ^ 24 + byte_val b * 2 ^ 16 + byte_val c * 2 ^ 8 + byte_val d"
    unfolding rfc_truncate_def Let_def n digest_offset_mod ..
  then show ?thesis using t four_bytes by metis
qed

lemma visible_ascii: "visible c \<Longrightarrow> byte_val c < (128::nat)"
  by (simp add: visible_def)

lemma to_upper_id:
  assumes "\<forall>c\<in>set s. visible c \<and> \<not> (97 \<le> byte_val c \<and> byte_val c \<le> (122::nat))"
  shows "to_upper U s = s"
proof -
  have ascii: "is_ascii s" using assms visible_ascii by (auto simp: is_ascii_def)
  have "map (rune_upper U) (map byte_val s) = map byte_val s"
    using assms visible_ascii by (auto simp: rune_upper_def)
  then show ?thesis by (simp only: to_upper_def runes_ascii [OF ascii] of_runes_ascii [OF ascii])
qed

lemma code_no_spaces: "CHR '' '' \<notin> set s \<Longrightarrow> replace_all s '' '' [] = s"
  by (induction s) (auto simp: replace_all_char)

lemma clean_generated:
  assumes "length bytes = 20"
  shows "clean_secret U (b32_encode bytes) = b32_encode bytes" and "b32_encode bytes \<noteq> []"
proof -
  let ?s = "b32_encode bytes"
  have len: "length bytes = 5 * 4" using assms by simp
  note l = b32_encode_letters [OF len]
  have v: "\<forall>c\<in>set ?s. visible c \<and> \<not> (97 \<le> byte_val c \<and> byte_val c \<le> (122::nat))"
    by (intro ballI conjI l(1) l(4))
  have sp: "CHR '' '' \<notin> set ?s" and eq: "CHR ''='' \<notin> set ?s" using l(2,3) by blast+
  show ne: "?s \<noteq> []"
  proof
    assume "?s = []"
    then have "b32_decode [] = Some bytes" using b32_decode_encode [OF len] by (simp only:)
    moreover have "b32_decode [] = Some []" by (simp add: b32_decode_def b32_quantum_def)
    ultimately show False using assms by auto
  qed
  have "trim_space ?s = ?s"
    by (rule trim_space_visible [OF ne]) (rule l(1), simp only: list.set_sel(1) [OF ne] last_in_set [OF ne])+
  moreover have "rev (dropWhile (\<lambda>c. c = CHR ''='') (rev ?s)) = ?s"
  proof -
    have "last ?s \<noteq> CHR ''=''" using eq last_in_set [OF ne] by metis
    then have "dropWhile (\<lambda>c. c = CHR ''='') (rev ?s) = rev ?s"
      by (simp only: dropWhile_eq_self_iff hd_rev simp_thms)
    then show ?thesis by (simp only: rev_rev_ident)
  qed
  ultimately show "clean_secret U ?s = ?s"
    by (simp only: clean_secret_def code_no_spaces [OF sp] to_upper_id [OF v])
qed

lemma totp_code_rfc:
  assumes "length bytes = 20" and "\<And>k m. length (hm k m) = 20" and "0 \<le> unix" and "nat unix div 30 < 2 ^ 64"
  shows "totp_code U hm (b32_encode bytes) unix = Inr (rfc_code hm bytes (nat unix div 30))"
proof -
  have b: "b32_decode (b32_encode bytes) = Some bytes" using b32_decode_encode [of bytes 4] assms(1) by simp
  have c: "counter_bytes (totp_counter unix) = rfc_counter (nat unix div 30)"
    unfolding totp_counter_nat [OF assms(3)] by (rule counter_bytes_nat [OF assms(4)])
  obtain w where w: "truncate_digest (hm bytes (rfc_counter (nat unix div 30))) = Some w"
    and u: "unat w = rfc_truncate (hm bytes (rfc_counter (nat unix div 30)))"
    using truncate_rfc [OF assms(2)] by blast
  have "unat (w mod 1000000) = unat w mod 10 ^ 6" by (simp add: unat_mod_distrib)
  then have "six_digits (unat (w mod 1000000)) = rfc_code hm bytes (nat unix div 30)"
    by (simp only: rfc_code_def u)
  then show ?thesis
    by (simp only: totp_code_def clean_generated [OF assms(1)] if_False Let_def b c w option.case)
qed

lemma show_nat_length: "n < 10 ^ k \<Longrightarrow> 0 < k \<Longrightarrow> length (show_nat n) \<le> k"
proof (induction k arbitrary: n)
  case (Suc k)
  show ?case
  proof (cases "n < 10")
    case False
    then have "n div 10 < 10 ^ k" "0 < k" using Suc.prems by (cases k; auto)+
    then have "length (show_nat (n div 10)) \<le> k" by (rule Suc.IH)
    then show ?thesis using False by (subst show_nat.simps) simp
  qed (subst show_nat.simps, simp)
qed simp

lemma rfc_code_six: "length (rfc_code hm key n) = 6" "\<forall>c\<in>set (rfc_code hm key n). 48 \<le> byte_val c \<and> byte_val c \<le> (57::nat)"
proof -
  have "length (show_nat (rfc_truncate (hm key (rfc_counter n)) mod 10 ^ 6)) \<le> 6"
    by (rule show_nat_length) simp_all
  then show "length (rfc_code hm key n) = 6" by (simp add: rfc_code_def six_digits_def)
  show "\<forall>c\<in>set (rfc_code hm key n). 48 \<le> byte_val c \<and> byte_val c \<le> (57::nat)"
    using show_nat_digits by (auto simp: rfc_code_def six_digits_def)
qed

section \<open>Properties\<close>

text \<open>
  C20. For a generated secret and a moment after 1970 a code is accepted exactly when, spaces apart, it is
  the six-digit code RFC 6238 gives for the secret's bytes in the present, the previous or the next
  period of 30 seconds. The 64-bit counter, the big-endian bytes and the 31-bit truncation of the code
  agree with the arithmetic of the standard.
\<close>

theorem totp_verifies_iff:
  assumes "generate_mfa_secret (Some bytes) = Some secret" and "length bytes = 20"
    and "\<And>k m. length (hm k m) = 20" and "30 \<le> now" and "now < 2 ^ 63"
  shows "verify_totp U hm secret code now \<longleftrightarrow>
    trimmed_code code \<in> {rfc_code hm bytes (nat now div 30), rfc_code hm bytes (nat now div 30 - 1),
      rfc_code hm bytes (nat now div 30 + 1)}"
proof -
  have s: "secret = b32_encode bytes" using assms(1) by (simp add: generate_mfa_secret_def)
  have small: "nat (now + d) div 30 < 2 ^ 64" if "d \<le> 30" for d
  proof -
    have "nat (now + d) < 2 ^ 64" using that assms(5) by (simp add: nat_less_iff)
    then show ?thesis by (rule order_le_less_trans [rotated]) simp
  qed
  have code: "totp_code U hm secret (now + d) = Inr (rfc_code hm bytes (nat (now + d) div 30))"
    if "- 30 \<le> d" "d \<le> 30" for d
    unfolding s by (rule totp_code_rfc [OF assms(2,3) _ small [OF that(2)]]) (use that assms(4) in linarith)
  have "nat (now + - 30) = nat now - 30" "nat (now + 30) = nat now + 30" using assms(4) by linarith+
  moreover have "nat now div 30 = Suc ((nat now - 30) div 30)" using assms(4) by (intro le_div_geq) linarith+
  moreover have "(nat now + 30) div 30 = nat now div 30 + 1" by simp
  ultimately have periods: "nat (now + - 30) div 30 = nat now div 30 - 1" "nat (now + 30) div 30 = nat now div 30 + 1"
    by simp_all
  have codes: "totp_code U hm secret (now + 0) = Inr (rfc_code hm bytes (nat now div 30))"
    "totp_code U hm secret (now + - 30) = Inr (rfc_code hm bytes (nat now div 30 - 1))"
    "totp_code U hm secret (now + 30) = Inr (rfc_code hm bytes (nat now div 30 + 1))"
    using code [of 0] code [of "- 30"] code [of 30] unfolding periods by simp_all
  have three: "list_ex f [0, - 30, 30] \<longleftrightarrow> f 0 \<or> f (- 30) \<or> f 30" for f :: "int \<Rightarrow> bool" by simp
  show ?thesis
    unfolding verify_totp_def three codes sum.inject
    using rfc_code_six(1) by (auto simp: eq_commute [of _ "trimmed_code code"])
qed

definition demo_hmac :: "string \<Rightarrow> string \<Rightarrow> string" where
  "demo_hmac k m = replicate 20 (CHR 0x00)"

theorem totp_verifies_iff_witness:
  "verify_totp ascii_only demo_hmac (b32_encode ''abcdefghijklmnopqrst'') ''000000'' 60 \<longleftrightarrow>
    trimmed_code ''000000'' \<in> {rfc_code demo_hmac ''abcdefghijklmnopqrst'' (nat 60 div 30),
      rfc_code demo_hmac ''abcdefghijklmnopqrst'' (nat 60 div 30 - 1), rfc_code demo_hmac ''abcdefghijklmnopqrst'' (nat 60 div 30 + 1)}"
  by (rule totp_verifies_iff) (simp_all add: generate_mfa_secret_def demo_hmac_def)

end
