(* ===== verification/Schema_Accounts.thy ===== *)
theory Schema_Accounts
  imports Schema_Mfa
begin

text \<open>
  User accounts: \<open>server/internal/schema/security_service.go\<close> up to the permissions, which are in
  \<open>Schema_Permissions\<close>, and the operations of \<open>schema/mfa.go\<close> on accounts. The catalog is a record
  of its tables, a table the list of its rows in the order the database returns them; a column that may
  be NULL is an option. The record \<open>account_env\<close> holds what the server does not decide: the tables of
  \<open>unicode\<close>, \<open>LOWER\<close> and the equality of names in the engine, the order it sorts names in, SHA-256,
  bcrypt, HMAC-SHA-1 and the escapes of \<open>net/url\<close>. A statement that changes the catalog comes with the
  error of the engine, if it fails; a query that reads an account, with the information which of its
  two spellings (with and without the newer columns) the engine runs. The queries that count accounts
  or list permissions run. Moments are nanoseconds; a one-time password is checked at their second.
\<close>

section \<open>The catalog\<close>

record user_row =
  u_id :: string
  u_username :: string
  u_hash :: string
  u_role :: string
  u_active :: "bool option"
  u_mfa :: "bool option"
  u_secret :: "string option"
  u_super :: "bool option"
  u_created :: int
  u_updated :: int

record layout_permission =
  lp_id :: string
  lp_user :: string
  lp_layout :: string
  lp_level :: string

record table_permission =
  tp_id :: string
  tp_user :: string
  tp_table :: string
  tp_level :: string
  tp_create :: bool
  tp_edit :: bool
  tp_delete :: bool
  tp_schema :: bool

text \<open>A layout with the name of the table under its occurrence.\<close>

record layout_row =
  ly_id :: string
  ly_name :: string
  ly_table :: string

record catalog =
  sc_users :: "user_row list"
  sc_layout_permissions :: "layout_permission list"
  sc_table_permissions :: "table_permission list"
  sc_layouts :: "layout_row list"

record account_env =
  sv_uni :: unicode
  sv_sql_lower :: "string \<Rightarrow> string"
  sv_same_name :: "string \<Rightarrow> string \<Rightarrow> bool"
  sv_name_less :: "string \<Rightarrow> string \<Rightarrow> bool"
  sv_sha256 :: "string \<Rightarrow> string"
  sv_bcrypt :: "string \<Rightarrow> string \<Rightarrow> bool"
  sv_hmac :: "string \<Rightarrow> string \<Rightarrow> string"
  sv_path_escape :: "string \<Rightarrow> string"
  sv_query_escape :: "string \<Rightarrow> string"

datatype account_error =
    PasswordRequired
  | UsernameRequired
  | InvalidCredentials
  | Deactivated
  | MFARequired
  | InvalidMFACode
  | MFANotInitialized
  | NoSecret
  | CredentialsRequired
  | HashFailed string
  | NameTaken
  | UserNotFound
  | AccountGone
  | InvalidRole string
  | OnlyActiveOwner
  | OnlyOwner
  | NotAnOwner
  | InvalidLevel string string
  | UnknownLayout string
  | StatementFailed string

definition coalesce :: "'a option \<Rightarrow> 'a \<Rightarrow> 'a" where
  "coalesce x d = (case x of None \<Rightarrow> d | Some y \<Rightarrow> y)"

definition row_active :: "user_row \<Rightarrow> bool" where
  "row_active u = coalesce (u_active u) True"

definition find_user :: "string \<Rightarrow> catalog \<Rightarrow> user_row option" where
  "find_user uid cat = find (\<lambda>u. u_id u = uid) (sc_users cat)"

definition map_user :: "string \<Rightarrow> (user_row \<Rightarrow> user_row) \<Rightarrow> catalog \<Rightarrow> catalog" where
  "map_user uid f cat = cat\<lparr>sc_users := map (\<lambda>u. if u_id u = uid then f u else u) (sc_users cat)\<rparr>"

definition run_statement :: "string option \<Rightarrow> (catalog \<Rightarrow> catalog) \<Rightarrow> catalog \<Rightarrow> (account_error + unit) \<times> catalog" where
  "run_statement failure f cat =
     (case failure of Some e \<Rightarrow> (Inl (StatementFailed e), cat) | None \<Rightarrow> (Inr (), f cat))"

section \<open>Stamps\<close>

definition bool_text :: "bool \<Rightarrow> string" where
  "bool_text b = (if b then ''true'' else ''false'')"

definition stamp_text :: "string \<Rightarrow> string \<Rightarrow> bool \<Rightarrow> bool \<Rightarrow> string" where
  "stamp_text hash role active super =
     hash @ [CHR 0x00] @ role @ [CHR 0x00] @ bool_text active @ [CHR 0x00] @ bool_text super"

definition account_stamp_of :: "account_env \<Rightarrow> string \<Rightarrow> string \<Rightarrow> bool \<Rightarrow> bool \<Rightarrow> string" where
  "account_stamp_of E hash role active super = hex_encode (sv_sha256 E (stamp_text hash role active super))"

definition current_account_stamp :: "account_env \<Rightarrow> string \<Rightarrow> catalog \<Rightarrow> account_error + string" where
  "current_account_stamp E uid cat =
     (case find_user uid cat of
        None \<Rightarrow> Inl AccountGone
      | Some u \<Rightarrow> Inr (account_stamp_of E (u_hash u) (u_role u) (row_active u) (coalesce (u_super u) False)))"

definition valid_role :: "string \<Rightarrow> bool" where
  "valid_role role \<longleftrightarrow> role = ''owner'' \<or> role = ''admin'' \<or> role = ''user''"

definition access_read_write :: string where "access_read_write = ''read_write''"
definition access_read_only :: string where "access_read_only = ''read_only''"
definition access_none :: string where "access_none = ''none''"

definition valid_access_level :: "string \<Rightarrow> bool" where
  "valid_access_level l \<longleftrightarrow> l = access_read_write \<or> l = access_read_only \<or> l = access_none"

section \<open>Reading accounts\<close>

text \<open>What a query scans: all the columns, or those of an older catalog.\<close>

record account_row =
  ar_id :: string
  ar_username :: string
  ar_hash :: string
  ar_role :: string
  ar_active :: bool
  ar_mfa :: bool
  ar_secret :: string
  ar_super :: bool
  ar_created :: int
  ar_updated :: int

definition full_row :: "user_row \<Rightarrow> account_row" where
  "full_row u =
     \<lparr>ar_id = u_id u, ar_username = u_username u, ar_hash = u_hash u, ar_role = u_role u, ar_active = row_active u,
      ar_mfa = coalesce (u_mfa u) False, ar_secret = coalesce (u_secret u) [], ar_super = coalesce (u_super u) False,
      ar_created = u_created u, ar_updated = u_updated u\<rparr>"

definition legacy_row :: "user_row \<Rightarrow> account_row" where
  "legacy_row u = (full_row u)\<lparr>ar_mfa := False, ar_secret := [], ar_super := False\<rparr>"

datatype engine_runs = Runs (runs_full: bool) (runs_legacy: bool)

definition look_up :: "engine_runs \<Rightarrow> (user_row \<Rightarrow> bool) \<Rightarrow> catalog \<Rightarrow> account_row option" where
  "look_up runs P cat =
     (case (if runs_full runs then find P (sc_users cat) else None) of
        Some u \<Rightarrow> Some (full_row u)
      | None \<Rightarrow> if runs_legacy runs then map_option legacy_row (find P (sc_users cat)) else None)"

definition get_user :: "engine_runs \<Rightarrow> string \<Rightarrow> catalog \<Rightarrow> account_error + account_row" where
  "get_user runs uid cat =
     (case look_up runs (\<lambda>u. u_id u = uid) cat of None \<Rightarrow> Inl UserNotFound | Some r \<Rightarrow> Inr r)"

definition count_users :: "catalog \<Rightarrow> nat" where
  "count_users cat = length (sc_users cat)"

definition is_active_owner :: "user_row \<Rightarrow> bool" where
  "is_active_owner u \<longleftrightarrow> u_role u = ''owner'' \<and> row_active u"

definition count_active_owners :: "catalog \<Rightarrow> nat" where
  "count_active_owners cat = length (filter is_active_owner (sc_users cat))"

definition list_users :: "account_env \<Rightarrow> engine_runs \<Rightarrow> catalog \<Rightarrow> account_error + account_row list" where
  "list_users E runs cat =
     (let users = stable_sort (\<lambda>u v. sv_name_less E (u_username u) (u_username v)) (sc_users cat)
      in if runs_full runs then Inr (map full_row users)
         else if runs_legacy runs then Inr (map legacy_row users)
         else Inl (StatementFailed ''failed listing users''))"

section \<open>Permissions of an account\<close>

definition layout_name :: "catalog \<Rightarrow> string \<Rightarrow> string" where
  "layout_name cat l = (case find (\<lambda>r. ly_id r = l) (sc_layouts cat) of None \<Rightarrow> [] | Some r \<Rightarrow> ly_name r)"

definition get_user_permissions :: "string \<Rightarrow> catalog \<Rightarrow> (layout_permission \<times> string) list" where
  "get_user_permissions uid cat =
     map (\<lambda>p. (p, layout_name cat (lp_layout p))) (filter (\<lambda>p. lp_user p = uid) (sc_layout_permissions cat))"

definition get_user_table_permissions :: "account_env \<Rightarrow> string \<Rightarrow> catalog \<Rightarrow> table_permission list" where
  "get_user_table_permissions E uid cat =
     stable_sort (\<lambda>p q. sv_name_less E (tp_table p) (tp_table q)) (filter (\<lambda>p. tp_user p = uid) (sc_table_permissions cat))"

section \<open>Signing in\<close>

record auth_user =
  au_id :: string
  au_username :: string
  au_role :: string
  au_active :: bool
  au_mfa :: bool
  au_super :: bool
  au_permissions :: "(layout_permission \<times> string) list"
  au_table_permissions :: "table_permission list"
  au_stamp :: string

definition name_matches :: "account_env \<Rightarrow> string \<Rightarrow> user_row \<Rightarrow> bool" where
  "name_matches E name u \<longleftrightarrow> sv_sql_lower E (u_username u) = sv_sql_lower E name"

definition second_factor :: "account_env \<Rightarrow> int \<Rightarrow> account_row \<Rightarrow> string \<Rightarrow> account_error + unit" where
  "second_factor E now r totp =
     (if ar_mfa r \<and> trim_space (ar_secret r) \<noteq> []
      then if trim_space totp = [] then Inl MFARequired
           else if verify_totp (sv_uni E) (sv_hmac E) (ar_secret r) (trim_space totp) now then Inr () else Inl InvalidMFACode
      else Inr ())"

definition sign_in :: "account_env \<Rightarrow> engine_runs \<Rightarrow> int \<Rightarrow> string \<Rightarrow> string \<Rightarrow> string \<Rightarrow> catalog
    \<Rightarrow> account_error + auth_user" where
  "sign_in E runs now username password totp cat =
     (if trim_space password = [] then Inl PasswordRequired
      else let name = to_lower (sv_uni E) (trim_space username)
           in if name = [] then Inl UsernameRequired
              else case look_up runs (name_matches E name) cat of
                None \<Rightarrow> Inl InvalidCredentials
              | Some r \<Rightarrow>
                  if \<not> sv_bcrypt E (ar_hash r) password then Inl InvalidCredentials
                  else if \<not> ar_active r then Inl Deactivated
                  else bind_r (second_factor E (now div 10 ^ 9) r totp) (\<lambda>_. Inr
                    \<lparr>au_id = ar_id r, au_username = ar_username r, au_role = ar_role r, au_active = ar_active r,
                     au_mfa = ar_mfa r, au_super = ar_super r, au_permissions = get_user_permissions (ar_id r) cat,
                     au_table_permissions = get_user_table_permissions E (ar_id r) cat,
                     au_stamp = account_stamp_of E (ar_hash r) (ar_role r) (ar_active r) (ar_super r)\<rparr>))"

section \<open>Changing accounts\<close>

text \<open>\<open>hashed\<close> is the answer of \<open>bcrypt.GenerateFromPassword\<close>, \<open>uid\<close> the new identifier.\<close>

definition create_user :: "account_env \<Rightarrow> string + string \<Rightarrow> string \<Rightarrow> int \<Rightarrow> string option \<Rightarrow> string \<Rightarrow> string
    \<Rightarrow> string \<Rightarrow> bool option \<Rightarrow> catalog \<Rightarrow> (account_error + user_row) \<times> catalog" where
  "create_user E hashed uid now failure username password role active cat =
     (let username = trim_space username;
          role = (if valid_role role then role else ''user'')
      in if username = [] \<or> password = [] then (Inl CredentialsRequired, cat)
         else case hashed of
           Inl e \<Rightarrow> (Inl (HashFailed e), cat)
         | Inr hash \<Rightarrow>
             let row = \<lparr>u_id = uid, u_username = username, u_hash = hash, u_role = role,
                   u_active = Some (coalesce active True), u_mfa = Some False, u_secret = Some [], u_super = Some False,
                   u_created = now, u_updated = now\<rparr>
             in case failure of
                  Some e \<Rightarrow> (Inl (StatementFailed e), cat)
                | None \<Rightarrow>
                    if list_ex (\<lambda>u. u_id u = uid \<or> sv_same_name E (u_username u) username) (sc_users cat)
                    then (Inl NameTaken, cat)
                    else (Inr row, cat\<lparr>sc_users := sc_users cat @ [row]\<rparr>))"

definition update_user :: "engine_runs \<Rightarrow> string + string \<Rightarrow> int \<Rightarrow> string option \<Rightarrow> string \<Rightarrow> string \<Rightarrow> string
    \<Rightarrow> bool option \<Rightarrow> catalog \<Rightarrow> (account_error + unit) \<times> catalog" where
  "update_user runs hashed now failure uid password role active cat =
     (case get_user runs uid cat of
        Inl e \<Rightarrow> (Inl e, cat)
      | Inr current \<Rightarrow>
          let role = (if role = [] then ar_role current else role)
          in if \<not> valid_role role then (Inl (InvalidRole role), cat)
             else if ar_role current = ''owner'' \<and> ar_active current \<and> (role \<noteq> ''owner'' \<or> active = Some False)
                  \<and> count_active_owners cat \<le> 1
             then (Inl OnlyActiveOwner, cat)
             else if password \<noteq> []
             then (case hashed of
                     Inl e \<Rightarrow> (Inl (HashFailed e), cat)
                   | Inr hash \<Rightarrow>
                       (case active of
                          Some b \<Rightarrow> run_statement failure
                            (map_user uid (\<lambda>u. u\<lparr>u_hash := hash, u_role := role, u_active := Some b, u_updated := now\<rparr>)) cat
                        | None \<Rightarrow> run_statement failure
                            (map_user uid (\<lambda>u. u\<lparr>u_hash := hash, u_role := role, u_updated := now\<rparr>)) cat))
             else (case active of
                     Some b \<Rightarrow> run_statement failure
                       (map_user uid (\<lambda>u. u\<lparr>u_role := role, u_active := Some b, u_updated := now\<rparr>)) cat
                   | None \<Rightarrow> run_statement failure (map_user uid (\<lambda>u. u\<lparr>u_role := role, u_updated := now\<rparr>)) cat))"

definition set_super_owner :: "engine_runs \<Rightarrow> int \<Rightarrow> string option \<Rightarrow> string \<Rightarrow> bool \<Rightarrow> catalog
    \<Rightarrow> (account_error + unit) \<times> catalog" where
  "set_super_owner runs now failure uid super cat =
     (case get_user runs uid cat of
        Inl e \<Rightarrow> (Inl e, cat)
      | Inr current \<Rightarrow>
          if super \<and> ar_role current \<noteq> ''owner'' then (Inl NotAnOwner, cat)
          else run_statement failure (map_user uid (\<lambda>u. u\<lparr>u_super := Some super, u_updated := now\<rparr>)) cat)"

text \<open>The foreign keys take the permissions of a deleted account with it.\<close>

definition remove_user :: "string \<Rightarrow> catalog \<Rightarrow> catalog" where
  "remove_user uid cat =
     cat\<lparr>sc_users := filter (\<lambda>u. u_id u \<noteq> uid) (sc_users cat),
         sc_layout_permissions := filter (\<lambda>p. lp_user p \<noteq> uid) (sc_layout_permissions cat),
         sc_table_permissions := filter (\<lambda>p. tp_user p \<noteq> uid) (sc_table_permissions cat)\<rparr>"

definition delete_user :: "string option \<Rightarrow> string \<Rightarrow> catalog \<Rightarrow> (account_error + unit) \<times> catalog" where
  "delete_user failure uid cat =
     (case find_user uid cat of
        None \<Rightarrow> (Inl UserNotFound, cat)
      | Some u \<Rightarrow>
          if u_role u = ''owner'' \<and> length (filter (\<lambda>u. u_role u = ''owner'') (sc_users cat)) \<le> 1
          then (Inl OnlyOwner, cat)
          else run_statement failure (remove_user uid) cat)"

section \<open>The second factor of an account\<close>

record mfa_setup =
  ms_user :: string
  ms_username :: string
  ms_issuer :: string
  ms_secret :: string
  ms_uri :: string
  ms_enabled :: bool

definition otp_auth_uri :: "account_env \<Rightarrow> string \<Rightarrow> string \<Rightarrow> string \<Rightarrow> string" where
  "otp_auth_uri E issuer username secret =
     (let clean = trim_space issuer;
          clean = (if clean = [] then ''File4Base'' else clean);
          label = sv_path_escape E (clean @ '':'' @ trim_space username);
          params = [(''algorithm'', ''SHA1''), (''digits'', ''6''), (''issuer'', clean), (''period'', ''30''),
            (''secret'', to_upper (sv_uni E) (trim_space secret))]
      in ''otpauth://totp/'' @ label @ ''?'' @ join ''&'' (map (\<lambda>(k, v). k @ ''='' @ sv_query_escape E v) params))"

definition mfa_issuer :: "string \<Rightarrow> string" where
  "mfa_issuer database =
     (if trim_space database = [] then ''File4Base'' else ''File4Base ('' @ trim_space database @ '')'')"

text \<open>The error of storing the pending secret is dropped.\<close>

definition setup_user_mfa :: "account_env \<Rightarrow> engine_runs \<Rightarrow> string option \<Rightarrow> int \<Rightarrow> string option \<Rightarrow> string \<Rightarrow> string
    \<Rightarrow> catalog \<Rightarrow> (account_error + mfa_setup) \<times> catalog" where
  "setup_user_mfa E runs random now failure uid database cat =
     (case get_user runs uid cat of
        Inl e \<Rightarrow> (Inl e, cat)
      | Inr u \<Rightarrow>
          (case generate_mfa_secret random of
             None \<Rightarrow> (Inl NoSecret, cat)
           | Some secret \<Rightarrow>
               (Inr \<lparr>ms_user = ar_id u, ms_username = ar_username u, ms_issuer = mfa_issuer database, ms_secret = secret,
                     ms_uri = otp_auth_uri E (mfa_issuer database) (ar_username u) secret, ms_enabled = ar_mfa u\<rparr>,
                if ar_mfa u then cat
                else snd (run_statement failure (map_user uid (\<lambda>u. u\<lparr>u_secret := Some secret, u_updated := now\<rparr>)) cat))))"

definition effective_secret :: "string \<Rightarrow> string \<Rightarrow> catalog \<Rightarrow> string" where
  "effective_secret uid secret cat =
     (if trim_space secret \<noteq> [] then trim_space secret
      else case find_user uid cat of None \<Rightarrow> [] | Some u \<Rightarrow> coalesce (u_secret u) [])"

definition enable_user_mfa :: "account_env \<Rightarrow> engine_runs \<Rightarrow> int \<Rightarrow> string option \<Rightarrow> string \<Rightarrow> string \<Rightarrow> string
    \<Rightarrow> catalog \<Rightarrow> (account_error + unit) \<times> catalog" where
  "enable_user_mfa E runs now failure uid secret code cat =
     (case get_user runs uid cat of
        Inl e \<Rightarrow> (Inl e, cat)
      | Inr _ \<Rightarrow>
          let s = effective_secret uid secret cat
          in if s = [] then (Inl MFANotInitialized, cat)
             else if \<not> verify_totp (sv_uni E) (sv_hmac E) s code (now div 10 ^ 9) then (Inl InvalidMFACode, cat)
             else run_statement failure
               (map_user uid (\<lambda>u. u\<lparr>u_mfa := Some True, u_secret := Some s, u_updated := now\<rparr>)) cat)"

definition disable_user_mfa :: "engine_runs \<Rightarrow> int \<Rightarrow> string option \<Rightarrow> string \<Rightarrow> catalog
    \<Rightarrow> (account_error + unit) \<times> catalog" where
  "disable_user_mfa runs now failure uid cat =
     (case get_user runs uid cat of
        Inl e \<Rightarrow> (Inl e, cat)
      | Inr _ \<Rightarrow>
          run_statement failure (map_user uid (\<lambda>u. u\<lparr>u_mfa := Some False, u_secret := Some [], u_updated := now\<rparr>)) cat)"

section \<open>Facts\<close>

lemma map_user_users [simp]:
  "sc_users (map_user uid f cat) = map (\<lambda>u. if u_id u = uid then f u else u) (sc_users cat)"
  by (simp add: map_user_def)

lemma run_statement_cases:
  "run_statement failure f cat = (r, cat') \<Longrightarrow> r = Inr () \<and> cat' = f cat \<or> (\<exists>e. r = Inl (StatementFailed e)) \<and> cat' = cat"
  by (auto simp: run_statement_def split: option.splits)

lemma get_user_found:
  assumes "get_user runs uid cat = Inr r"
  shows "\<exists>u. find_user uid cat = Some u \<and> u \<in> set (sc_users cat) \<and> u_id u = uid \<and> ar_id r = uid \<and> ar_role r = u_role u \<and>
    ar_active r = row_active u"
proof -
  have "\<exists>u. find (\<lambda>u. u_id u = uid) (sc_users cat) = Some u \<and> ar_id r = u_id u \<and> ar_role r = u_role u \<and> ar_active r = row_active u"
    using assms by (auto simp: get_user_def look_up_def full_row_def legacy_row_def split: option.splits if_splits)
  then show ?thesis by (auto simp: find_user_def find_Some_iff)
qed

text \<open>What an update does: nothing, or a new password, role or flag for the one account.\<close>

definition updated_row :: "int \<Rightarrow> string \<Rightarrow> bool option \<Rightarrow> string option \<Rightarrow> user_row \<Rightarrow> user_row" where
  "updated_row now role active hash u =
     u\<lparr>u_hash := coalesce hash (u_hash u), u_role := role,
       u_active := (case active of None \<Rightarrow> u_active u | Some b \<Rightarrow> Some b), u_updated := now\<rparr>"

lemma updated_row_fields [simp]:
  "u_id (updated_row now role active hash u) = u_id u" "u_role (updated_row now role active hash u) = role"
  "u_active (updated_row now role active hash u) = (case active of None \<Rightarrow> u_active u | Some b \<Rightarrow> Some b)"
  "u_hash (updated_row now role active hash u) = coalesce hash (u_hash u)"
  "u_super (updated_row now role active hash u) = u_super u"
  "u_mfa (updated_row now role active hash u) = u_mfa u" "u_secret (updated_row now role active hash u) = u_secret u"
  by (simp_all add: updated_row_def)

lemma update_user_ok:
  assumes "update_user runs hashed now failure uid password role active cat = (Inr (), cat')"
  obtains u hash where "find_user uid cat = Some u" "valid_role (if role = [] then u_role u else role)"
    "\<not> (is_active_owner u \<and> ((if role = [] then u_role u else role) \<noteq> ''owner'' \<or> active = Some False) \<and>
      count_active_owners cat \<le> 1)"
    "hash = None \<and> password = [] \<or> (\<exists>h. hash = Some h \<and> password \<noteq> [] \<and> hashed = Inr h)"
    "cat' = map_user uid (updated_row now (if role = [] then u_role u else role) active hash) cat"
proof -
  obtain cur where cur: "get_user runs uid cat = Inr cur"
    using assms by (auto simp: update_user_def split: sum.splits)
  obtain u where u: "find_user uid cat = Some u" "ar_role cur = u_role u" "ar_active cur = row_active u"
    using get_user_found [OF cur] by blast
  let ?role = "if role = [] then u_role u else role"
  have g: "valid_role ?role"
    "\<not> (is_active_owner u \<and> (?role \<noteq> ''owner'' \<or> active = Some False) \<and> count_active_owners cat \<le> 1)"
    using assms by (auto simp: update_user_def cur u Let_def is_active_owner_def cong: if_cong split: if_splits)
  define hash where "hash = (if password = [] then None else map_option id (case hashed of Inl _ \<Rightarrow> None | Inr h \<Rightarrow> Some h))"
  have "(\<lambda>u. u\<lparr>u_role := ?role, u_updated := now\<rparr>) = updated_row now ?role None None"
    "(\<lambda>u. u\<lparr>u_role := ?role, u_active := Some b, u_updated := now\<rparr>) = updated_row now ?role (Some b) None"
    "(\<lambda>u. u\<lparr>u_hash := h, u_role := ?role, u_updated := now\<rparr>) = updated_row now ?role None (Some h)"
    "(\<lambda>u. u\<lparr>u_hash := h, u_role := ?role, u_active := Some b, u_updated := now\<rparr>) = updated_row now ?role (Some b) (Some h)"
    for b h
    by (auto simp: updated_row_def coalesce_def fun_eq_iff)
  note rows = this
  have "(hash = None \<and> password = [] \<or> (\<exists>h. hash = Some h \<and> password \<noteq> [] \<and> hashed = Inr h)) \<and>
      cat' = map_user uid (updated_row now ?role active hash) cat"
    using assms g unfolding update_user_def cur sum.case u(2,3) Let_def rows
    by (auto simp: is_active_owner_def hash_def run_statement_def split: if_splits sum.splits option.splits)
  with that u(1) g show thesis by blast
qed

lemma update_user_error:
  "update_user runs hashed now failure uid password role active cat = (Inl e, cat') \<Longrightarrow> cat' = cat"
  by (auto simp: update_user_def run_statement_def Let_def split: if_splits sum.splits option.splits)

text \<open>A stamp tells the role and the two flags of the account it was made of.\<close>

lemma last_part:
  "a @ [x] @ s = b @ [x] @ t \<Longrightarrow> x \<notin> set s \<Longrightarrow> x \<notin> set t \<Longrightarrow> a = b \<and> s = t"
  by (auto simp: append_eq_append_conv2 Cons_eq_append_conv append_eq_Cons_conv)

lemma bool_text_inj: "bool_text a = bool_text b \<Longrightarrow> a = b"
  by (auto simp: bool_text_def split: if_splits)

lemma no_nul: "CHR 0x00 \<notin> set (bool_text b)" "valid_role role \<Longrightarrow> CHR 0x00 \<notin> set role"
  by (auto simp: bool_text_def valid_role_def)

lemma stamp_text_inj:
  assumes "stamp_text h1 r1 a1 s1 = stamp_text h2 r2 a2 s2" and "valid_role r1" "valid_role r2"
  shows "h1 = h2 \<and> r1 = r2 \<and> a1 = a2 \<and> s1 = s2"
proof -
  have 1: "h1 @ [CHR 0x00] @ r1 @ [CHR 0x00] @ bool_text a1 = h2 @ [CHR 0x00] @ r2 @ [CHR 0x00] @ bool_text a2 \<and>
    bool_text s1 = bool_text s2"
    by (rule last_part [where x = "CHR 0x00"]) (use assms(1) no_nul in \<open>auto simp: stamp_text_def\<close>)
  have 2: "h1 @ [CHR 0x00] @ r1 = h2 @ [CHR 0x00] @ r2 \<and> bool_text a1 = bool_text a2"
    by (rule last_part [where x = "CHR 0x00"]) (use 1 no_nul in auto)
  have 3: "h1 = h2 \<and> r1 = r2"
    by (rule last_part [where x = "CHR 0x00"]) (use 2 no_nul assms(2,3) in auto)
  show ?thesis using 1 2 3 bool_text_inj by blast
qed

lemma account_stamp_inj:
  assumes "inj (sv_sha256 E)" and "account_stamp_of E h1 r1 a1 s1 = account_stamp_of E h2 r2 a2 s2"
    and "valid_role r1" "valid_role r2"
  shows "h1 = h2 \<and> r1 = r2 \<and> a1 = a2 \<and> s1 = s2"
proof -
  have "sv_sha256 E (stamp_text h1 r1 a1 s1) = sv_sha256 E (stamp_text h2 r2 a2 s2)"
    using assms(2) by (auto simp: account_stamp_of_def dest: hex_encode_inj)
  then show ?thesis using assms stamp_text_inj by (blast dest: injD)
qed

text \<open>A sound table of accounts: no identifier twice, and every role a valid one.\<close>

definition sound_accounts :: "catalog \<Rightarrow> bool" where
  "sound_accounts cat \<longleftrightarrow> distinct (map u_id (sc_users cat)) \<and> list_all (\<lambda>u. valid_role (u_role u)) (sc_users cat)"

definition has_active_owner :: "catalog \<Rightarrow> bool" where
  "has_active_owner cat \<longleftrightarrow> list_ex is_active_owner (sc_users cat)"

lemma sound_same:
  "sound_accounts cat \<Longrightarrow> u \<in> set (sc_users cat) \<Longrightarrow> w \<in> set (sc_users cat) \<Longrightarrow> u_id u = u_id w \<Longrightarrow> u = w"
  by (auto simp: sound_accounts_def distinct_map dest: inj_onD)

lemma find_user_some: "find_user uid cat = Some u \<Longrightarrow> u \<in> set (sc_users cat) \<and> u_id u = uid"
  by (auto simp: find_user_def find_Some_iff)

lemma sound_find:
  assumes "sound_accounts cat"
  shows "find_user uid cat = Some u \<longleftrightarrow> u \<in> set (sc_users cat) \<and> u_id u = uid"
proof
  assume u: "u \<in> set (sc_users cat) \<and> u_id u = uid"
  then have "find_user uid cat \<noteq> None" by (auto simp: find_user_def find_None_iff)
  then obtain w where w: "find_user uid cat = Some w" by blast
  with u show "find_user uid cat = Some u" using find_user_some [OF w] sound_same [OF assms] by metis
qed (rule find_user_some)

lemma sound_map:
  "sound_accounts cat \<Longrightarrow> (\<And>u. u_id (f u) = u_id u) \<Longrightarrow> (\<And>u. valid_role (u_role u) \<Longrightarrow> valid_role (u_role (f u))) \<Longrightarrow>
    sound_accounts (map_user uid f cat)"
  by (auto simp: sound_accounts_def list_all_iff comp_def if_distrib cong: if_cong map_cong)

lemma owner_map:
  "has_active_owner cat \<Longrightarrow> (\<And>u. is_active_owner u \<Longrightarrow> u_id u = uid \<Longrightarrow> u \<in> set (sc_users cat) \<Longrightarrow> is_active_owner (f u)) \<Longrightarrow>
    has_active_owner (map_user uid f cat)"
  by (auto simp: has_active_owner_def list_ex_iff)

lemma other_owner:
  assumes "sound_accounts cat" and "u \<in> set (sc_users cat)" and "1 < count_active_owners cat"
  shows "\<exists>w\<in>set (sc_users cat). is_active_owner w \<and> u_id w \<noteq> u_id u"
proof (rule ccontr)
  assume "\<not> ?thesis"
  then have "set (filter is_active_owner (sc_users cat)) \<subseteq> {u}"
    using assms(1,2) by (auto simp: sound_accounts_def distinct_map dest: inj_onD)
  then have "card (set (filter is_active_owner (sc_users cat))) \<le> 1"
    by (metis card_mono finite.emptyI finite.insertI is_singletonI is_singleton_altdef)
  moreover have "distinct (filter is_active_owner (sc_users cat))"
    using assms(1) by (auto simp: sound_accounts_def distinct_map)
  ultimately show False using assms(3) distinct_card unfolding count_active_owners_def by fastforce
qed

lemma owner_kept_apart:
  "\<exists>w\<in>set (sc_users cat). is_active_owner w \<and> u_id w \<noteq> uid \<Longrightarrow> has_active_owner (map_user uid f cat)"
  by (force simp: has_active_owner_def list_ex_iff)

section \<open>What the operations keep\<close>

lemma update_user_keeps:
  assumes "sound_accounts cat"
  shows "sound_accounts (snd (update_user runs hashed now failure uid password role active cat)) \<and>
    (has_active_owner cat \<longrightarrow> has_active_owner (snd (update_user runs hashed now failure uid password role active cat)))"
proof (cases "update_user runs hashed now failure uid password role active cat")
  case (Pair r cat')
  show ?thesis
  proof (cases r)
    case (Inl e)
    then show ?thesis using update_user_error Pair assms by fastforce
  next
    case (Inr x)
    obtain u hash where u: "find_user uid cat = Some u" and v: "valid_role (if role = [] then u_role u else role)"
      and g: "\<not> (is_active_owner u \<and> ((if role = [] then u_role u else role) \<noteq> ''owner'' \<or> active = Some False) \<and>
      count_active_owners cat \<le> 1)"
      and c: "cat' = map_user uid (updated_row now (if role = [] then u_role u else role) active hash) cat"
      by (rule update_user_ok [of runs hashed now failure uid password role active cat cat']) (use Pair Inr in auto)
    have in_u: "u \<in> set (sc_users cat)" "u_id u = uid" using u sound_find [OF assms] by auto
    have "has_active_owner cat'" if "has_active_owner cat"
    proof (cases "is_active_owner u \<and> ((if role = [] then u_role u else role) \<noteq> ''owner'' \<or> active = Some False)")
      case True
      then have "1 < count_active_owners cat" using g by auto
      then show ?thesis unfolding c using other_owner [OF assms in_u(1)] in_u(2) by (auto intro!: owner_kept_apart)
    next
      case False
      show ?thesis unfolding c
      proof (rule owner_map [OF that])
        fix w assume w: "is_active_owner w" "u_id w = uid" "w \<in> set (sc_users cat)"
        then have "w = u" using sound_same [OF assms] in_u by simp
        with w False show "is_active_owner (updated_row now (if role = [] then u_role u else role) active hash w)"
          by (auto simp: is_active_owner_def row_active_def coalesce_def split: option.splits)
      qed
    qed
    moreover have "sound_accounts cat'" unfolding c by (rule sound_map [OF assms]) (use v in simp_all)
    ultimately show ?thesis using Pair by simp
  qed
qed

lemma create_user_keeps:
  assumes "sound_accounts cat"
  shows "sound_accounts (snd (create_user E hashed uid now failure username password role active cat)) \<and>
    (has_active_owner cat \<longrightarrow> has_active_owner (snd (create_user E hashed uid now failure username password role active cat)))"
  using assms
  by (auto simp: create_user_def Let_def sound_accounts_def has_active_owner_def list_ex_iff valid_role_def
        split: sum.splits option.splits)

lemma set_super_owner_keeps:
  assumes "sound_accounts cat"
  shows "sound_accounts (snd (set_super_owner runs now failure uid super cat)) \<and>
    (has_active_owner cat \<longrightarrow> has_active_owner (snd (set_super_owner runs now failure uid super cat)))"
  using assms
  by (auto simp: set_super_owner_def run_statement_def is_active_owner_def row_active_def
        intro!: sound_map owner_map split: sum.splits option.splits)

lemma delete_user_cases:
  "delete_user failure uid cat = (r, cat') \<Longrightarrow> cat' = cat \<and> (\<exists>e. r = Inl e) \<or> cat' = remove_user uid cat \<and> r = Inr ()"
  by (auto simp: delete_user_def run_statement_def split: option.splits if_splits)

lemma remove_user_keeps:
  assumes "sound_accounts cat"
  shows "sound_accounts (remove_user uid cat) \<and>
    (list_ex (\<lambda>w. is_active_owner w \<and> u_id w \<noteq> uid) (sc_users cat) \<longrightarrow> has_active_owner (remove_user uid cat))"
  using assms
  by (auto simp: remove_user_def sound_accounts_def has_active_owner_def list_ex_iff list_all_iff distinct_map_filter)

lemma mfa_keeps:
  assumes "sound_accounts cat"
  shows "sound_accounts (snd (setup_user_mfa E runs random now failure uid database cat))"
    "has_active_owner cat \<Longrightarrow> has_active_owner (snd (setup_user_mfa E runs random now failure uid database cat))"
    "sound_accounts (snd (enable_user_mfa E runs now failure uid secret code cat))"
    "has_active_owner cat \<Longrightarrow> has_active_owner (snd (enable_user_mfa E runs now failure uid secret code cat))"
    "sound_accounts (snd (disable_user_mfa runs now failure uid cat))"
    "has_active_owner cat \<Longrightarrow> has_active_owner (snd (disable_user_mfa runs now failure uid cat))"
  using assms
  by (auto simp: setup_user_mfa_def enable_user_mfa_def disable_user_mfa_def run_statement_def is_active_owner_def
        row_active_def Let_def intro!: sound_map owner_map split: sum.splits option.splits)

end
