(* ===== verification/Schema_Permissions.thy ===== *)
theory Schema_Permissions
  imports Schema_Accounts
begin

text \<open>
  What an account may do: the layout and table permissions of \<open>schema/security_service.go\<close> and the
  capabilities of roles of \<open>schema/privileges.go\<close>. A transaction comes with the error of the first of
  its statements that fails, if one does; a failed transaction is rolled back. The foreign keys of a
  layout permission are checked.
\<close>

section \<open>Layouts and tables\<close>

definition layout_access :: "string \<Rightarrow> string \<Rightarrow> catalog \<Rightarrow> string" where
  "layout_access uid lid cat =
     (case find (\<lambda>p. lp_user p = uid \<and> lp_layout p = lid) (sc_layout_permissions cat) of
        None \<Rightarrow> access_read_write
      | Some p \<Rightarrow> if valid_access_level (lp_level p) then lp_level p else access_none)"

definition table_permission_for :: "account_env \<Rightarrow> string \<Rightarrow> string \<Rightarrow> catalog \<Rightarrow> table_permission option" where
  "table_permission_for E uid tname cat =
     find (\<lambda>p. tp_user p = uid \<and> sv_sql_lower E (tp_table p) = sv_sql_lower E tname) (sc_table_permissions cat)"

definition access_rank :: "string \<Rightarrow> int" where
  "access_rank l = (if l = access_read_only then 1 else if l = access_read_write then 2 else 0)"

text \<open>The rows of the join: a layout on the table, with the account's permission on it if there is one.\<close>

definition table_layout_levels :: "string \<Rightarrow> string \<Rightarrow> catalog \<Rightarrow> string option list" where
  "table_layout_levels uid tname cat =
     concat (map (\<lambda>l. case filter (\<lambda>p. lp_layout p = ly_id l \<and> lp_user p = uid) (sc_layout_permissions cat) of
         [] \<Rightarrow> [None] | ps \<Rightarrow> map (\<lambda>p. Some (lp_level p)) ps)
       (filter (\<lambda>l. ly_table l = tname) (sc_layouts cat)))"

definition best_rank :: "string option list \<Rightarrow> int" where
  "best_rank levels =
     fold (\<lambda>l best. let cur = (case l of None \<Rightarrow> access_rank access_read_write | Some s \<Rightarrow> access_rank s)
                    in if best < cur then cur else best) levels (- 1)"

definition table_access :: "account_env \<Rightarrow> string \<Rightarrow> string \<Rightarrow> catalog \<Rightarrow> string" where
  "table_access E uid tname cat =
     (case table_permission_for E uid tname cat of
        Some p \<Rightarrow>
          if \<not> valid_access_level (tp_level p) then access_none
          else if tp_level p = access_read_write \<and> \<not> tp_create p \<and> \<not> tp_edit p \<and> \<not> tp_delete p then access_read_only
          else tp_level p
      | None \<Rightarrow>
          let best = best_rank (table_layout_levels uid tname cat)
          in if best = - 1 \<or> best = 2 then access_read_write else if best = 1 then access_read_only else access_none)"

fun new_layout_permissions :: "(nat \<Rightarrow> string) \<Rightarrow> string \<Rightarrow> string list \<Rightarrow> layout_permission list
    \<Rightarrow> layout_permission list" where
  "new_layout_permissions fresh uid seen [] = []"
| "new_layout_permissions fresh uid seen (p # ps) =
     (if lp_layout p = [] \<or> lp_layout p \<in> set seen then new_layout_permissions fresh uid seen ps
      else \<lparr>lp_id = fresh (length seen), lp_user = uid, lp_layout = lp_layout p, lp_level = lp_level p\<rparr>
        # new_layout_permissions fresh uid (seen @ [lp_layout p]) ps)"

definition set_user_permissions :: "(nat \<Rightarrow> string) \<Rightarrow> string option \<Rightarrow> string \<Rightarrow> layout_permission list
    \<Rightarrow> catalog \<Rightarrow> (account_error + unit) \<times> catalog" where
  "set_user_permissions fresh failure uid perms cat =
     (case find (\<lambda>p. lp_layout p \<noteq> [] \<and> \<not> valid_access_level (lp_level p)) perms of
        Some p \<Rightarrow> (Inl (InvalidLevel (lp_level p) (lp_layout p)), cat)
      | None \<Rightarrow>
          let rows = new_layout_permissions fresh uid [] perms
          in case (failure, find (\<lambda>p. lp_layout p \<notin> ly_id ` set (sc_layouts cat)) rows) of
               (Some e, _) \<Rightarrow> (Inl (StatementFailed e), cat)
             | (None, Some p) \<Rightarrow> (Inl (UnknownLayout (lp_layout p)), cat)
             | (None, None) \<Rightarrow>
                 (Inr (), cat\<lparr>sc_layout_permissions :=
                    filter (\<lambda>p. lp_user p \<noteq> uid) (sc_layout_permissions cat) @ rows\<rparr>))"

definition stored_table_permission :: "string \<Rightarrow> string \<Rightarrow> string \<Rightarrow> table_permission \<Rightarrow> table_permission" where
  "stored_table_permission pid uid tname p =
     (let w = \<not> (tp_level p = access_none \<or> tp_level p = access_read_only)
      in \<lparr>tp_id = pid, tp_user = uid, tp_table = tname, tp_level = tp_level p, tp_create = tp_create p \<and> w,
          tp_edit = tp_edit p \<and> w, tp_delete = tp_delete p \<and> w, tp_schema = tp_schema p \<and> w\<rparr>)"

fun new_table_permissions :: "account_env \<Rightarrow> (nat \<Rightarrow> string) \<Rightarrow> string \<Rightarrow> string list \<Rightarrow> table_permission list
    \<Rightarrow> table_permission list" where
  "new_table_permissions E fresh uid seen [] = []"
| "new_table_permissions E fresh uid seen (p # ps) =
     (let tname = trim_space (tp_table p); key = to_lower (sv_uni E) tname
      in if tname = [] \<or> key \<in> set seen then new_table_permissions E fresh uid seen ps
         else stored_table_permission (fresh (length seen)) uid tname p
           # new_table_permissions E fresh uid (seen @ [key]) ps)"

definition set_user_table_permissions :: "account_env \<Rightarrow> (nat \<Rightarrow> string) \<Rightarrow> string option \<Rightarrow> string
    \<Rightarrow> table_permission list \<Rightarrow> catalog \<Rightarrow> (account_error + unit) \<times> catalog" where
  "set_user_table_permissions E fresh failure uid perms cat =
     (case find (\<lambda>p. trim_space (tp_table p) \<noteq> [] \<and> \<not> valid_access_level (tp_level p)) perms of
        Some p \<Rightarrow> (Inl (InvalidLevel (tp_level p) (tp_table p)), cat)
      | None \<Rightarrow>
          run_statement failure (\<lambda>cat. cat\<lparr>sc_table_permissions :=
            filter (\<lambda>p. tp_user p \<noteq> uid) (sc_table_permissions cat) @ new_table_permissions E fresh uid [] perms\<rparr>) cat)"

section \<open>Capabilities of roles\<close>

definition bulk_export :: string where "bulk_export = ''bulk_export''"
definition bulk_import :: string where "bulk_import = ''bulk_import''"

definition capabilities :: "string list" where
  "capabilities = [bulk_export, bulk_import]"

definition privilege_roles :: "string list" where
  "privilege_roles = [''owner'', ''admin'', ''user'']"

record role_privileges =
  rp_role :: string
  rp_export :: bool
  rp_import :: bool

definition privileges_allow :: "role_privileges \<Rightarrow> string \<Rightarrow> bool" where
  "privileges_allow p c = (if c = bulk_export then rp_export p else if c = bulk_import then rp_import p else False)"

datatype privilege_error = UnknownCapability string | UnknownRole string | PrivilegesFailed string

definition default_role_privileges :: "string \<Rightarrow> role_privileges" where
  "default_role_privileges role = \<lparr>rp_role = role, rp_export = True, rp_import = True\<rparr>"

definition is_capability :: "string \<Rightarrow> bool" where
  "is_capability c = list_ex (\<lambda>d. d = c) capabilities"

definition is_privilege_role :: "string \<Rightarrow> bool" where
  "is_privilege_role role = list_ex (\<lambda>r. r = role) privilege_roles"

text \<open>The table \<open>sys_privileges\<close>, the role being its key; \<open>failure\<close> is the error of the query.\<close>

type_synonym privilege_table = "(string \<times> bool \<times> bool) list"

definition role_privileges_of :: "string option \<Rightarrow> string \<Rightarrow> privilege_table \<Rightarrow> privilege_error + role_privileges" where
  "role_privileges_of failure role tbl =
     (case failure of
        Some e \<Rightarrow> Inl (PrivilegesFailed e)
      | None \<Rightarrow>
          (case map_of tbl role of
             None \<Rightarrow> Inr (default_role_privileges role)
           | Some (x, i) \<Rightarrow> Inr \<lparr>rp_role = role, rp_export = x, rp_import = i\<rparr>))"

definition role_allows :: "string option \<Rightarrow> string \<Rightarrow> string \<Rightarrow> privilege_table \<Rightarrow> privilege_error + bool" where
  "role_allows failure role c tbl =
     (if \<not> is_capability c then Inl (UnknownCapability c)
      else if role = ''owner'' then Inr True
      else bind_r (role_privileges_of failure role tbl) (\<lambda>p. Inr (privileges_allow p c)))"

definition list_role_privileges :: "string option \<Rightarrow> privilege_table \<Rightarrow> privilege_error + role_privileges list" where
  "list_role_privileges failure tbl =
     (case failure of
        Some e \<Rightarrow> Inl (PrivilegesFailed e)
      | None \<Rightarrow>
          let stored = (\<lambda>role. map_option (\<lambda>(x, i). \<lparr>rp_role = role, rp_export = x, rp_import = i\<rparr>) (map_of tbl role))
          in Inr (map (\<lambda>role.
               let p = (case stored role of Some p \<Rightarrow> p | None \<Rightarrow> default_role_privileges role);
                   p = p\<lparr>rp_role := role\<rparr>
               in if role = ''owner'' then default_role_privileges role else p) privilege_roles))"

definition see_privileges :: "role_privileges \<Rightarrow> (string \<rightharpoonup> role_privileges)
    \<Rightarrow> privilege_error + (string \<rightharpoonup> role_privileges)" where
  "see_privileges p seen =
     (if \<not> is_privilege_role (rp_role p) then Inl (UnknownRole (rp_role p))
      else let p = (if rp_role p = ''owner'' then default_role_privileges ''owner'' else p)
           in Inr (seen(rp_role p \<mapsto> p)))"

definition replace_privileges :: "role_privileges \<Rightarrow> privilege_table \<Rightarrow> privilege_table" where
  "replace_privileges p tbl =
     filter (\<lambda>(role, _). role \<noteq> rp_role p) tbl @ [(rp_role p, rp_export p, rp_import p)]"

text \<open>The keys of the Go map are sorted: the roles seen, in the order of their names.\<close>

definition set_role_privileges :: "string option \<Rightarrow> role_privileges list \<Rightarrow> privilege_table
    \<Rightarrow> (privilege_error + unit) \<times> privilege_table" where
  "set_role_privileges failure privileges tbl =
     (case fold_r see_privileges privileges Map.empty of
        Inl e \<Rightarrow> (Inl e, tbl)
      | Inr seen \<Rightarrow>
          let roles = filter (\<lambda>role. seen role \<noteq> None) (stable_sort (<) privilege_roles)
          in if roles = [] then (Inr (), tbl)
             else case failure of
               Some e \<Rightarrow> (Inl (PrivilegesFailed e), tbl)
             | None \<Rightarrow> (Inr (), fold (\<lambda>role. replace_privileges (the (seen role))) roles tbl))"

definition capabilities_of :: "string option \<Rightarrow> string \<Rightarrow> privilege_table \<Rightarrow> privilege_error + string list" where
  "capabilities_of failure role tbl =
     fold_r (\<lambda>c held. bind_r (role_allows failure role c tbl) (\<lambda>b. Inr (if b then held @ [c] else held))) capabilities []"

section \<open>Facts\<close>

text \<open>Of the permissions sent for a layout the first is stored.\<close>

lemma find_new_layout:
  "lid \<noteq> [] \<Longrightarrow>
    map_option lp_level (find (\<lambda>q. lp_user q = uid \<and> lp_layout q = lid) (new_layout_permissions fresh uid seen perms)) =
    (if lid \<in> set seen then None else map_option lp_level (find (\<lambda>p. lp_layout p = lid) perms))"
proof (cases "lid \<in> set seen")
  case True
  then show ?thesis by (induction perms arbitrary: seen) auto
next
  case False
  have old: "lid \<in> set seen \<Longrightarrow> find (\<lambda>q. lp_user q = uid \<and> lp_layout q = lid)
      (new_layout_permissions fresh uid seen ps) = None" for seen ps
    by (induction ps arbitrary: seen) auto
  assume "lid \<noteq> []"
  with False show ?thesis by (induction perms arbitrary: seen) (auto simp: old)
qed

lemma new_layout_user: "q \<in> set (new_layout_permissions fresh uid seen perms) \<Longrightarrow> lp_user q = uid"
  by (induction perms arbitrary: seen) (auto split: if_splits)

lemma new_layout_valid:
  "\<forall>p\<in>set perms. lp_layout p \<noteq> [] \<longrightarrow> valid_access_level (lp_level p) \<Longrightarrow>
    \<forall>q\<in>set (new_layout_permissions fresh uid seen perms). valid_access_level (lp_level q)"
  by (induction perms arbitrary: seen) auto

lemma find_append: "find P (xs @ ys) = (case find P xs of Some x \<Rightarrow> Some x | None \<Rightarrow> find P ys)"
  by (induction xs) auto

lemma find_filter: "(\<And>x. P x \<Longrightarrow> Q x) \<Longrightarrow> find P (filter Q xs) = find P xs"
  by (induction xs) auto

lemma find_none: "(\<And>x. x \<in> set xs \<Longrightarrow> \<not> P x) \<Longrightarrow> find P xs = None"
  by (simp add: find_None_iff)

lemma set_user_permissions_cases:
  "fst (set_user_permissions fresh failure uid perms cat) = Inr () \<Longrightarrow>
     find (\<lambda>p. lp_layout p \<noteq> [] \<and> \<not> valid_access_level (lp_level p)) perms = None \<and>
     snd (set_user_permissions fresh failure uid perms cat) = cat\<lparr>sc_layout_permissions :=
       filter (\<lambda>p. lp_user p \<noteq> uid) (sc_layout_permissions cat) @ new_layout_permissions fresh uid [] perms\<rparr>"
  "fst (set_user_permissions fresh failure uid perms cat) = Inl e \<Longrightarrow>
     snd (set_user_permissions fresh failure uid perms cat) = cat"
  by (auto simp: set_user_permissions_def Let_def split: option.splits)

lemma layout_access_other:
  assumes "v \<noteq> uid"
  shows "layout_access v lid (cat\<lparr>sc_layout_permissions := filter (\<lambda>p. lp_user p \<noteq> uid) ps
      @ new_layout_permissions fresh uid [] perms\<rparr>) = layout_access v lid (cat\<lparr>sc_layout_permissions := ps\<rparr>)"
proof -
  have "find (\<lambda>p. lp_user p = v \<and> lp_layout p = lid) (new_layout_permissions fresh uid [] perms) = None"
    using assms new_layout_user by (intro find_none) blast
  moreover have "find (\<lambda>p. lp_user p = v \<and> lp_layout p = lid) (filter (\<lambda>p. lp_user p \<noteq> uid) ps)
      = find (\<lambda>p. lp_user p = v \<and> lp_layout p = lid) ps"
    using assms by (intro find_filter) auto
  ultimately show ?thesis by (simp add: layout_access_def find_append split: option.split)
qed

lemma layout_access_set:
  assumes "lid \<noteq> []" and "\<forall>p\<in>set perms. lp_layout p \<noteq> [] \<longrightarrow> valid_access_level (lp_level p)"
  shows "layout_access uid lid (cat\<lparr>sc_layout_permissions := filter (\<lambda>p. lp_user p \<noteq> uid) ps
      @ new_layout_permissions fresh uid [] perms\<rparr>) =
    (case find (\<lambda>p. lp_layout p = lid) perms of None \<Rightarrow> access_read_write | Some p \<Rightarrow> lp_level p)"
proof -
  let ?new = "new_layout_permissions fresh uid [] perms"
  let ?P = "\<lambda>p. lp_user p = uid \<and> lp_layout p = lid"
  have "find ?P (filter (\<lambda>p. lp_user p \<noteq> uid) ps) = None" by (intro find_none) auto
  then have all: "find ?P (filter (\<lambda>p. lp_user p \<noteq> uid) ps @ ?new) = find ?P ?new" by (simp add: find_append)
  note first = find_new_layout [OF assms(1), of uid fresh "[]" perms]
  have valid: "\<And>q. find ?P ?new = Some q \<Longrightarrow> valid_access_level (lp_level q)"
    using new_layout_valid [OF assms(2)] by (metis find_Some_iff nth_mem)
  show ?thesis
    using first valid by (auto simp: layout_access_def all split: option.splits)
qed

text \<open>
  Setting the layout permissions of an account takes effect exactly as sent: either it is refused
  and the catalog is as it was, or the account's access to every layout is the first level sent for
  it (\<open>none\<close> included) and reading and writing for the layouts not named, and no other account's access
  changes. A level outside the three known ones is never accepted.
\<close>

theorem layout_permissions_take_effect:
  "case set_user_permissions fresh failure uid perms cat of
     (Inl e, cat') \<Rightarrow> cat' = cat
   | (Inr u, cat') \<Rightarrow>
       (if lid = [] then True
        else layout_access v lid cat' =
          (if v = uid then case find (\<lambda>p. lp_layout p = lid) perms of None \<Rightarrow> access_read_write | Some p \<Rightarrow> lp_level p
           else layout_access v lid cat)) \<and>
       list_all (\<lambda>p. if lp_layout p = [] then True else valid_access_level (lp_level p)) perms"
proof (cases "set_user_permissions fresh failure uid perms cat")
  case (Pair r cat')
  note facts = set_user_permissions_cases [of fresh failure uid perms cat, unfolded Pair fst_conv snd_conv]
  show ?thesis
  proof (cases r)
    case (Inl e)
    then show ?thesis using facts(2) Pair by simp
  next
    case (Inr u)
    then have valid: "\<forall>p\<in>set perms. lp_layout p \<noteq> [] \<longrightarrow> valid_access_level (lp_level p)"
      and cat': "cat' = cat\<lparr>sc_layout_permissions := filter (\<lambda>p. lp_user p \<noteq> uid) (sc_layout_permissions cat)
        @ new_layout_permissions fresh uid [] perms\<rparr>" using facts(1) by (auto simp: find_None_iff)
    have same: "cat\<lparr>sc_layout_permissions := sc_layout_permissions cat\<rparr> = cat" by simp
    show ?thesis
      using layout_access_set [OF _ valid, where lid = lid and uid = uid and cat = cat and fresh = fresh
          and ps = "sc_layout_permissions cat"]
        layout_access_other [where v = v and uid = uid and lid = lid and cat = cat and fresh = fresh and perms = perms
          and ps = "sc_layout_permissions cat", unfolded same] valid
      by (auto simp: Pair Inr cat' list_all_iff)
  qed
qed

text \<open>The privileges of a role as an abstract map; a role without a row holds everything.\<close>

definition holds :: "privilege_table \<Rightarrow> string \<Rightarrow> string \<Rightarrow> bool" where
  "holds tbl role c \<longleftrightarrow> role = ''owner'' \<or>
     (case map_of tbl role of None \<Rightarrow> True | Some (x, i) \<Rightarrow> if c = bulk_export then x else i)"

definition last_for :: "string \<Rightarrow> role_privileges list \<Rightarrow> role_privileges option" where
  "last_for role ps = find (\<lambda>p. rp_role p = role) (rev ps)"

lemma role_allows_holds: "is_capability c \<Longrightarrow> role_allows None role c tbl = Inr (holds tbl role c)"
  by (auto simp: role_allows_def role_privileges_of_def holds_def default_role_privileges_def privileges_allow_def
        is_capability_def capabilities_def bulk_export_def bulk_import_def split: option.splits)

lemma see_privileges_fold:
  "fold_r see_privileges ps seen =
     (case find (\<lambda>p. \<not> is_privilege_role (rp_role p)) ps of
        Some p \<Rightarrow> Inl (UnknownRole (rp_role p))
      | None \<Rightarrow> Inr (\<lambda>role. case last_for role ps of
          Some p \<Rightarrow> Some (if role = ''owner'' then default_role_privileges ''owner'' else p)
        | None \<Rightarrow> seen role))"
proof (induction ps arbitrary: seen)
  case Nil
  then show ?case by (simp add: last_for_def)
next
  case (Cons p ps)
  show ?case
  proof (cases "is_privilege_role (rp_role p)")
    case True
    have last: "last_for role (p # ps) =
        (case last_for role ps of Some q \<Rightarrow> Some q | None \<Rightarrow> if rp_role p = role then Some p else None)" for role
      by (simp add: last_for_def find_append split: option.split)
    have "see_privileges p seen = Inr (seen(rp_role p \<mapsto>
        (if rp_role p = ''owner'' then default_role_privileges ''owner'' else p)))"
      using True by (simp add: see_privileges_def Let_def default_role_privileges_def)
    then show ?thesis
      using Cons.IH True by (auto simp: last fun_eq_iff split: option.splits)
  qed (simp add: see_privileges_def)
qed

lemma map_of_replace:
  "map_of (replace_privileges p tbl) role =
     (if role = rp_role p then Some (rp_export p, rp_import p) else map_of tbl role)"
proof -
  have "map_of (filter (\<lambda>(r, _). r \<noteq> rp_role p) tbl) role = (if role = rp_role p then None else map_of tbl role)"
    by (induction tbl) auto
  then show ?thesis by (auto simp: replace_privileges_def map_add_def split: option.splits)
qed

lemma map_of_replace_all:
  assumes "\<And>role. role \<in> set roles \<Longrightarrow> rp_role (f role) = role"
  shows "map_of (fold (\<lambda>role. replace_privileges (f role)) roles tbl) role =
    (if role \<in> set roles then Some (rp_export (f role), rp_import (f role)) else map_of tbl role)"
  using assms by (induction roles arbitrary: tbl) (auto simp: map_of_replace)

text \<open>
  C21. What the roles hold after privileges were set: the request is refused, and nothing changes, when
  it names a role there is not; otherwise every role named holds what its last entry says, an owner
  everything whatever the entry says, and a role left out what it held. \<open>RoleAllows\<close>,
  \<open>ListRolePrivileges\<close> and \<open>CapabilitiesOf\<close> agree on it, and a capability there is not is held by nobody.
\<close>

theorem privileges_take_effect:
  "case set_role_privileges None ps tbl of
     (Inl e, tbl') \<Rightarrow> tbl' = tbl \<and> list_ex (\<lambda>p. \<not> is_privilege_role (rp_role p)) ps
   | (Inr u, tbl') \<Rightarrow>
       role_allows None role c tbl' =
         (if \<not> is_capability c then Inl (UnknownCapability c)
          else Inr (if role = ''owner'' then True
            else case last_for role ps of Some p \<Rightarrow> privileges_allow p c | None \<Rightarrow> holds tbl role c)) \<and>
       capabilities_of None role tbl' = Inr (filter (\<lambda>c. role_allows None role c tbl' = Inr True) capabilities) \<and>
       list_role_privileges None tbl' = Inr (map (\<lambda>r. \<lparr>rp_role = r, rp_export = holds tbl' r bulk_export,
         rp_import = holds tbl' r bulk_import\<rparr>) privilege_roles)"
proof -
  have lists: "capabilities_of None role t = Inr (filter (\<lambda>c. role_allows None role c t = Inr True) capabilities)"
    "list_role_privileges None t = Inr (map (\<lambda>r. \<lparr>rp_role = r, rp_export = holds t r bulk_export,
         rp_import = holds t r bulk_import\<rparr>) privilege_roles)" for t
  proof -
    have c: "is_capability bulk_export" "is_capability bulk_import" by (simp_all add: is_capability_def capabilities_def)
    show "capabilities_of None role t = Inr (filter (\<lambda>c. role_allows None role c t = Inr True) capabilities)"
      by (simp add: capabilities_of_def capabilities_def role_allows_holds c)
    show "list_role_privileges None t = Inr (map (\<lambda>r. \<lparr>rp_role = r, rp_export = holds t r bulk_export,
         rp_import = holds t r bulk_import\<rparr>) privilege_roles)"
      by (auto simp: list_role_privileges_def privilege_roles_def holds_def default_role_privileges_def bulk_export_def
            bulk_import_def Let_def split: option.splits)
  qed
  show ?thesis
  proof (cases "find (\<lambda>p. \<not> is_privilege_role (rp_role p)) ps")
    case (Some p)
    then have "p \<in> set ps" "\<not> is_privilege_role (rp_role p)" by (auto simp: find_Some_iff)
    then show ?thesis using Some by (auto simp: set_role_privileges_def see_privileges_fold list_ex_iff)
  next
    case None
    define seen where "seen = (\<lambda>role. case last_for role ps of
          Some p \<Rightarrow> Some (if role = ''owner'' then default_role_privileges ''owner'' else p)
        | None \<Rightarrow> None)"
    let ?roles = "filter (\<lambda>role. seen role \<noteq> None) (stable_sort (<) privilege_roles)"
    let ?t = "fold (\<lambda>role. replace_privileges (the (seen role))) ?roles tbl"
    have set: "set_role_privileges None ps tbl = (Inr (), ?t)"
      using None by (simp add: set_role_privileges_def see_privileges_fold seen_def Let_def)
    have last: "last_for r ps = Some p \<Longrightarrow> rp_role p = r \<and> is_privilege_role r" for r p
      using None by (auto simp: last_for_def find_Some_iff find_None_iff) (metis nth_mem set_rev length_rev)+
    have roles: "r \<in> set ?roles \<longleftrightarrow> seen r \<noteq> None" for r
      using last by (auto simp: seen_def is_privilege_role_def list_ex_iff split: option.splits)
    have role: "r \<in> set ?roles \<Longrightarrow> rp_role (the (seen r)) = r" for r
      using last roles by (auto simp: seen_def default_role_privileges_def split: option.splits)
    have "map_of ?t role = (if seen role \<noteq> None then Some (rp_export (the (seen role)), rp_import (the (seen role)))
        else map_of tbl role)"
      using map_of_replace_all [of ?roles "\<lambda>r. the (seen r)" tbl role] role roles by auto
    then have "is_capability c \<Longrightarrow> holds ?t role c \<longleftrightarrow> (if role = ''owner'' then True
        else case last_for role ps of Some p \<Rightarrow> privileges_allow p c | None \<Rightarrow> holds tbl role c)"
      by (auto simp: holds_def seen_def privileges_allow_def is_capability_def capabilities_def bulk_export_def
            bulk_import_def split: option.splits)
    then show ?thesis
      using lists by (auto simp: set role_allows_holds) (auto simp: role_allows_def)
  qed
qed


end
