(* ===== verification/Auth_Session.thy ===== *)
theory Auth_Session
  imports Go_Prelude "HOL-Library.AList" Go_Encoding
begin

text \<open>
  \<open>server/internal/auth/session.go\<close>: the in-memory registry of sessions. The map from token digests to
  sessions is an association list with distinct keys, whose order stands for the (arbitrary) order
  in which Go iterates over the map. The digest of a token (\<open>sha256\<close>), the random bytes of a new one
  and the clock are arguments. Moments and durations are integers (nanoseconds); 0 is the zero time.

  The mutex makes every operation atomic, so a concurrent execution is a sequence of operations.
\<close>

section \<open>Sessions\<close>

record session =
  s_user_id :: string
  s_username :: string
  s_role :: string
  s_database :: string
  s_super_owner :: bool
  s_created :: int
  s_last_seen :: int
  s_expires :: int
  s_client_ip :: string
  s_web_container :: string
  s_user_agent :: string
  s_requests :: int
  s_stamp :: string

definition role_owner :: string where "role_owner = ''owner''"
definition role_admin :: string where "role_admin = ''admin''"
definition role_user :: string where "role_user = ''user''"

definition session_is_owner :: "session \<Rightarrow> bool" where
  "session_is_owner s \<longleftrightarrow> s_role s = role_owner"

definition session_is_admin :: "session \<Rightarrow> bool" where
  "session_is_admin s \<longleftrightarrow> s_role s = role_owner \<or> s_role s = role_admin"

record session_store =
  st_sessions :: "(string \<times> session) list"
  st_ttl :: int

definition default_session_ttl :: int where
  "default_session_ttl = 12 * 3600 * 10 ^ 9"

definition new_store :: "int \<Rightarrow> session_store" where
  "new_store ttl = \<lparr>st_sessions = [], st_ttl = (if ttl \<le> 0 then default_session_ttl else ttl)\<rparr>"

section \<open>The operations\<close>

definition prune_locked :: "int \<Rightarrow> session_store \<Rightarrow> session_store" where
  "prune_locked now st =
     st\<lparr>st_sessions := filter (\<lambda>(k, s). now < s_expires s) (st_sessions st)\<rparr>"

text \<open>\<open>Create\<close>; \<open>raw\<close> is what \<open>rand.Read\<close> filled in, \<open>None\<close> when it failed.\<close>

definition create_session :: "(string \<Rightarrow> string) \<Rightarrow> int \<Rightarrow> string option \<Rightarrow> string \<Rightarrow> string \<Rightarrow> string
    \<Rightarrow> string \<Rightarrow> string \<Rightarrow> bool \<Rightarrow> session_store \<Rightarrow> (string \<times> session) option \<times> session_store" where
  "create_session dg now raw user_id username role database stamp super st =
     (case raw of
        None \<Rightarrow> (None, st)
      | Some bytes \<Rightarrow>
          (let token = hex_encode bytes;
               st = prune_locked now st;
               sess = \<lparr>s_user_id = user_id, s_username = username, s_role = role, s_database = database,
                 s_super_owner = super, s_created = now, s_last_seen = now, s_expires = now + st_ttl st,
                 s_client_ip = [], s_web_container = [], s_user_agent = [], s_requests = 1,
                 s_stamp = stamp\<rparr>
           in (Some (token, sess), st\<lparr>st_sessions := AList.update (dg token) sess (st_sessions st)\<rparr>)))"

definition touch_session :: "int \<Rightarrow> string \<Rightarrow> string \<Rightarrow> string \<Rightarrow> session \<Rightarrow> session" where
  "touch_session now ip container agent s =
     s\<lparr>s_last_seen := now, s_requests := s_requests s + 1,
       s_client_ip := (if ip \<noteq> [] then ip else s_client_ip s),
       s_web_container := (if container \<noteq> [] then container else s_web_container s),
       s_user_agent := (if agent \<noteq> [] then agent else s_user_agent s)\<rparr>"

text \<open>A field of the session under a key is assigned through the pointer the map holds.\<close>

definition change_session :: "string \<Rightarrow> (session \<Rightarrow> session) \<Rightarrow> session_store \<Rightarrow> session_store" where
  "change_session key f st = st\<lparr>st_sessions := AList.map_entry key f (st_sessions st)\<rparr>"

definition touch_meta :: "(string \<Rightarrow> string) \<Rightarrow> int \<Rightarrow> string \<Rightarrow> string \<Rightarrow> string \<Rightarrow> string
    \<Rightarrow> session_store \<Rightarrow> session_store" where
  "touch_meta dg now token ip container agent st =
     (if token = [] then st else change_session (dg token) (touch_session now ip container agent) st)"

definition delete_key :: "string \<Rightarrow> session_store \<Rightarrow> session_store" where
  "delete_key key st = st\<lparr>st_sessions := AList.delete key (st_sessions st)\<rparr>"

definition get_session :: "(string \<Rightarrow> string) \<Rightarrow> int \<Rightarrow> string \<Rightarrow> session_store
    \<Rightarrow> session option \<times> session_store" where
  "get_session dg now token st =
     (if token = [] then (None, st)
      else case map_of (st_sessions st) (dg token) of
             None \<Rightarrow> (None, st)
           | Some s \<Rightarrow>
               if \<not> now < s_expires s then (None, delete_key (dg token) st)
               else (let s = s\<lparr>s_last_seen := now, s_expires := now + st_ttl st\<rparr>
                     in (Some s, change_session (dg token) (\<lambda>_. s) st)))"

definition restamp :: "(string \<Rightarrow> string) \<Rightarrow> string \<Rightarrow> string \<Rightarrow> session_store \<Rightarrow> session_store" where
  "restamp dg token stamp st =
     (if token = [] then st else change_session (dg token) (\<lambda>s. s\<lparr>s_stamp := stamp\<rparr>) st)"

definition revoke :: "(string \<Rightarrow> string) \<Rightarrow> string \<Rightarrow> session_store \<Rightarrow> session_store" where
  "revoke dg token st = (if token = [] then st else delete_key (dg token) st)"

definition keep_digest :: "(string \<Rightarrow> string) \<Rightarrow> string \<Rightarrow> string" where
  "keep_digest dg token = (if token = [] then [] else dg token)"

definition revoke_user :: "(string \<Rightarrow> string) \<Rightarrow> string \<Rightarrow> string \<Rightarrow> string \<Rightarrow> session_store \<Rightarrow> session_store"
  where
  "revoke_user dg database user_id except_token st =
     st\<lparr>st_sessions := filter (\<lambda>(k, s). \<not> (k \<noteq> keep_digest dg except_token \<and>
         s_database s = database \<and> s_user_id s = user_id)) (st_sessions st)\<rparr>"

definition revoke_database :: "string \<Rightarrow> session_store \<Rightarrow> session_store" where
  "revoke_database database st =
     st\<lparr>st_sessions := filter (\<lambda>(k, s). s_database s \<noteq> database) (st_sessions st)\<rparr>"

definition id_matches :: "string \<Rightarrow> string \<Rightarrow> bool" where
  "id_matches sid k \<longleftrightarrow> k = sid \<or> 8 \<le> length sid \<and> length sid \<le> length k \<and> take (length sid) k = sid"

definition revoke_by_id :: "string \<Rightarrow> session_store \<Rightarrow> bool \<times> session_store" where
  "revoke_by_id sid st =
     (if sid = [] then (False, st)
      else case find (\<lambda>(k, s). id_matches sid k) (st_sessions st) of
             None \<Rightarrow> (False, st)
           | Some (k, s) \<Rightarrow> (True, delete_key k st))"

record session_info =
  si_session_id :: string
  si_session :: session
  si_created_at :: string
  si_last_seen_at :: string
  si_expires_at :: string
  si_is_current :: bool

text \<open>
  \<open>ListSessions\<close>; \<open>fmt\<close> renders a moment in UTC. \<open>si_session\<close> stands for the fields copied from the
  session (the stamp is not among the JSON fields).
\<close>

definition list_sessions :: "(string \<Rightarrow> string) \<Rightarrow> (int \<Rightarrow> string) \<Rightarrow> int \<Rightarrow> string \<Rightarrow> session_store
    \<Rightarrow> session_info list \<times> session_store" where
  "list_sessions dg fmt now current st =
     (let st = prune_locked now st
      in (map (\<lambda>(k, s).
            \<lparr>si_session_id = take 16 k, si_session = s\<lparr>s_stamp := []\<rparr>, si_created_at = fmt (s_created s),
             si_last_seen_at = fmt (if s_last_seen s = 0 then s_created s else s_last_seen s),
             si_expires_at = fmt (s_expires s), si_is_current = (k = keep_digest dg current)\<rparr>)
          (st_sessions st), st))"

definition store_len :: "int \<Rightarrow> session_store \<Rightarrow> nat \<times> session_store" where
  "store_len now st = (let st = prune_locked now st in (length (st_sessions st), st))"

section \<open>Sequences of operations\<close>

datatype session_op =
    OpCreate int "string option" string string string string string bool
  | OpTouch int string string string string
  | OpGet int string
  | OpRestamp string string
  | OpRevoke string
  | OpRevokeUser string string string
  | OpRevokeDatabase string
  | OpRevokeByID string
  | OpList int string
  | OpLen int

fun exec_op :: "(string \<Rightarrow> string) \<Rightarrow> session_op \<Rightarrow> session_store \<Rightarrow> session_store" where
  "exec_op dg (OpCreate now raw u n r d stamp su) st = snd (create_session dg now raw u n r d stamp su st)"
| "exec_op dg (OpTouch now t ip c a) st = touch_meta dg now t ip c a st"
| "exec_op dg (OpGet now t) st = snd (get_session dg now t st)"
| "exec_op dg (OpRestamp t stamp) st = restamp dg t stamp st"
| "exec_op dg (OpRevoke t) st = revoke dg t st"
| "exec_op dg (OpRevokeUser d u t) st = revoke_user dg d u t st"
| "exec_op dg (OpRevokeDatabase d) st = revoke_database d st"
| "exec_op dg (OpRevokeByID i) st = snd (revoke_by_id i st)"
| "exec_op dg (OpList now t) st = snd (list_sessions dg (\<lambda>_. []) now t st)"
| "exec_op dg (OpLen now) st = snd (store_len now st)"

definition exec_ops :: "(string \<Rightarrow> string) \<Rightarrow> session_op list \<Rightarrow> session_store \<Rightarrow> session_store" where
  "exec_ops dg = fold (exec_op dg)"

section \<open>Facts\<close>

lemma map_of_change_session:
  "map_of (st_sessions (change_session k f st)) j =
     (if j = k then map_option f (map_of (st_sessions st) j) else map_of (st_sessions st) j)"
  by (simp add: change_session_def map_of_map_entry split: option.splits)

lemma map_of_delete_key:
  "map_of (st_sessions (delete_key k st)) j = (if j = k then None else map_of (st_sessions st) j)"
  by (simp add: delete_key_def AList.delete_conv')

text \<open>
  The sessions an operation can leave: the ones of the store, with other times, metadata or stamp,
  and the one it creates.
\<close>

lemma set_map_entry:
  "(j, s) \<in> set (AList.map_entry k f xs) \<Longrightarrow> \<exists>t. (j, t) \<in> set xs \<and> (s = t \<or> j = k \<and> s = f t)"
  by (induction xs) (auto split: if_splits)

lemma set_update:
  "(j, s) \<in> set (AList.update k v xs) \<Longrightarrow> (j, s) \<in> set xs \<or> j = k \<and> s = v"
  by (induction xs) (auto split: if_splits)

definition owned_by :: "string \<Rightarrow> string \<Rightarrow> session \<Rightarrow> bool" where
  "owned_by database user_id s \<longleftrightarrow> s_database s = database \<and> s_user_id s = user_id"

fun creates_for :: "string \<Rightarrow> string \<Rightarrow> session_op \<Rightarrow> bool" where
  "creates_for database user_id (OpCreate _ _ u _ _ d _ _) = (d = database \<and> u = user_id)"
| "creates_for database user_id _ = False"

lemma exec_op_owned:
  assumes "(k, s) \<in> set (st_sessions (exec_op dg op st))" and "owned_by d u s" and "\<not> creates_for d u op"
  shows "\<exists>t. (k, t) \<in> set (st_sessions st) \<and> owned_by d u t"
proof (cases op)
  case (OpCreate now raw us n r db stamp su)
  with assms show ?thesis
    by (auto simp: create_session_def prune_locked_def Let_def owned_by_def split: option.splits dest!: set_update)
next
  case (OpTouch now t ip c a)
  with assms show ?thesis
    by (auto simp: touch_meta_def change_session_def owned_by_def touch_session_def split: if_splits dest!: set_map_entry)
next
  case (OpGet now t)
  with assms show ?thesis
    by (auto simp: get_session_def change_session_def delete_key_def owned_by_def Let_def AList.delete_eq
          split: if_splits option.splits dest!: set_map_entry map_of_SomeD)
next
  case (OpRestamp t stamp)
  with assms show ?thesis
    by (auto simp: restamp_def change_session_def owned_by_def split: if_splits dest!: set_map_entry)
qed (use assms in \<open>auto simp: revoke_def delete_key_def AList.delete_eq revoke_user_def revoke_database_def
       revoke_by_id_def list_sessions_def store_len_def prune_locked_def Let_def
     split: if_splits option.splits prod.splits\<close>)

lemma exec_ops_owned:
  "(k, s) \<in> set (st_sessions (exec_ops dg ops st)) \<Longrightarrow> owned_by d u s \<Longrightarrow>
   list_all (\<lambda>op. \<not> creates_for d u op) ops \<Longrightarrow>
   \<exists>t. (k, t) \<in> set (st_sessions st) \<and> owned_by d u t"
proof (induction ops arbitrary: st)
  case (Cons op ops)
  from Cons.prems(1) have "(k, s) \<in> set (st_sessions (exec_ops dg ops (exec_op dg op st)))"
    by (simp add: exec_ops_def)
  then obtain t where "(k, t) \<in> set (st_sessions (exec_op dg op st))" "owned_by d u t"
    using Cons by auto
  then show ?case using exec_op_owned Cons.prems(3) by auto
qed (auto simp: exec_ops_def)

lemma get_session_from:
  "fst (get_session dg now token st) = Some s \<Longrightarrow>
   \<exists>t. (dg token, t) \<in> set (st_sessions st) \<and> now < s_expires t \<and>
     s = t\<lparr>s_last_seen := now, s_expires := now + st_ttl st\<rparr>"
  by (auto simp: get_session_def Let_def split: if_splits option.splits dest: map_of_SomeD)

section \<open>Expiry\<close>

text \<open>The sessions under one digest expire no later than \<open>e\<close>.\<close>

definition expires_by :: "string \<Rightarrow> int \<Rightarrow> session_store \<Rightarrow> bool" where
  "expires_by k e st \<longleftrightarrow> (\<forall>s. (k, s) \<in> set (st_sessions st) \<longrightarrow> s_expires s \<le> e)"

fun renews :: "(string \<Rightarrow> string) \<Rightarrow> string \<Rightarrow> session_op \<Rightarrow> bool" where
  "renews dg k (OpCreate _ raw _ _ _ _ _ _) = (\<exists>bytes. raw = Some bytes \<and> dg (hex_encode bytes) = k)"
| "renews dg k (OpGet _ t) = (dg t = k)"
| "renews dg k _ = False"

lemma exec_op_expires:
  assumes "expires_by k e st" and "\<not> renews dg k op"
  shows "expires_by k e (exec_op dg op st)"
proof (cases op)
  case (OpCreate now raw us n r db stamp su)
  with assms show ?thesis
    by (auto simp: expires_by_def create_session_def prune_locked_def Let_def split: option.splits dest!: set_update)
next
  case (OpTouch now t ip c a)
  with assms show ?thesis
    by (auto simp: expires_by_def touch_meta_def change_session_def touch_session_def split: if_splits dest!: set_map_entry)
next
  case (OpGet now t)
  with assms show ?thesis
    by (auto simp: expires_by_def get_session_def change_session_def delete_key_def Let_def AList.delete_eq
          split: if_splits option.splits dest!: set_map_entry)
next
  case (OpRestamp t stamp)
  with assms show ?thesis
    by (auto simp: expires_by_def restamp_def change_session_def split: if_splits dest!: set_map_entry)
qed (use assms in \<open>auto simp: expires_by_def revoke_def delete_key_def AList.delete_eq revoke_user_def
       revoke_database_def revoke_by_id_def list_sessions_def store_len_def prune_locked_def Let_def
     split: if_splits option.splits prod.splits\<close>)

lemma exec_ops_expires:
  "expires_by k e st \<Longrightarrow> list_all (\<lambda>op. \<not> renews dg k op) ops \<Longrightarrow> expires_by k e (exec_ops dg ops st)"
  by (induction ops arbitrary: st) (auto simp: exec_ops_def exec_op_expires)

section \<open>What the middleware relies on\<close>

text \<open>
  The registry as the request middleware sees it: \<open>known\<close> tells whether a token is registered. Looking
  a token up or recording metadata never makes a token known, and revoking one makes it unknown.
  \<open>same\<close> is what a lookup may not change about a session.
\<close>

locale session_registry =
  fixes known :: "'st \<Rightarrow> string \<Rightarrow> bool"
    and get :: "int \<Rightarrow> string \<Rightarrow> 'st \<Rightarrow> session option \<times> 'st"
    and touch :: "int \<Rightarrow> string \<Rightarrow> string \<Rightarrow> string \<Rightarrow> string \<Rightarrow> 'st \<Rightarrow> 'st"
    and drop_token :: "string \<Rightarrow> 'st \<Rightarrow> 'st"
  assumes get_known: "fst (get now t st) = Some s \<Longrightarrow> known st t"
    and get_keeps: "known (snd (get now t st)) u \<Longrightarrow> known st u"
    and touch_keeps: "known (touch now t ip c a st) u \<longleftrightarrow> known st u"
    and drop_keeps: "known (drop_token t st) u \<Longrightarrow> known st u"
    and drop_drops: "t \<noteq> [] \<Longrightarrow> \<not> known (drop_token t st) t"

definition known_token :: "(string \<Rightarrow> string) \<Rightarrow> session_store \<Rightarrow> string \<Rightarrow> bool" where
  "known_token dg st t \<longleftrightarrow> t \<noteq> [] \<and> map_of (st_sessions st) (dg t) \<noteq> None"

interpretation reg: session_registry "known_token dg" "get_session dg" "touch_meta dg" "revoke dg" for dg
  by unfold_locales
     (auto simp: known_token_def get_session_def touch_meta_def revoke_def map_of_change_session
        map_of_delete_key Let_def split: if_splits option.splits)

section \<open>Properties\<close>

text \<open>
  C9. After \<open>RevokeUser\<close> no token but the kept one stands for a session of that user in that
  database, whatever happens in the store afterwards, until a session is created for the user
  again: not by touching, restamping, renewing or listing sessions, nor by any other revocation.
\<close>

theorem revoked_user_stays_out:
  assumes "list_all (\<lambda>op. \<not> creates_for database user_id op) ops"
    and "fst (get_session dg now token (exec_ops dg ops (revoke_user dg database user_id except_token st))) = Some s"
    and "dg token \<noteq> keep_digest dg except_token"
  shows "\<not> owned_by database user_id s"
proof
  assume own: "owned_by database user_id s"
  from get_session_from [OF assms(2)] obtain t where
    t: "(dg token, t) \<in> set (st_sessions (exec_ops dg ops (revoke_user dg database user_id except_token st)))"
    "s = t\<lparr>s_last_seen := now, s_expires := now + st_ttl (exec_ops dg ops (revoke_user dg database user_id except_token st))\<rparr>"
    by blast
  then have "owned_by database user_id t" using own by (simp add: owned_by_def)
  from exec_ops_owned [OF t(1) this assms(1)] show False
    using assms(3) by (auto simp: revoke_user_def owned_by_def)
qed

text \<open>
  A session lives for its idle time after it was last used and not a moment longer: unless its
  token is used or given out again, a request at or after that time finds no session, whatever
  else happens in between. Recording the origin of a request does not prolong it.
\<close>

theorem idle_session_expires:
  assumes "fst (get_session dg now token st) = Some s" and "distinct (map fst (st_sessions st))"
    and "list_all (\<lambda>op. \<not> renews dg (dg token) op) ops" and "now + st_ttl st \<le> later"
  shows "s_expires s = now + st_ttl st \<and>
    fst (get_session dg later token (exec_ops dg ops (snd (get_session dg now token st)))) = None"
proof
  from assms(1) obtain t where t: "map_of (st_sessions st) (dg token) = Some t" "now < s_expires t" "token \<noteq> []"
    and s: "s = t\<lparr>s_last_seen := now, s_expires := now + st_ttl st\<rparr>"
    by (auto simp: get_session_def Let_def split: if_splits option.splits)
  then show "s_expires s = now + st_ttl st" by simp
  have g: "snd (get_session dg now token st) = change_session (dg token) (\<lambda>_. s) st"
    using t s by (simp add: get_session_def Let_def)
  have "distinct (map fst (AList.map_entry (dg token) (\<lambda>_. s) (st_sessions st)))"
    using assms(2) by (rule distinct_map_entry)
  then have one: "(dg token, u) \<in> set (st_sessions (change_session (dg token) (\<lambda>_. s) st)) \<Longrightarrow> u = s" for u
    using map_of_change_session [of "dg token" "\<lambda>_. s" st "dg token"] t(1)
    by (auto simp: change_session_def dest: map_of_is_SomeI)
  have "expires_by (dg token) (now + st_ttl st) (snd (get_session dg now token st))"
    unfolding expires_by_def g using one s by fastforce
  then have e: "expires_by (dg token) (now + st_ttl st) (exec_ops dg ops (snd (get_session dg now token st)))"
    using assms(3) by (rule exec_ops_expires)
  show "fst (get_session dg later token (exec_ops dg ops (snd (get_session dg now token st)))) = None"
  proof (rule ccontr)
    assume "\<not> ?thesis"
    then obtain x where "fst (get_session dg later token (exec_ops dg ops (snd (get_session dg now token st)))) = Some x"
      by blast
    from get_session_from [OF this] e assms(4) show False by (fastforce simp: expires_by_def)
  qed
qed


section \<open>Distinct keys\<close>

lemma exec_op_distinct:
  "distinct (map fst (st_sessions st)) \<Longrightarrow> distinct (map fst (st_sessions (exec_op dg op st)))"
  by (cases op)
     (auto simp: create_session_def touch_meta_def change_session_def get_session_def delete_key_def
        restamp_def revoke_def revoke_user_def revoke_database_def revoke_by_id_def list_sessions_def
        store_len_def prune_locked_def Let_def distinct_map_filter
        intro: distinct_update distinct_map_entry distinct_delete
        split: option.splits prod.splits)

lemma exec_ops_distinct:
  "distinct (map fst (st_sessions st)) \<Longrightarrow> distinct (map fst (st_sessions (exec_ops dg ops st)))"
  by (induction ops arbitrary: st) (auto simp: exec_ops_def exec_op_distinct)

definition demo_session :: session where
  "demo_session = \<lparr>s_user_id = ''u'', s_username = ''ann'', s_role = ''user'', s_database = ''d'',
     s_super_owner = False, s_created = 1, s_last_seen = 1, s_expires = 11, s_client_ip = [],
     s_web_container = [], s_user_agent = [], s_requests = 1, s_stamp = ''x''\<rparr>"

definition demo_store :: session_store where
  "demo_store = \<lparr>st_sessions = [(''t'', demo_session), (''k'', demo_session\<lparr>s_user_id := ''v''\<rparr>)], st_ttl = 10\<rparr>"

theorem revoked_user_stays_out_witness:
  "\<not> owned_by ''d'' ''u'' (demo_session\<lparr>s_user_id := ''v'', s_last_seen := 5, s_expires := 15\<rparr>)"
proof -
  have g: "fst (get_session id 5 ''k'' (exec_ops id [OpTouch 3 ''t'' [] [] []] (revoke_user id ''d'' ''u'' ''z'' demo_store)))
      = Some (demo_session\<lparr>s_user_id := ''v'', s_last_seen := 5, s_expires := 15\<rparr>)"
    by (simp add: demo_store_def demo_session_def revoke_user_def keep_digest_def exec_ops_def touch_meta_def
        change_session_def get_session_def Let_def)
  show ?thesis
    by (rule revoked_user_stays_out [OF _ g]) (simp_all add: keep_digest_def)
qed

theorem idle_session_expires_witness:
  "fst (get_session id 15 ''t'' (exec_ops id [OpTouch 9 ''t'' [] [] []] (snd (get_session id 5 ''t'' demo_store)))) = None"
proof -
  have g: "fst (get_session id 5 ''t'' demo_store) = Some (demo_session\<lparr>s_last_seen := 5, s_expires := 15\<rparr>)"
    by (simp add: demo_store_def demo_session_def get_session_def Let_def)
  show ?thesis
    by (rule idle_session_expires [OF g, THEN conjunct2]) (simp_all add: demo_store_def)
qed

end
