(* ===== verification/Client_IP.thy ===== *)
theory Client_IP
  imports Go_Prelude
begin

text \<open>
  \<open>server/internal/clientip/clientip.go\<close>: which address a request is attributed to. The address
  syntax of the package \<open>net\<close> (\<open>ParseIP\<close>, \<open>String\<close>, \<open>ParseCIDR\<close>, \<open>Contains\<close>, \<open>SplitHostPort\<close>) is the
  record \<open>net_pkg\<close>; the theorems hold for every one. A resolver is its list of trusted networks, the
  nil resolver the empty list (the code treats them alike).
\<close>

record ('ip, 'net) net_pkg =
  np_parse_ip :: "string \<Rightarrow> 'ip option"
  np_show_ip :: "'ip \<Rightarrow> string"
  np_parse_cidr :: "string \<Rightarrow> 'net option"
  np_contains :: "'net \<Rightarrow> 'ip \<Rightarrow> bool"
  np_host_net :: "'ip \<Rightarrow> 'net"
  np_split_host_port :: "string \<Rightarrow> string option"

record request =
  rq_remote_addr :: string
  rq_xff :: string
  rq_real_ip :: string

section \<open>The trusted networks\<close>

text \<open>\<open>strings.FieldsFunc\<close> for single-byte separators: the maximal runs of other bytes.\<close>

fun fields_by :: "(char \<Rightarrow> bool) \<Rightarrow> string \<Rightarrow> string \<Rightarrow> string list" where
  "fields_by sep cur [] = (if cur = [] then [] else [cur])"
| "fields_by sep cur (c # s) =
     (if sep c then (if cur = [] then fields_by sep [] s else cur # fields_by sep [] s)
      else fields_by sep (cur @ [c]) s)"

definition proxy_separator :: "char \<Rightarrow> bool" where
  "proxy_separator c \<longleftrightarrow> c \<in> {CHR '','', CHR '' '', CHR 0x09, CHR 0x0A, CHR 0x0D}"

text \<open>The networks that parsed and the entries that did not.\<close>

definition parse_proxy :: "('ip, 'net) net_pkg \<Rightarrow> string \<Rightarrow> 'net option" where
  "parse_proxy np f =
     (if contains f ''/'' then np_parse_cidr np f
      else map_option (np_host_net np) (np_parse_ip np f))"

definition parse_trusted_proxies :: "('ip, 'net) net_pkg \<Rightarrow> string \<Rightarrow> 'net list \<times> string list" where
  "parse_trusted_proxies np spec =
     (let fs = fields_by proxy_separator [] spec
      in (List.map_filter (parse_proxy np) fs, filter (\<lambda>f. parse_proxy np f = None) fs))"

section \<open>The client address\<close>

definition is_trusted :: "('ip, 'net) net_pkg \<Rightarrow> 'net list \<Rightarrow> 'ip \<Rightarrow> bool" where
  "is_trusted np trusted ip \<longleftrightarrow> list_ex (\<lambda>n. np_contains np n ip) trusted"

definition strip_prefix :: "string \<Rightarrow> string \<Rightarrow> string" where
  "strip_prefix p s = (if prefix p s then drop (length p) s else s)"

definition strip_suffix :: "string \<Rightarrow> string \<Rightarrow> string" where
  "strip_suffix p s = (if suffix p s then take (length s - length p) s else s)"

definition host_only :: "('ip, 'net) net_pkg \<Rightarrow> string \<Rightarrow> string" where
  "host_only np addr =
     (let addr = trim_space addr
      in if addr = [] then []
         else case np_split_host_port np addr of
                Some host \<Rightarrow> host
              | None \<Rightarrow> strip_prefix ''['' (strip_suffix '']'' addr))"

text \<open>The parseable entries of X-Forwarded-For, left to right.\<close>

definition hops :: "('ip, 'net) net_pkg \<Rightarrow> string \<Rightarrow> 'ip list" where
  "hops np xff = List.map_filter (\<lambda>p. np_parse_ip np (trim_space p)) (split_char (CHR '','') xff)"

text \<open>
  \<open>ClientIP\<close>. The first loop walks the entries from the right and returns the first that parses and
  is not trusted; the second returns the left-most that parses.
\<close>

definition client_ip :: "('ip, 'net) net_pkg \<Rightarrow> 'net list \<Rightarrow> request \<Rightarrow> string" where
  "client_ip np trusted rq =
     (let host = host_only np (rq_remote_addr rq)
      in if trusted = [] then host
         else case np_parse_ip np host of
           None \<Rightarrow> host
         | Some peer \<Rightarrow>
             if \<not> is_trusted np trusted peer then host
             else let real = (let r = trim_space (rq_real_ip rq)
                              in if r = [] then host
                                 else case np_parse_ip np r of Some ip \<Rightarrow> np_show_ip np ip | None \<Rightarrow> host)
                  in if rq_xff rq \<noteq> []
                     then (case find (\<lambda>ip. \<not> is_trusted np trusted ip) (rev (hops np (rq_xff rq))) of
                             Some ip \<Rightarrow> np_show_ip np ip
                           | None \<Rightarrow> (case hops np (rq_xff rq) of
                                        ip # _ \<Rightarrow> np_show_ip np ip
                                      | [] \<Rightarrow> real))
                     else real)"

section \<open>Properties\<close>

text \<open>
  The forwarding headers count only when the direct peer is a trusted proxy: any other request
  is attributed to its peer whatever its headers say, so two such requests from one peer are
  attributed alike.
\<close>

theorem untrusted_headers_ignored:
  assumes "case np_parse_ip np (host_only np (rq_remote_addr rq)) of
      None \<Rightarrow> True | Some peer \<Rightarrow> \<not> is_trusted np trusted peer"
  shows "client_ip np trusted rq = host_only np (rq_remote_addr rq) \<and>
    client_ip np trusted (rq\<lparr>rq_xff := xff, rq_real_ip := real\<rparr>) = client_ip np trusted rq"
  using assms by (auto simp: client_ip_def Let_def split: option.splits)

lemma split_char_append:
  "split_char c (s @ c # t) = split_char c s @ split_char c t"
proof (induction s)
  case (Cons d s)
  then show ?case by (cases "split_char c s") (auto split: list.splits)
qed simp

lemma hops_append: "hops np (s @ CHR '','' # t) = hops np s @ hops np t"
  by (simp add: hops_def split_char_append map_filter_def)

text \<open>
  C37. Behind a trusted proxy, a client cannot choose the address it is attributed to by sending its own
  X-Forwarded-For: whatever entries stand before it, the address attributed is the right-most entry
  that is not a trusted proxy, as long as the proxies append the address they saw.
\<close>

theorem forged_hops_ignored:
  assumes "np_parse_ip np (host_only np (rq_remote_addr rq)) = Some peer"
    and "is_trusted np trusted peer"
    and "appended \<noteq> []" and "hops np appended = client # proxies"
    and "\<not> is_trusted np trusted client" and "\<forall>p \<in> set proxies. is_trusted np trusted p"
  shows "client_ip np trusted (rq\<lparr>rq_xff := forged @ '','' @ appended\<rparr>) = np_show_ip np client \<and>
    client_ip np trusted (rq\<lparr>rq_xff := appended\<rparr>) = np_show_ip np client"
proof -
  have f: "find (\<lambda>ip. \<not> is_trusted np trusted ip) (rev (hs @ client # proxies)) = Some client" for hs
  proof -
    have "find (\<lambda>ip. \<not> is_trusted np trusted ip) (rev proxies) = None"
      using assms(6) by (simp add: find_None_iff)
    moreover have "find P (xs @ ys) = (case find P xs of None \<Rightarrow> find P ys | Some x \<Rightarrow> Some x)"
      for P :: "'a \<Rightarrow> bool" and xs ys by (induction xs) auto
    ultimately show ?thesis using assms(5) by simp
  qed
  have "trusted \<noteq> []" using assms(2) by (auto simp: is_trusted_def)
  then show ?thesis
    using assms f [of "[]"] f [of "hops np forged"]
    by (simp add: client_ip_def Let_def hops_append)
qed


text \<open>An instance of the address syntax: every non-empty text is an address, a network is one host.\<close>

definition demo_net :: "(string, string) net_pkg" where
  "demo_net = \<lparr>np_parse_ip = (\<lambda>s. if s = [] then None else Some s), np_show_ip = id, np_parse_cidr = Some,
     np_contains = (=), np_host_net = id, np_split_host_port = (\<lambda>_. None)\<rparr>"

definition demo_request :: request where
  "demo_request = \<lparr>rq_remote_addr = ''p'', rq_xff = ''c'', rq_real_ip = ''r''\<rparr>"

lemma demo_host: "host_only demo_net ''p'' = ''p''"
  by (simp add: host_only_def demo_net_def strip_prefix_def strip_suffix_def visible_def suffix_def Let_def)

theorem untrusted_headers_ignored_witness:
  "client_ip demo_net [''q''] demo_request = ''p''"
  using untrusted_headers_ignored [where np = demo_net and rq = demo_request and trusted = "[''q'']"] demo_host
  by (simp add: demo_request_def demo_net_def is_trusted_def)

theorem forged_hops_ignored_witness:
  "client_ip demo_net [''p''] (demo_request\<lparr>rq_xff := ''x'' @ '','' @ ''c,p''\<rparr>) = ''c''"
proof -
  have "hops demo_net ''c,p'' = [''c'', ''p'']"
    by (simp add: hops_def demo_net_def map_filter_simps visible_def)
  with forged_hops_ignored [where np = demo_net and rq = demo_request and peer = "''p''" and trusted = "[''p'']"
      and appended = "''c,p''" and client = "''c''" and proxies = "[''p'']" and forged = "''x''"] demo_host
  show ?thesis by (simp add: demo_request_def demo_net_def is_trusted_def)
qed

end
