(* ===== verification/Api_Auth.thy ===== *)
theory Api_Auth
  imports Auth_Session Client_IP
begin

text \<open>
  \<open>server/internal/api/auth.go\<close>: the middleware that turns a bearer token into a session and binds
  the request to the session's database, and the role guards behind it. The registry of sessions is
  used through the interface \<open>session_registry\<close>. What the request's database answers (whether it is
  reachable, the account's current stamp) and \<open>strings.EqualFold\<close> on arbitrary names are the record
  \<open>auth_env\<close>.
\<close>

section \<open>Requests\<close>

record http_request =
  hr_authorization :: string
  hr_query_database :: string
  hr_header_database :: string
  hr_web_container :: string
  hr_user_agent :: string
  hr_net :: request

datatype account_stamp = StampIs string | AccountNotFound | StampUnavailable

record ('ip, 'net) auth_env =
  ae_driver :: "string \<Rightarrow> bool"
  ae_stamp :: "string \<Rightarrow> string \<Rightarrow> account_stamp"
  ae_equal_fold :: "string \<Rightarrow> string \<Rightarrow> bool"
  ae_lower :: "string \<Rightarrow> string"
  ae_net :: "('ip, 'net) net_pkg"
  ae_trusted :: "'net list"

definition bearer_token :: "http_request \<Rightarrow> string" where
  "bearer_token rq =
     (let header = trim_space (hr_authorization rq); n = length ''bearer ''
      in if length header \<le> n \<or> \<not> equal_fold (take n header) ''bearer '' then []
         else trim_space (drop n header))"

definition requested_database :: "http_request \<Rightarrow> string" where
  "requested_database rq =
     (let name = trim_space (hr_query_database rq)
      in if name \<noteq> [] then name else trim_space (hr_header_database rq))"

definition client_session_meta :: "('ip, 'net) auth_env \<Rightarrow> http_request \<Rightarrow> string \<times> string \<times> string" where
  "client_session_meta E rq =
     (client_ip (ae_net E) (ae_trusted E) (hr_net rq),
      (let wc = trim_space (hr_web_container rq)
       in if wc \<noteq> [] then wc
          else if contains (ae_lower E (hr_user_agent rq)) ''dart'' then ''desktop-native'' else ''direct-api''),
      trim_space (hr_user_agent rq))"

section \<open>The middleware\<close>

datatype attach_result = NoSession | Unavailable string | Attached session string

text \<open>\<open>attach\<close>, over the three operations of the registry it calls.\<close>

definition attach :: "(int \<Rightarrow> string \<Rightarrow> 'st \<Rightarrow> session option \<times> 'st)
    \<Rightarrow> (int \<Rightarrow> string \<Rightarrow> string \<Rightarrow> string \<Rightarrow> string \<Rightarrow> 'st \<Rightarrow> 'st) \<Rightarrow> (string \<Rightarrow> 'st \<Rightarrow> 'st)
    \<Rightarrow> ('ip, 'net) auth_env \<Rightarrow> int \<Rightarrow> http_request \<Rightarrow> 'st \<Rightarrow> attach_result \<times> 'st" where
  "attach get touch drop_token E now rq st =
     (let token = bearer_token rq
      in if token = [] then (NoSession, st)
         else case get now token st of
           (None, st) \<Rightarrow> (NoSession, st)
         | (Some sess, st) \<Rightarrow>
             if \<not> ae_driver E (s_database sess)
             then (Unavailable ''the database bound to this session is not reachable'', st)
             else case ae_stamp E (s_database sess) (s_user_id sess) of
               StampUnavailable \<Rightarrow> (Unavailable ''the account of this session could not be checked'', st)
             | AccountNotFound \<Rightarrow> (NoSession, drop_token token st)
             | StampIs stamp \<Rightarrow>
                 if stamp \<noteq> s_stamp sess then (NoSession, drop_token token st)
                 else (case client_session_meta E rq of
                         (ip, wc, ua) \<Rightarrow> (Attached sess token, touch now token ip wc ua st)))"

datatype auth_response =
    Unauthorized
  | ForbiddenDatabase
  | ServiceUnavailable string
  | Served session string

definition authenticate :: "(int \<Rightarrow> string \<Rightarrow> 'st \<Rightarrow> session option \<times> 'st)
    \<Rightarrow> (int \<Rightarrow> string \<Rightarrow> string \<Rightarrow> string \<Rightarrow> string \<Rightarrow> 'st \<Rightarrow> 'st) \<Rightarrow> (string \<Rightarrow> 'st \<Rightarrow> 'st)
    \<Rightarrow> ('ip, 'net) auth_env \<Rightarrow> int \<Rightarrow> http_request \<Rightarrow> 'st \<Rightarrow> auth_response \<times> 'st" where
  "authenticate get touch drop_token E now rq st =
     (case attach get touch drop_token E now rq st of
        (Unavailable msg, st) \<Rightarrow> (ServiceUnavailable msg, st)
      | (NoSession, st) \<Rightarrow> (Unauthorized, st)
      | (Attached sess token, st) \<Rightarrow>
          (let requested = requested_database rq
           in if requested \<noteq> [] \<and> \<not> ae_equal_fold E requested (s_database sess)
              then (ForbiddenDatabase, st) else (Served sess token, st)))"

text \<open>\<open>Optional\<close>: a request without a session goes through anonymously; a left value is its refusal.\<close>

definition optional_session :: "(int \<Rightarrow> string \<Rightarrow> 'st \<Rightarrow> session option \<times> 'st)
    \<Rightarrow> (int \<Rightarrow> string \<Rightarrow> string \<Rightarrow> string \<Rightarrow> string \<Rightarrow> 'st \<Rightarrow> 'st) \<Rightarrow> (string \<Rightarrow> 'st \<Rightarrow> 'st)
    \<Rightarrow> ('ip, 'net) auth_env \<Rightarrow> int \<Rightarrow> http_request \<Rightarrow> 'st \<Rightarrow> (string + (session \<times> string) option) \<times> 'st" where
  "optional_session get touch drop_token E now rq st =
     (case attach get touch drop_token E now rq st of
        (Unavailable msg, st) \<Rightarrow> (Inl msg, st)
      | (NoSession, st) \<Rightarrow> (Inr None, st)
      | (Attached sess token, st) \<Rightarrow> (Inr (Some (sess, token)), st))"

section \<open>The guards behind it\<close>

datatype guard_response = GuardUnauthorized | GuardForbidden | GuardPasses

definition require_session :: "session option \<Rightarrow> bool \<Rightarrow> guard_response" where
  "require_session sess has_driver =
     (if sess = None \<or> \<not> has_driver then GuardUnauthorized else GuardPasses)"

definition require_role :: "string list \<Rightarrow> session option \<Rightarrow> guard_response" where
  "require_role roles sess =
     (case sess of
        None \<Rightarrow> GuardUnauthorized
      | Some s \<Rightarrow> if list_ex (\<lambda>r. s_role s = r) roles then GuardPasses else GuardForbidden)"

definition require_admin :: "session option \<Rightarrow> guard_response" where
  "require_admin = require_role [role_owner, role_admin]"

definition require_owner :: "session option \<Rightarrow> guard_response" where
  "require_owner = require_role [role_owner]"

definition require_super_owner :: "session option \<Rightarrow> guard_response" where
  "require_super_owner sess =
     (case sess of Some s \<Rightarrow> if s_super_owner s then GuardPasses else GuardForbidden
      | None \<Rightarrow> GuardForbidden)"

section \<open>Sequences of requests\<close>

text \<open>Each request comes with its own moment and its own answers of the database.\<close>

fun serve_all :: "(('ip, 'net) auth_env \<Rightarrow> int \<Rightarrow> http_request \<Rightarrow> 'st \<Rightarrow> auth_response \<times> 'st)
    \<Rightarrow> (('ip, 'net) auth_env \<times> int \<times> http_request) list \<Rightarrow> 'st \<Rightarrow> auth_response list" where
  "serve_all f [] st = []"
| "serve_all f ((E, now, rq) # rqs) st = (case f E now rq st of (r, st) \<Rightarrow> r # serve_all f rqs st)"

context session_registry
begin

lemma attach_keeps: "known (snd (attach get touch drop_token E now rq st)) u \<Longrightarrow> known st u"
proof -
  obtain so st1 where g: "get now (bearer_token rq) st = (so, st1)" by fastforce
  have k: "known st1 u \<Longrightarrow> known st u" using get_keeps [of now "bearer_token rq" st u] g by simp
  assume "known (snd (attach get touch drop_token E now rq st)) u"
  with g k show ?thesis
    by (auto simp: attach_def Let_def touch_keeps dest: drop_keeps
          split: if_splits option.splits account_stamp.splits prod.splits)
qed

lemma authenticate_keeps: "known (snd (authenticate get touch drop_token E now rq st)) u \<Longrightarrow> known st u"
  using attach_keeps [of E now rq st u]
  by (auto simp: authenticate_def Let_def split: prod.splits attach_result.splits if_splits)

lemma unknown_not_served:
  "\<not> known st (bearer_token rq) \<Longrightarrow> fst (authenticate get touch drop_token E now rq st) \<noteq> Served s t"
  using get_known [of now "bearer_token rq" st]
  by (auto simp: authenticate_def attach_def Let_def
        split: prod.splits attach_result.splits if_splits option.splits account_stamp.splits)

lemma served_token: "fst (authenticate get touch drop_token E now rq st) = Served s t \<Longrightarrow> t = bearer_token rq"
  by (auto simp: authenticate_def attach_def Let_def
        split: prod.splits attach_result.splits if_splits option.splits account_stamp.splits)

lemma unknown_never_served:
  "\<not> known st t \<Longrightarrow> Served s t \<notin> set (serve_all (authenticate get touch drop_token) rqs st)"
proof (induction rqs arbitrary: st)
  case (Cons x rqs)
  obtain E now rq where x: "x = (E, now, rq)" by (cases x)
  obtain r st1 where a: "authenticate get touch drop_token E now rq st = (r, st1)" by fastforce
  have "\<not> known st1 t" using authenticate_keeps [of E now rq st t] a Cons.prems by auto
  moreover have "r \<noteq> Served s t"
  proof
    assume r: "r = Served s t"
    then have "t = bearer_token rq" using served_token [of E now rq st s t] a by simp
    with Cons.prems unknown_not_served [of st rq E now s t] a r show False by simp
  qed
  ultimately show ?case using Cons.IH a x by auto
qed simp

lemma stale_drops:
  assumes "get now (bearer_token rq) st = (Some s, st1)" and "bearer_token rq \<noteq> []"
    and "ae_driver E (s_database s)" and "ae_stamp E (s_database s) (s_user_id s) \<noteq> StampUnavailable"
    and "ae_stamp E (s_database s) (s_user_id s) \<noteq> StampIs (s_stamp s)"
  shows "fst (authenticate get touch drop_token E now rq st) = Unauthorized \<and>
    \<not> known (snd (authenticate get touch drop_token E now rq st)) (bearer_token rq)"
  using assms drop_drops [OF assms(2), of st1]
  by (auto simp: authenticate_def attach_def Let_def split: account_stamp.splits)

end

definition serve :: "(string \<Rightarrow> string) \<Rightarrow> ('ip, 'net) auth_env \<Rightarrow> int \<Rightarrow> http_request \<Rightarrow> session_store
    \<Rightarrow> auth_response \<times> session_store" where
  "serve dg = authenticate (get_session dg) (touch_meta dg) (revoke dg)"

section \<open>Facts\<close>

lemma serve_iff:
  "fst (serve dg E now rq st) = Served s t \<longleftrightarrow>
   t = bearer_token rq \<and> t \<noteq> [] \<and>
   (\<exists>s0. map_of (st_sessions st) (dg t) = Some s0 \<and> now < s_expires s0 \<and>
      s = s0\<lparr>s_last_seen := now, s_expires := now + st_ttl st\<rparr>) \<and>
   ae_driver E (s_database s) \<and> ae_stamp E (s_database s) (s_user_id s) = StampIs (s_stamp s) \<and>
   \<not> (requested_database rq \<noteq> [] \<and> \<not> ae_equal_fold E (requested_database rq) (s_database s))"
proof -
  have g: "fst (get_session dg now t st) = Some s \<longleftrightarrow> t \<noteq> [] \<and>
      (\<exists>s0. map_of (st_sessions st) (dg t) = Some s0 \<and> now < s_expires s0 \<and>
        s = s0\<lparr>s_last_seen := now, s_expires := now + st_ttl st\<rparr>)"
    by (auto simp: get_session_def Let_def split: option.splits)
  have "fst (serve dg E now rq st) = Served s t \<longleftrightarrow>
    t = bearer_token rq \<and> t \<noteq> [] \<and> fst (get_session dg now t st) = Some s \<and>
    ae_driver E (s_database s) \<and> ae_stamp E (s_database s) (s_user_id s) = StampIs (s_stamp s) \<and>
    \<not> (requested_database rq \<noteq> [] \<and> \<not> ae_equal_fold E (requested_database rq) (s_database s))"
    by (cases "get_session dg now (bearer_token rq) st"; cases "client_session_meta E rq")
       (auto simp: serve_def authenticate_def attach_def Let_def
         split: option.splits account_stamp.splits if_splits)
  then show ?thesis unfolding g by blast
qed

section \<open>Properties\<close>

text \<open>
  C4. A request is served exactly when its token is registered and its session has not expired, the
  session's database is reachable, the account still has the stamp the session was opened with,
  and the request names no other database; it is then served as that session, renewed.
\<close>

theorem request_served_iff:
  "fst (serve dg E now rq st) = Served s t \<longleftrightarrow>
   t = bearer_token rq \<and> t \<noteq> [] \<and>
   (\<exists>s0. map_of (st_sessions st) (dg t) = Some s0 \<and> now < s_expires s0 \<and>
      s = s0\<lparr>s_last_seen := now, s_expires := now + st_ttl st\<rparr>) \<and>
   ae_driver E (s_database s) \<and> ae_stamp E (s_database s) (s_user_id s) = StampIs (s_stamp s) \<and>
   \<not> (requested_database rq \<noteq> [] \<and> \<not> ae_equal_fold E (requested_database rq) (s_database s))"
  by (rule serve_iff)

text \<open>
  C8. A token whose account no longer has the session's stamp is refused, and for good: no later
  request is served with it, even if the account's stamp becomes what it was, in any sequence of
  requests with any tokens.
\<close>

theorem stale_token_dies:
  assumes "fst (get_session dg now (bearer_token rq) st) = Some s"
    and "ae_driver E (s_database s)" and "ae_stamp E (s_database s) (s_user_id s) \<noteq> StampUnavailable"
    and "ae_stamp E (s_database s) (s_user_id s) \<noteq> StampIs (s_stamp s)"
  shows "fst (serve dg E now rq st) = Unauthorized \<and>
    Served s' (bearer_token rq) \<notin> set (serve_all (serve dg) rqs (snd (serve dg E now rq st)))"
proof -
  obtain st1 where g: "get_session dg now (bearer_token rq) st = (Some s, st1)"
    using assms(1) by (metis prod.collapse)
  have "bearer_token rq \<noteq> []" using assms(1) by (auto simp: get_session_def)
  from reg.stale_drops [OF g this assms(2,3,4)]
  show ?thesis unfolding serve_def by (metis reg.unknown_never_served)
qed


definition demo_auth_env :: "string \<Rightarrow> (string, string) auth_env" where
  "demo_auth_env stamp = \<lparr>ae_driver = (\<lambda>_. True), ae_stamp = (\<lambda>_ _. StampIs stamp), ae_equal_fold = (=),
     ae_lower = id, ae_net = demo_net, ae_trusted = []\<rparr>"

definition demo_http :: http_request where
  "demo_http = \<lparr>hr_authorization = ''Bearer t'', hr_query_database = [], hr_header_database = [],
     hr_web_container = [], hr_user_agent = [], hr_net = demo_request\<rparr>"

lemma demo_bearer: "bearer_token demo_http = ''t''"
proof -
  have "equal_fold ''Bearer '' ''bearer ''"
    by (simp add: equal_fold_def runes_ascii fold_eq_ascii_def rune_lower_def)
  then show ?thesis by (simp add: bearer_token_def demo_http_def visible_def Let_def)
qed

theorem stale_token_dies_witness:
  "Served demo_session ''t'' \<notin>
   set (serve_all (serve id) [(demo_auth_env ''x'', 6, demo_http)] (snd (serve id (demo_auth_env ''new'') 5 demo_http demo_store)))"
proof -
  have g: "fst (get_session id 5 (bearer_token demo_http) demo_store)
      = Some (demo_session\<lparr>s_last_seen := 5, s_expires := 15\<rparr>)"
    unfolding demo_bearer by (simp add: demo_store_def demo_session_def get_session_def Let_def)
  show ?thesis
    using stale_token_dies [OF g, of "demo_auth_env ''new''" demo_session "[(demo_auth_env ''x'', 6, demo_http)]"]
    unfolding demo_bearer by (simp add: demo_auth_env_def demo_session_def)
qed

end
