(* ===== verification/Auth_Throttle.thy ===== *)
theory Auth_Throttle
  imports Go_Prelude
begin

text \<open>
  \<open>server/internal/auth/throttle.go\<close>: the counter of failed sign-ins. A moment is an integer, 0 the
  zero time; a nil throttle behaves like one with \<open>max = 0\<close>. The map is a partial function.
\<close>

record attempt_record =
  at_count :: nat
  at_first_failed :: int
  at_locked_until :: int

record throttle =
  th_max :: int
  th_window :: int
  th_lockout :: int
  th_attempts :: "string \<Rightarrow> attempt_record option"

definition new_throttle :: "int \<Rightarrow> int \<Rightarrow> int \<Rightarrow> throttle" where
  "new_throttle mx window lockout =
     \<lparr>th_max = mx, th_window = window, th_lockout = lockout, th_attempts = (\<lambda>_. None)\<rparr>"

definition throttle_allow :: "int \<Rightarrow> string \<Rightarrow> throttle \<Rightarrow> (bool \<times> int) \<times> throttle" where
  "throttle_allow now key t =
     (if th_max t \<le> 0 then ((True, 0), t)
      else case th_attempts t key of
        None \<Rightarrow> ((True, 0), t)
      | Some r \<Rightarrow>
          if at_locked_until r \<noteq> 0 \<and> now < at_locked_until r then ((False, at_locked_until r - now), t)
          else ((True, 0),
                if at_locked_until r = 0 \<and> th_window t \<le> now - at_first_failed r
                then t\<lparr>th_attempts := (th_attempts t)(key := None)\<rparr> else t))"

definition throttle_fail :: "int \<Rightarrow> string \<Rightarrow> throttle \<Rightarrow> (bool \<times> int) \<times> throttle" where
  "throttle_fail now key t =
     (if th_max t \<le> 0 then ((False, 0), t)
      else let fresh = \<lparr>at_count = 0, at_first_failed = now, at_locked_until = 0\<rparr>;
               r = (case th_attempts t key of
                      None \<Rightarrow> fresh
                    | Some r \<Rightarrow>
                        if at_locked_until r = 0 \<and> th_window t \<le> now - at_first_failed r then fresh else r);
               r = r\<lparr>at_count := at_count r + 1\<rparr>;
               locked = th_max t \<le> int (at_count r);
               r = (if locked then r\<lparr>at_locked_until := now + th_lockout t\<rparr> else r)
           in ((locked, if locked then th_lockout t else 0),
               t\<lparr>th_attempts := (th_attempts t)(key \<mapsto> r)\<rparr>))"

definition throttle_succeed :: "string \<Rightarrow> throttle \<Rightarrow> throttle" where
  "throttle_succeed key t =
     (if th_max t \<le> 0 then t else t\<lparr>th_attempts := (th_attempts t)(key := None)\<rparr>)"

text \<open>
  A failing sign-in at a moment, as the handler drives the throttle: refused while locked out,
  otherwise tried and failed. The result tells whether it was tried.
\<close>

definition failing_attempt :: "int \<Rightarrow> string \<Rightarrow> throttle \<Rightarrow> bool \<times> throttle" where
  "failing_attempt now key t =
     (case throttle_allow now key t of
        ((False, _), t) \<Rightarrow> (False, t)
      | ((True, _), t) \<Rightarrow> (True, snd (throttle_fail now key t)))"

text \<open>The moments at which a sequence of failing sign-ins was tried.\<close>

fun tried :: "int list \<Rightarrow> string \<Rightarrow> throttle \<Rightarrow> int list" where
  "tried [] key t = []"
| "tried (now # ts) key t =
     (case failing_attempt now key t of
        (True, t) \<Rightarrow> now # tried ts key t
      | (False, t) \<Rightarrow> tried ts key t)"

section \<open>Facts\<close>

text \<open>A key that has been locked out, until \<open>u\<close>.\<close>

definition locked_key :: "int \<Rightarrow> string \<Rightarrow> throttle \<Rightarrow> bool" where
  "locked_key u key t \<longleftrightarrow>
     0 < th_max t \<and> (\<exists>r. th_attempts t key = Some r \<and> th_max t \<le> int (at_count r) \<and> at_locked_until r = u) \<and> u \<noteq> 0"

lemma locked_attempt:
  assumes "locked_key u key t"
  shows "failing_attempt now key t =
    (if now < u then (False, t) else (True, snd (throttle_fail now key t)))"
  using assms by (auto simp: locked_key_def failing_attempt_def throttle_allow_def)

lemma fail_relocks:
  assumes "locked_key u key t" and "now + th_lockout t \<noteq> 0"
  shows "locked_key (now + th_lockout t) key (snd (throttle_fail now key t)) \<and>
    th_lockout (snd (throttle_fail now key t)) = th_lockout t"
  using assms by (auto simp: locked_key_def throttle_fail_def Let_def)

fun spaced :: "int \<Rightarrow> int \<Rightarrow> int list \<Rightarrow> bool" where
  "spaced gap u [] = True"
| "spaced gap u (x # xs) = (u \<le> x \<and> spaced gap (x + gap) xs)"

lemma locked_spaced:
  "locked_key u key t \<Longrightarrow> 0 \<le> th_lockout t \<Longrightarrow> \<forall>x \<in> set ts. 0 < x \<Longrightarrow>
   spaced (th_lockout t) u (tried ts key t)"
proof (induction ts arbitrary: u t)
  case (Cons now ts)
  show ?case
  proof (cases "now < u")
    case True
    with Cons show ?thesis by (simp add: locked_attempt)
  next
    case False
    let ?t = "snd (throttle_fail now key t)"
    have "now + th_lockout t \<noteq> 0" using Cons.prems(2,3) by (simp add: add_pos_nonneg less_imp_neq [symmetric])
    then have l: "locked_key (now + th_lockout t) key ?t" "th_lockout ?t = th_lockout t"
      using fail_relocks Cons.prems(1) by auto
    have "spaced (th_lockout ?t) (now + th_lockout t) (tried ts key ?t)"
      using l Cons.prems by (intro Cons.IH) auto
    with False l Cons.prems(1) show ?thesis by (simp add: locked_attempt)
  qed
qed simp

text \<open>The record after some failures in a row within the window of the first.\<close>

definition failures :: "int list \<Rightarrow> string \<Rightarrow> throttle \<Rightarrow> throttle" where
  "failures ts key = fold (\<lambda>now t. snd (throttle_fail now key t)) ts"

lemma failures_count:
  assumes "ts \<noteq> []" and "th_attempts t key = None" and "int (length ts) \<le> th_max t"
    and "\<forall>x \<in> set ts. hd ts \<le> x \<and> x < hd ts + th_window t"
  shows "th_max (failures ts key t) = th_max t \<and> th_lockout (failures ts key t) = th_lockout t \<and>
    th_window (failures ts key t) = th_window t \<and>
    (\<exists>r. th_attempts (failures ts key t) key = Some r \<and> at_count r = length ts \<and> at_first_failed r = hd ts \<and>
      at_locked_until r = (if int (length ts) = th_max t then last ts + th_lockout t else 0))"
  using assms
proof (induction ts rule: rev_induct)
  case (snoc x ts)
  let ?t = "failures ts key t"
  have f: "failures (ts @ [x]) key t = snd (throttle_fail x key ?t)" by (simp add: failures_def)
  show ?case
  proof (cases "ts = []")
    case True
    with snoc.prems show ?thesis by (auto simp: failures_def throttle_fail_def Let_def)
  next
    case False
    have lt: "int (length ts) < th_max t" using snoc.prems(3) by simp
    with False snoc obtain r where r: "th_attempts ?t key = Some r" "at_count r = length ts"
      "at_first_failed r = hd ts" "at_locked_until r = 0" "th_max ?t = th_max t"
      "th_lockout ?t = th_lockout t" "th_window ?t = th_window t"
      by auto
    have "\<not> th_window t \<le> x - hd ts" using snoc.prems(4) False by auto
    with f r lt False snoc.prems(3) show ?thesis by (auto simp: throttle_fail_def Let_def)
  qed
qed simp

section \<open>Properties\<close>

text \<open>
  C36. \<open>max\<close> failures on a key within the window of the first lock it out: until the lockout has passed
  since the last of them an attempt is refused, with the time left, and the other keys are as they
  were.
\<close>

theorem throttle_locks_out:
  assumes "0 < th_max t" and "th_attempts t key = None" and "int (length ts) = th_max t"
    and "\<forall>x \<in> set ts. hd ts \<le> x \<and> x < hd ts + th_window t"
    and "0 < last ts" and "last ts \<le> now" and "now < last ts + th_lockout t"
  shows "throttle_allow now key (failures ts key t) = ((False, last ts + th_lockout t - now), failures ts key t) \<and>
    (\<forall>k. k \<noteq> key \<longrightarrow> th_attempts (failures ts key t) k = th_attempts t k)"
proof
  have ne: "ts \<noteq> []" using assms(1,3) by auto
  from failures_count [OF ne assms(2) _ assms(4)] assms(3)
  obtain r where "th_attempts (failures ts key t) key = Some r" "at_locked_until r = last ts + th_lockout t"
    "th_max (failures ts key t) = th_max t" by auto
  moreover have "last ts + th_lockout t \<noteq> 0" using assms(5-7) by linarith
  ultimately show "throttle_allow now key (failures ts key t)
      = ((False, last ts + th_lockout t - now), failures ts key t)"
    using assms(1,7) by (simp add: throttle_allow_def)
  have "th_attempts (failures us key t) k = th_attempts t k" if "k \<noteq> key" for k us
    using that by (induction us rule: rev_induct) (auto simp: failures_def throttle_fail_def Let_def)
  then show "\<forall>k. k \<noteq> key \<longrightarrow> th_attempts (failures ts key t) k = th_attempts t k" by blast
qed

text \<open>
  Once a key has been locked out, guessing on it is slowed down for good: in any sequence of
  failing attempts, at any moments, the ones that are tried are at least the lockout apart, the
  first at the end of the lockout. (The record is forgotten only by a success, however long the
  key is left alone.)
\<close>

theorem throttle_slows_guessing:
  assumes "locked_key u key t" and "0 \<le> th_lockout t" and "\<forall>x \<in> set ts. 0 < x"
  shows "spaced (th_lockout t) u (tried ts key t)"
  using assms by (rule locked_spaced)

definition demo_throttle :: throttle where
  "demo_throttle = new_throttle 2 10 5"

theorem throttle_locks_out_witness:
  "throttle_allow 7 ''k'' (failures [1, 4] ''k'' demo_throttle) = ((False, 2), failures [1, 4] ''k'' demo_throttle)"
  using throttle_locks_out [of demo_throttle "''k''" "[1, 4]" 7]
  by (simp add: demo_throttle_def new_throttle_def)

theorem throttle_slows_guessing_witness:
  "spaced 5 9 (tried [8, 9, 12, 100] ''k'' (failures [1, 4] ''k'' demo_throttle))"
proof -
  have "locked_key 9 ''k'' (failures [1, 4] ''k'' demo_throttle)" "th_lockout (failures [1, 4] ''k'' demo_throttle) = 5"
    by (simp_all add: locked_key_def failures_def demo_throttle_def new_throttle_def throttle_fail_def)
  with throttle_slows_guessing [OF this(1), of "[8, 9, 12, 100]"] show ?thesis by simp
qed

end
