(* ===== verification/Api_Security.thy ===== *)
theory Api_Security
  imports Schema_Permissions Api_Auth Auth_Throttle
begin

text \<open>
  \<open>server/internal/api/security_handler.go\<close>: signing in, the session, accounts, permissions and the
  second factor over HTTP, behind the middleware of \<open>Api_Auth\<close>. The state of the server is the
  catalog and the privileges of each database, the session store and the login throttle. A request
  comes with what its calls answer (\<open>request_env\<close>): the moment, the password hash, random bytes, the
  error of its statement. A body that does not decode is \<open>None\<close>. A problem is its status and title; the
  copy of the accounts kept in the control store (\<open>syncProjectSecurity\<close>) is left out. Of \<open>Login\<close> the
  part from the throttle on is here, for a database that was found and has a catalog.
\<close>

section \<open>The state and the requests\<close>

record security_config =
  sh_seeds :: "string list"
  sh_admin_database :: string

record security_state =
  ss_catalogs :: "string \<Rightarrow> catalog"
  ss_privileges :: "string \<Rightarrow> privilege_table"
  ss_store :: session_store
  ss_throttle :: throttle

record request_env =
  qe_now :: int
  qe_hashed :: "string + string"
  qe_fresh :: "nat \<Rightarrow> string"
  qe_random :: "string option"
  qe_failure :: "string option"
  qe_query :: "string option"
  qe_runs :: engine_runs
  qe_stamp_read :: bool

record create_request =
  cr_username :: string
  cr_password :: string
  cr_role :: string
  cr_active :: "bool option"

record update_request =
  ur_password :: string
  ur_role :: string
  ur_active :: "bool option"

record login_request =
  lr_username :: string
  lr_password :: string
  lr_totp :: string

datatype security_call =
    CallLogout
  | CallSession
  | CallListUsers
  | CallCreateUser "create_request option"
  | CallUpdateUser string "update_request option"
  | CallSetSuperOwner string "bool option"
  | CallDeleteUser string
  | CallGetPermissions string
  | CallSetPermissions string "layout_permission list option"
  | CallGetTablePermissions string
  | CallSetTablePermissions string "table_permission list option"
  | CallSetupMFA string
  | CallEnableMFA string "(string \<times> string) option"
  | CallDisableMFA string
  | CallGetPrivileges
  | CallSetPrivileges "role_privileges list option"

datatype security_response =
    Problem nat string
  | NoContent
  | Done
  | SessionIs session "string list" "(layout_permission \<times> string) list" "table_permission list"
  | UserList "account_row list"
  | UserCreated user_row
  | LayoutPermissions "(layout_permission \<times> string) list"
  | TablePermissions "table_permission list"
  | MFASetup mfa_setup
  | Privileges "role_privileges list"

definition invalid_json :: security_response where "invalid_json = Problem 400 ''Invalid JSON''"
definition forbidden :: security_response where "forbidden = Problem 403 ''Forbidden''"
definition user_not_found :: security_response where "user_not_found = Problem 404 ''User Not Found''"
definition internal_error :: security_response where "internal_error = Problem 500 ''Internal Server Error''"

definition set_catalog :: "string \<Rightarrow> catalog \<Rightarrow> security_state \<Rightarrow> security_state" where
  "set_catalog db cat st = st\<lparr>ss_catalogs := (ss_catalogs st)(db := cat)\<rparr>"

section \<open>Super-owners of the configuration\<close>

definition super_owner_seed_key :: "unicode \<Rightarrow> string \<Rightarrow> string \<Rightarrow> string" where
  "super_owner_seed_key U db name = to_lower U (trim_space db) @ [CHR 0x00] @ to_lower U (trim_space name)"

text \<open>\<open>strings.Cut\<close> at a colon.\<close>

definition cut_colon :: "string \<Rightarrow> (string \<times> string) option" where
  "cut_colon raw =
     (let before = takeWhile (\<lambda>c. c \<noteq> CHR '':'') raw
      in if length before = length raw then None else Some (before, drop (Suc (length before)) raw))"

definition configure_super_owner :: "unicode \<Rightarrow> string list \<Rightarrow> security_config \<Rightarrow> security_config" where
  "configure_super_owner U entries C =
     C\<lparr>sh_seeds := List.map_filter (\<lambda>raw.
        case cut_colon raw of
          None \<Rightarrow> None
        | Some (db, user) \<Rightarrow>
            if trim_space db = [] \<or> trim_space user = [] then None
            else Some (super_owner_seed_key U (trim_space db) (trim_space user))) entries\<rparr>"

definition configure_server_admin :: "unicode \<Rightarrow> string \<Rightarrow> security_config \<Rightarrow> security_config" where
  "configure_server_admin U db C = C\<lparr>sh_admin_database := to_lower U (trim_space db)\<rparr>"

definition is_seeded_super_owner :: "security_config \<Rightarrow> unicode \<Rightarrow> string \<Rightarrow> string \<Rightarrow> bool" where
  "is_seeded_super_owner C U db name = list_ex (\<lambda>k. k = super_owner_seed_key U db name) (sh_seeds C)"

definition is_admin_database_owner :: "security_config \<Rightarrow> ('ip, 'net) auth_env \<Rightarrow> string \<Rightarrow> string \<Rightarrow> bool" where
  "is_admin_database_owner C A db role \<longleftrightarrow>
     sh_admin_database C \<noteq> [] \<and> role = role_owner \<and> ae_equal_fold A db (sh_admin_database C)"

section \<open>Signing in and out\<close>

definition login_throttle_key :: "unicode \<Rightarrow> ('ip, 'net) auth_env \<Rightarrow> string \<Rightarrow> string \<Rightarrow> http_request \<Rightarrow> string" where
  "login_throttle_key U A db name rq =
     to_lower U (trim_space db) @ [CHR 0x00] @ to_lower U (trim_space name) @ [CHR 0x00] @
     fst (client_session_meta A rq)"

definition retry_seconds :: "int \<Rightarrow> int" where
  "retry_seconds d = (let secs = d div 10 ^ 9 in if secs < 1 then 1 else secs)"

datatype login_response =
    LockedOut int
  | LoginMFARequired
  | LoginFailed account_error
  | LoginInternal
  | SignedIn string session auth_user "string list"

definition open_session :: "security_config \<Rightarrow> account_env \<Rightarrow> ('ip, 'net) auth_env \<Rightarrow> (string \<Rightarrow> string) \<Rightarrow> request_env
    \<Rightarrow> string \<Rightarrow> http_request \<Rightarrow> auth_user \<Rightarrow> security_state \<Rightarrow> login_response \<times> security_state" where
  "open_session C E A dg q db rq user st =
     (let super = au_super user \<or> is_seeded_super_owner C (sv_uni E) db (au_username user)
                  \<or> is_admin_database_owner C A db (au_role user);
          user = user\<lparr>au_super := super\<rparr>
      in case create_session dg (qe_now q) (qe_random q) (au_id user) (au_username user) (au_role user) db
                (au_stamp user) (au_super user) (ss_store st) of
           (None, store) \<Rightarrow> (LoginInternal, st\<lparr>ss_store := store\<rparr>)
         | (Some (token, sess), store) \<Rightarrow>
             (case client_session_meta A rq of
                (ip, wc, ua) \<Rightarrow>
                  (let st = st\<lparr>ss_store := touch_meta dg (qe_now q) token ip wc ua store\<rparr>
                   in case capabilities_of (qe_query q) (au_role user) (ss_privileges st db) of
                        Inl e \<Rightarrow> (LoginInternal, st)
                      | Inr caps \<Rightarrow> (SignedIn token sess user caps, st))))"

definition login_account :: "security_config \<Rightarrow> account_env \<Rightarrow> ('ip, 'net) auth_env \<Rightarrow> (string \<Rightarrow> string) \<Rightarrow> request_env
    \<Rightarrow> string \<Rightarrow> login_request \<Rightarrow> http_request \<Rightarrow> security_state \<Rightarrow> login_response \<times> security_state" where
  "login_account C E A dg q db lr rq st =
     (let key = login_throttle_key (sv_uni E) A db (lr_username lr) rq
      in case throttle_allow (qe_now q) key (ss_throttle st) of
           ((False, retry), th) \<Rightarrow> (LockedOut (retry_seconds retry), st\<lparr>ss_throttle := th\<rparr>)
         | ((True, _), th) \<Rightarrow>
             (case sign_in E (qe_runs q) (qe_now q) (lr_username lr) (lr_password lr) (lr_totp lr)
                     (ss_catalogs st db) of
                Inl e \<Rightarrow>
                  if e = MFARequired then (LoginMFARequired, st\<lparr>ss_throttle := th\<rparr>)
                  else (case throttle_fail (qe_now q) key th of
                          ((locked, retry), th) \<Rightarrow>
                            (if locked then LockedOut (retry_seconds retry) else LoginFailed e,
                             st\<lparr>ss_throttle := th\<rparr>))
              | Inr user \<Rightarrow>
                  open_session C E A dg q db rq user (st\<lparr>ss_throttle := throttle_succeed key th\<rparr>)))"

definition logout :: "(string \<Rightarrow> string) \<Rightarrow> string \<Rightarrow> security_state \<Rightarrow> security_response \<times> security_state" where
  "logout dg token st = (NoContent, st\<lparr>ss_store := revoke dg token (ss_store st)\<rparr>)"

definition current_session :: "account_env \<Rightarrow> request_env \<Rightarrow> session \<Rightarrow> security_state \<Rightarrow> security_response" where
  "current_session E q sess st =
     (let cat = ss_catalogs st (s_database sess)
      in case capabilities_of (qe_query q) (s_role sess) (ss_privileges st (s_database sess)) of
           Inl e \<Rightarrow> internal_error
         | Inr caps \<Rightarrow> SessionIs sess caps (get_user_permissions (s_user_id sess) cat)
             (get_user_table_permissions E (s_user_id sess) cat))"

section \<open>Accounts\<close>

definition list_users_call :: "account_env \<Rightarrow> request_env \<Rightarrow> session \<Rightarrow> security_state \<Rightarrow> security_response" where
  "list_users_call E q sess st =
     (case list_users E (qe_runs q) (ss_catalogs st (s_database sess)) of
        Inl e \<Rightarrow> internal_error
      | Inr users \<Rightarrow> UserList users)"

definition create_user_call :: "account_env \<Rightarrow> request_env \<Rightarrow> session \<Rightarrow> create_request option \<Rightarrow> security_state
    \<Rightarrow> security_response \<times> security_state" where
  "create_user_call E q sess body st =
     (case body of
        None \<Rightarrow> (invalid_json, st)
      | Some req \<Rightarrow>
          if cr_role req = role_owner \<and> \<not> session_is_owner sess then (forbidden, st)
          else (case create_user E (qe_hashed q) (qe_fresh q 0) (qe_now q) (qe_failure q) (cr_username req)
                       (cr_password req) (cr_role req) (cr_active req) (ss_catalogs st (s_database sess)) of
                  (Inl e, cat) \<Rightarrow> (Problem 400 ''User Creation Error'', set_catalog (s_database sess) cat st)
                | (Inr u, cat) \<Rightarrow> (UserCreated u, set_catalog (s_database sess) cat st)))"

text \<open>Who may change an account, and to what.\<close>

definition may_update :: "session \<Rightarrow> account_row \<Rightarrow> string \<Rightarrow> bool option \<Rightarrow> bool" where
  "may_update sess target role active \<longleftrightarrow>
     (if session_is_owner sess then True
      else if session_is_admin sess then \<not> (ar_role target = role_owner \<or> role = role_owner)
      else if s_user_id sess = ar_id target then \<not> (role \<noteq> ar_role target \<or> active \<noteq> None)
      else False)"

definition settle_sessions :: "account_env \<Rightarrow> (string \<Rightarrow> string) \<Rightarrow> request_env \<Rightarrow> session \<Rightarrow> string \<Rightarrow> string \<Rightarrow> account_row
    \<Rightarrow> string \<Rightarrow> string \<Rightarrow> bool option \<Rightarrow> security_state \<Rightarrow> security_state" where
  "settle_sessions E dg q sess token uid target password role active st =
     (let self = (s_user_id sess = ar_id target);
          deactivated = (active = Some False)
      in if password \<noteq> [] \<or> role \<noteq> ar_role target \<or> deactivated
         then let keep = (if self \<and> \<not> deactivated \<and> role = ar_role target then token else []);
                  st = st\<lparr>ss_store := revoke_user dg (s_database sess) uid keep (ss_store st)\<rparr>
              in if keep = [] then st
                 else (case (qe_stamp_read q, current_account_stamp E uid (ss_catalogs st (s_database sess))) of
                         (True, Inr stamp) \<Rightarrow> st\<lparr>ss_store := restamp dg keep stamp (ss_store st)\<rparr>
                       | _ \<Rightarrow> st)
         else st)"

definition update_user_call :: "account_env \<Rightarrow> (string \<Rightarrow> string) \<Rightarrow> request_env \<Rightarrow> session \<Rightarrow> string \<Rightarrow> string
    \<Rightarrow> update_request option \<Rightarrow> security_state \<Rightarrow> security_response \<times> security_state" where
  "update_user_call E dg q sess token uid body st =
     (case body of
        None \<Rightarrow> (invalid_json, st)
      | Some req \<Rightarrow>
          (case get_user (qe_runs q) uid (ss_catalogs st (s_database sess)) of
             Inl e \<Rightarrow> (user_not_found, st)
           | Inr target \<Rightarrow>
               let role = (if ur_role req = [] then ar_role target else ur_role req)
               in if \<not> may_update sess target role (ur_active req) then (forbidden, st)
                  else (case update_user (qe_runs q) (qe_hashed q) (qe_now q) (qe_failure q) uid (ur_password req) role
                               (ur_active req) (ss_catalogs st (s_database sess)) of
                          (Inl e, cat) \<Rightarrow> (Problem 400 ''User Update Error'', set_catalog (s_database sess) cat st)
                        | (Inr _, cat) \<Rightarrow>
                            (Done, settle_sessions E dg q sess token uid target (ur_password req) role (ur_active req)
                                     (set_catalog (s_database sess) cat st)))))"

definition set_super_owner_call :: "(string \<Rightarrow> string) \<Rightarrow> request_env \<Rightarrow> session \<Rightarrow> string \<Rightarrow> bool option \<Rightarrow> security_state
    \<Rightarrow> security_response \<times> security_state" where
  "set_super_owner_call dg q sess uid body st =
     (case body of
        None \<Rightarrow> (invalid_json, st)
      | Some super \<Rightarrow>
          (case get_user (qe_runs q) uid (ss_catalogs st (s_database sess)) of
             Inl e \<Rightarrow> (user_not_found, st)
           | Inr target \<Rightarrow>
               if super \<and> ar_role target \<noteq> role_owner then (Problem 422 ''Owner Required'', st)
               else if s_user_id sess = ar_id target \<and> \<not> super then (forbidden, st)
               else (case set_super_owner (qe_runs q) (qe_now q) (qe_failure q) uid super
                            (ss_catalogs st (s_database sess)) of
                       (Inl e, cat) \<Rightarrow> (Problem 400 ''Super-Owner Update Error'', set_catalog (s_database sess) cat st)
                     | (Inr _, cat) \<Rightarrow>
                         (Done, (set_catalog (s_database sess) cat st)
                            \<lparr>ss_store := revoke_user dg (s_database sess) uid [] (ss_store st)\<rparr>))))"

definition delete_user_call :: "(string \<Rightarrow> string) \<Rightarrow> request_env \<Rightarrow> session \<Rightarrow> string \<Rightarrow> security_state
    \<Rightarrow> security_response \<times> security_state" where
  "delete_user_call dg q sess uid st =
     (case get_user (qe_runs q) uid (ss_catalogs st (s_database sess)) of
        Inl e \<Rightarrow> (user_not_found, st)
      | Inr target \<Rightarrow>
          if ar_id target = s_user_id sess then (Problem 400 ''User Deletion Error'', st)
          else if ar_role target = role_owner \<and> \<not> session_is_owner sess then (forbidden, st)
          else (case delete_user (qe_failure q) uid (ss_catalogs st (s_database sess)) of
                  (Inl e, cat) \<Rightarrow> (Problem 400 ''User Deletion Error'', set_catalog (s_database sess) cat st)
                | (Inr _, cat) \<Rightarrow>
                    (NoContent, (set_catalog (s_database sess) cat st)
                       \<lparr>ss_store := revoke_user dg (s_database sess) uid [] (ss_store st)\<rparr>)))"

section \<open>Permissions and privileges\<close>

definition get_permissions_call :: "session \<Rightarrow> string \<Rightarrow> security_state \<Rightarrow> security_response" where
  "get_permissions_call sess uid st =
     (if \<not> session_is_admin sess \<and> s_user_id sess \<noteq> uid then forbidden
      else LayoutPermissions (get_user_permissions uid (ss_catalogs st (s_database sess))))"

definition set_permissions_call :: "request_env \<Rightarrow> session \<Rightarrow> string \<Rightarrow> layout_permission list option \<Rightarrow> security_state
    \<Rightarrow> security_response \<times> security_state" where
  "set_permissions_call q sess uid body st =
     (case body of
        None \<Rightarrow> (invalid_json, st)
      | Some perms \<Rightarrow>
          (case get_user (qe_runs q) uid (ss_catalogs st (s_database sess)) of
             Inl e \<Rightarrow> (user_not_found, st)
           | Inr _ \<Rightarrow>
               (case set_user_permissions (qe_fresh q) (qe_failure q) uid perms (ss_catalogs st (s_database sess)) of
                  (Inl e, cat) \<Rightarrow> (Problem 400 ''Permission Update Error'', set_catalog (s_database sess) cat st)
                | (Inr _, cat) \<Rightarrow> (Done, set_catalog (s_database sess) cat st))))"

definition get_table_permissions_call :: "account_env \<Rightarrow> session \<Rightarrow> string \<Rightarrow> security_state \<Rightarrow> security_response" where
  "get_table_permissions_call E sess uid st =
     (if \<not> session_is_admin sess \<and> s_user_id sess \<noteq> uid then forbidden
      else TablePermissions (get_user_table_permissions E uid (ss_catalogs st (s_database sess))))"

definition set_table_permissions_call :: "account_env \<Rightarrow> request_env \<Rightarrow> session \<Rightarrow> string \<Rightarrow> table_permission list option
    \<Rightarrow> security_state \<Rightarrow> security_response \<times> security_state" where
  "set_table_permissions_call E q sess uid body st =
     (case body of
        None \<Rightarrow> (invalid_json, st)
      | Some perms \<Rightarrow>
          (case get_user (qe_runs q) uid (ss_catalogs st (s_database sess)) of
             Inl e \<Rightarrow> (user_not_found, st)
           | Inr _ \<Rightarrow>
               (case set_user_table_permissions E (qe_fresh q) (qe_failure q) uid perms
                       (ss_catalogs st (s_database sess)) of
                  (Inl e, cat) \<Rightarrow> (Problem 400 ''Table Permission Update Error'', set_catalog (s_database sess) cat st)
                | (Inr _, cat) \<Rightarrow> (Done, set_catalog (s_database sess) cat st))))"

definition get_privileges_call :: "request_env \<Rightarrow> session \<Rightarrow> security_state \<Rightarrow> security_response" where
  "get_privileges_call q sess st =
     (case list_role_privileges (qe_query q) (ss_privileges st (s_database sess)) of
        Inl e \<Rightarrow> internal_error
      | Inr ps \<Rightarrow> Privileges ps)"

definition set_privileges_call :: "request_env \<Rightarrow> session \<Rightarrow> role_privileges list option \<Rightarrow> security_state
    \<Rightarrow> security_response \<times> security_state" where
  "set_privileges_call q sess body st =
     (case body of
        None \<Rightarrow> (Problem 400 ''Invalid Request'', st)
      | Some ps \<Rightarrow>
          (case set_role_privileges (qe_failure q) ps (ss_privileges st (s_database sess)) of
             (Inl e, tbl) \<Rightarrow>
               ((case e of UnknownRole _ \<Rightarrow> Problem 422 ''Unknown Role'' | _ \<Rightarrow> internal_error),
                st\<lparr>ss_privileges := (ss_privileges st)(s_database sess := tbl)\<rparr>)
           | (Inr _, tbl) \<Rightarrow>
               (let st = st\<lparr>ss_privileges := (ss_privileges st)(s_database sess := tbl)\<rparr>
                in (get_privileges_call q sess st, st))))"

section \<open>The second factor\<close>

definition can_manage_user_mfa :: "request_env \<Rightarrow> session \<Rightarrow> string \<Rightarrow> security_state \<Rightarrow> security_response option" where
  "can_manage_user_mfa q sess uid st =
     (case get_user (qe_runs q) uid (ss_catalogs st (s_database sess)) of
        Inl e \<Rightarrow> Some user_not_found
      | Inr target \<Rightarrow>
          if session_is_owner sess then None
          else if session_is_admin sess then (if ar_role target = role_owner then Some forbidden else None)
          else if s_user_id sess = ar_id target then None
          else Some forbidden)"

definition setup_mfa_call :: "account_env \<Rightarrow> request_env \<Rightarrow> session \<Rightarrow> string \<Rightarrow> security_state
    \<Rightarrow> security_response \<times> security_state" where
  "setup_mfa_call E q sess uid st =
     (case can_manage_user_mfa q sess uid st of
        Some r \<Rightarrow> (r, st)
      | None \<Rightarrow>
          (case setup_user_mfa E (qe_runs q) (qe_random q) (qe_now q) (qe_failure q) uid
                  (''File4Base ('' @ s_database sess @ '')'') (ss_catalogs st (s_database sess)) of
             (Inl e, cat) \<Rightarrow> (Problem 400 ''MFA Setup Error'', set_catalog (s_database sess) cat st)
           | (Inr setup, cat) \<Rightarrow> (MFASetup setup, set_catalog (s_database sess) cat st)))"

text \<open>The service takes the secret first and then the code; the handler passes the code first.\<close>

definition enable_mfa_call :: "account_env \<Rightarrow> request_env \<Rightarrow> session \<Rightarrow> string \<Rightarrow> (string \<times> string) option \<Rightarrow> security_state
    \<Rightarrow> security_response \<times> security_state" where
  "enable_mfa_call E q sess uid body st =
     (case can_manage_user_mfa q sess uid st of
        Some r \<Rightarrow> (r, st)
      | None \<Rightarrow>
          (case body of
             None \<Rightarrow> (invalid_json, st)
           | Some (code, secret) \<Rightarrow>
               (case enable_user_mfa E (qe_runs q) (qe_now q) (qe_failure q) uid code secret
                       (ss_catalogs st (s_database sess)) of
                  (Inl e, cat) \<Rightarrow> (Problem 400 ''MFA Verification Failed'', set_catalog (s_database sess) cat st)
                | (Inr _, cat) \<Rightarrow> (Done, set_catalog (s_database sess) cat st))))"

definition disable_mfa_call :: "request_env \<Rightarrow> session \<Rightarrow> string \<Rightarrow> security_state
    \<Rightarrow> security_response \<times> security_state" where
  "disable_mfa_call q sess uid st =
     (case can_manage_user_mfa q sess uid st of
        Some r \<Rightarrow> (r, st)
      | None \<Rightarrow>
          (case disable_user_mfa (qe_runs q) (qe_now q) (qe_failure q) uid (ss_catalogs st (s_database sess)) of
             (Inl e, cat) \<Rightarrow> (Problem 400 ''MFA Disable Error'', set_catalog (s_database sess) cat st)
           | (Inr _, cat) \<Rightarrow> (Done, set_catalog (s_database sess) cat st)))"

section \<open>Routes\<close>

fun call_guard :: "security_call \<Rightarrow> session \<Rightarrow> guard_response" where
  "call_guard CallListUsers sess = require_admin (Some sess)"
| "call_guard (CallCreateUser _) sess = require_admin (Some sess)"
| "call_guard (CallSetSuperOwner _ _) sess = require_super_owner (Some sess)"
| "call_guard (CallDeleteUser _) sess = require_admin (Some sess)"
| "call_guard (CallSetPermissions _ _) sess = require_admin (Some sess)"
| "call_guard (CallSetTablePermissions _ _) sess = require_admin (Some sess)"
| "call_guard CallGetPrivileges sess = require_admin (Some sess)"
| "call_guard (CallSetPrivileges _) sess = require_owner (Some sess)"
| "call_guard _ sess = require_session (Some sess) True"

fun run_call :: "account_env \<Rightarrow> (string \<Rightarrow> string) \<Rightarrow> request_env \<Rightarrow> session \<Rightarrow> string \<Rightarrow> security_call \<Rightarrow> security_state
    \<Rightarrow> security_response \<times> security_state" where
  "run_call E dg q sess token CallLogout st = logout dg token st"
| "run_call E dg q sess token CallSession st = (current_session E q sess st, st)"
| "run_call E dg q sess token CallListUsers st = (list_users_call E q sess st, st)"
| "run_call E dg q sess token (CallCreateUser body) st = create_user_call E q sess body st"
| "run_call E dg q sess token (CallUpdateUser uid body) st = update_user_call E dg q sess token uid body st"
| "run_call E dg q sess token (CallSetSuperOwner uid body) st = set_super_owner_call dg q sess uid body st"
| "run_call E dg q sess token (CallDeleteUser uid) st = delete_user_call dg q sess uid st"
| "run_call E dg q sess token (CallGetPermissions uid) st = (get_permissions_call sess uid st, st)"
| "run_call E dg q sess token (CallSetPermissions uid body) st = set_permissions_call q sess uid body st"
| "run_call E dg q sess token (CallGetTablePermissions uid) st = (get_table_permissions_call E sess uid st, st)"
| "run_call E dg q sess token (CallSetTablePermissions uid body) st = set_table_permissions_call E q sess uid body st"
| "run_call E dg q sess token (CallSetupMFA uid) st = setup_mfa_call E q sess uid st"
| "run_call E dg q sess token (CallEnableMFA uid body) st = enable_mfa_call E q sess uid body st"
| "run_call E dg q sess token (CallDisableMFA uid) st = disable_mfa_call q sess uid st"
| "run_call E dg q sess token CallGetPrivileges st = (get_privileges_call q sess st, st)"
| "run_call E dg q sess token (CallSetPrivileges body) st = set_privileges_call q sess body st"

text \<open>The answers of the database on an account are those of its catalog, unless it does not answer.\<close>

definition stamps_of :: "account_env \<Rightarrow> security_state \<Rightarrow> ('ip, 'net) auth_env \<Rightarrow> ('ip, 'net) auth_env" where
  "stamps_of E st A = A\<lparr>ae_stamp := (\<lambda>db uid.
     if ae_stamp A db uid = StampUnavailable then StampUnavailable
     else case current_account_stamp E uid (ss_catalogs st db) of Inl _ \<Rightarrow> AccountNotFound | Inr stamp \<Rightarrow> StampIs stamp)\<rparr>"

fun refusal :: "auth_response \<Rightarrow> security_response" where
  "refusal Unauthorized = Problem 401 ''Authentication Required''"
| "refusal ForbiddenDatabase = forbidden"
| "refusal (ServiceUnavailable _) = Problem 503 ''Database Unavailable''"
| "refusal (Served _ _) = NoContent"

definition security_request :: "account_env \<Rightarrow> ('ip, 'net) auth_env \<Rightarrow> (string \<Rightarrow> string) \<Rightarrow> request_env \<Rightarrow> http_request
    \<Rightarrow> security_call \<Rightarrow> security_state \<Rightarrow> security_response \<times> security_state" where
  "security_request E A dg q rq call st =
     (case serve dg (stamps_of E st A) (qe_now q) rq (ss_store st) of
        (Served sess token, store) \<Rightarrow>
          (let st = st\<lparr>ss_store := store\<rparr>
           in case call_guard call sess of
                GuardPasses \<Rightarrow> run_call E dg q sess token call st
              | _ \<Rightarrow> (forbidden, st))
      | (r, store) \<Rightarrow> (refusal r, st\<lparr>ss_store := store\<rparr>))"

text \<open>Two guards of \<open>api/auth.go\<close> other routes use; a left value is an internal error.\<close>

definition require_capability :: "string \<Rightarrow> string option \<Rightarrow> string \<Rightarrow> session option \<Rightarrow> security_state
    \<Rightarrow> privilege_error + guard_response" where
  "require_capability db failure c sess st =
     (case sess of
        None \<Rightarrow> Inr GuardUnauthorized
      | Some s \<Rightarrow> bind_r (role_allows failure (s_role s) c (ss_privileges st db))
          (\<lambda>allowed. Inr (if allowed then GuardPasses else GuardForbidden)))"

definition require_design_unlocked :: "string + bool \<Rightarrow> string + guard_response" where
  "require_design_unlocked locked = bind_r locked (\<lambda>b. Inr (if b then GuardForbidden else GuardPasses))"

end
