(* ===== verification/Security_State.thy ===== *)
theory Security_State
  imports Api_Security
begin

text \<open>
  What requests on accounts do to the state of \<open>Api_Security\<close>: which sessions they leave, the
  invariant \<open>sound_state\<close> (identifiers of accounts and digests of sessions are not repeated, roles are
  valid, every session carries a stamp of an active account in its role) and that every sign-in and
  every request keeps it, the accounts of owners, and what a change of an account leaves signed in.
  A request runs to its end before the next one: two requests that interleave between a check and the
  change it guards are not covered.
\<close>

section \<open>Facts\<close>

lemma set_catalog_simps [simp]:
  "ss_catalogs (set_catalog db cat st) = (ss_catalogs st)(db := cat)" "ss_store (set_catalog db cat st) = ss_store st"
  "ss_privileges (set_catalog db cat st) = ss_privileges st" "ss_throttle (set_catalog db cat st) = ss_throttle st"
  by (simp_all add: set_catalog_def)

text \<open>Sessions of one store that stand for sessions of another, with other times and metadata.\<close>

definition same_identity :: "session \<Rightarrow> session \<Rightarrow> bool" where
  "same_identity s t \<longleftrightarrow> s_user_id s = s_user_id t \<and> s_role s = s_role t \<and> s_database s = s_database t \<and>
     s_super_owner s = s_super_owner t \<and> s_stamp s = s_stamp t"

definition derives :: "session_store \<Rightarrow> session_store \<Rightarrow> bool" where
  "derives st' st \<longleftrightarrow> (\<forall>k s. (k, s) \<in> set (st_sessions st') \<longrightarrow>
     (\<exists>t. (k, t) \<in> set (st_sessions st) \<and> same_identity s t))"

lemma same_identity_refl [simp]: "same_identity s s"
  by (simp add: same_identity_def)

lemma derives_refl [simp]: "derives st st"
  by (auto simp: derives_def)

lemma derives_trans: "derives a b \<Longrightarrow> derives b c \<Longrightarrow> derives a c"
  by (fastforce simp: derives_def same_identity_def)

lemma derives_subset: "set (st_sessions st') \<subseteq> set (st_sessions st) \<Longrightarrow> derives st' st"
  unfolding derives_def using same_identity_refl by blast

lemma set_delete: "set (AList.delete k xs) \<subseteq> set xs"
  by (auto simp: AList.delete_eq)

lemma derives_ops:
  "derives (revoke dg token st) st" "derives (revoke_user dg db uid keep st) st" "derives (delete_key k st) st"
  "derives (prune_locked now st) st"
  by (auto simp: revoke_def revoke_user_def delete_key_def prune_locked_def intro!: derives_subset dest: subsetD [OF set_delete])

lemma derives_change: "(\<And>s. same_identity (f s) s) \<Longrightarrow> derives (change_session k f st) st"
  unfolding derives_def change_session_def using set_map_entry same_identity_refl by fastforce

lemma derives_touch: "derives (touch_meta dg now token ip wc ua st) st"
  by (auto simp: touch_meta_def same_identity_def touch_session_def intro!: derives_change)

lemma derives_get: "distinct (map fst (st_sessions st)) \<Longrightarrow> derives (snd (get_session dg now token st)) st"
proof (cases "map_of (st_sessions st) (dg token)")
  case (Some s)
  have "derives (change_session (dg token) (\<lambda>_. s\<lparr>s_last_seen := now, s_expires := now + st_ttl st\<rparr>) st) st"
    unfolding derives_def change_session_def
    using Some by (fastforce simp: same_identity_def dest!: set_map_entry dest: map_of_SomeD)
  then show ?thesis using Some by (auto simp: get_session_def Let_def derives_ops)
qed (auto simp: get_session_def)

lemma derives_serve:
  assumes "distinct (map fst (st_sessions st))"
  shows "derives (snd (serve dg E now rq st)) st"
proof -
  have g: "derives (snd (get_session dg now (bearer_token rq) st)) st" using assms by (rule derives_get)
  show ?thesis
    using g derives_trans [OF derives_touch g] derives_trans [OF derives_ops(1) g]
    by (auto simp: serve_def authenticate_def attach_def Let_def
        split: prod.splits option.splits account_stamp.splits attach_result.splits if_splits)
qed

lemma distinct_get: "distinct (map fst (st_sessions st)) \<Longrightarrow> distinct (map fst (st_sessions (snd (get_session dg now t st))))"
  using exec_op_distinct [of st dg "OpGet now t"] by simp

lemma distinct_touch: "distinct (map fst (st_sessions st)) \<Longrightarrow> distinct (map fst (st_sessions (touch_meta dg now t ip wc ua st)))"
  using exec_op_distinct [of st dg "OpTouch now t ip wc ua"] by simp

lemma distinct_revoke: "distinct (map fst (st_sessions st)) \<Longrightarrow> distinct (map fst (st_sessions (revoke dg t st)))"
  using exec_op_distinct [of st dg "OpRevoke t"] by simp

lemma distinct_revoke_user:
  "distinct (map fst (st_sessions st)) \<Longrightarrow> distinct (map fst (st_sessions (revoke_user dg db uid keep st)))"
  using exec_op_distinct [of st dg "OpRevokeUser db uid keep"] by simp

lemma distinct_restamp: "distinct (map fst (st_sessions st)) \<Longrightarrow> distinct (map fst (st_sessions (restamp dg t stamp st)))"
  using exec_op_distinct [of st dg "OpRestamp t stamp"] by simp

lemma distinct_create:
  "distinct (map fst (st_sessions st)) \<Longrightarrow>
    distinct (map fst (st_sessions (snd (create_session dg now raw u n r db stamp su st))))"
  using exec_op_distinct [of st dg "OpCreate now raw u n r db stamp su"] by simp

lemmas distinct_stores = distinct_get distinct_touch distinct_revoke distinct_revoke_user distinct_restamp distinct_create

lemma distinct_serve:
  assumes "distinct (map fst (st_sessions st))"
  shows "distinct (map fst (st_sessions (snd (serve dg E now rq st))))"
proof -
  have g: "distinct (map fst (st_sessions (snd (get_session dg now (bearer_token rq) st))))" using assms by (rule distinct_get)
  show ?thesis
    using assms g distinct_touch [OF g] distinct_revoke [OF g]
    by (auto simp: serve_def authenticate_def attach_def Let_def
        split: prod.splits option.splits account_stamp.splits attach_result.splits if_splits)
qed

section \<open>The invariant\<close>

text \<open>A session opened for an active account with the role the session has.\<close>

definition genuine_session :: "account_env \<Rightarrow> session \<Rightarrow> bool" where
  "genuine_session E s \<longleftrightarrow> valid_role (s_role s) \<and> (\<exists>hash super. s_stamp s = account_stamp_of E hash (s_role s) True super)"

definition sound_store :: "account_env \<Rightarrow> session_store \<Rightarrow> bool" where
  "sound_store E st \<longleftrightarrow> distinct (map fst (st_sessions st)) \<and> (\<forall>k s. (k, s) \<in> set (st_sessions st) \<longrightarrow> genuine_session E s)"

definition sound_state :: "account_env \<Rightarrow> security_state \<Rightarrow> bool" where
  "sound_state E st \<longleftrightarrow> (\<forall>db. sound_accounts (ss_catalogs st db)) \<and> sound_store E (ss_store st)"

lemma genuine_same: "same_identity s t \<Longrightarrow> genuine_session E t \<Longrightarrow> genuine_session E s"
  by (auto simp: same_identity_def genuine_session_def)

lemma sound_derives:
  "sound_store E st \<Longrightarrow> derives st' st \<Longrightarrow> distinct (map fst (st_sessions st')) \<Longrightarrow> sound_store E st'"
  unfolding sound_store_def derives_def using genuine_same by blast

lemma sound_serve: "sound_store E st \<Longrightarrow> sound_store E (snd (serve dg A now rq st))"
  by (rule sound_derives) (auto simp: sound_store_def intro: derives_serve distinct_serve)

text \<open>A request is served for an account that is there, active and in the role of the session.\<close>

definition current :: "session \<Rightarrow> catalog \<Rightarrow> bool" where
  "current s cat \<longleftrightarrow> (\<exists>u. find_user (s_user_id s) cat = Some u \<and> u_role u = s_role s \<and> row_active u)"

lemma served_current:
  assumes "inj (sv_sha256 E)" and "sound_state E st"
    and "fst (serve dg (stamps_of E st A) now rq (ss_store st)) = Served sess token"
  shows "current sess (ss_catalogs st (s_database sess)) \<and> token = bearer_token rq \<and> token \<noteq> [] \<and> genuine_session E sess \<and>
    (\<exists>s0. map_of (st_sessions (ss_store st)) (dg token) = Some s0 \<and> same_identity sess s0)"
proof -
  from assms(3) obtain s0 where t: "token = bearer_token rq" "token \<noteq> []"
    and s0: "map_of (st_sessions (ss_store st)) (dg token) = Some s0"
    and s: "sess = s0\<lparr>s_last_seen := now, s_expires := now + st_ttl (ss_store st)\<rparr>"
    and stamp: "ae_stamp (stamps_of E st A) (s_database sess) (s_user_id sess) = StampIs (s_stamp sess)"
    unfolding serve_iff by blast
  have same: "same_identity sess s0" by (simp add: s same_identity_def)
  have g: "genuine_session E sess"
    using assms(2) s0 genuine_same [OF same] by (auto simp: sound_state_def sound_store_def dest: map_of_SomeD)
  obtain u where u: "find_user (s_user_id sess) (ss_catalogs st (s_database sess)) = Some u"
    and us: "account_stamp_of E (u_hash u) (u_role u) (row_active u) (coalesce (u_super u) False) = s_stamp sess"
    using stamp by (auto simp: stamps_of_def current_account_stamp_def split: if_splits option.splits)
  have "valid_role (u_role u)"
    using assms(2) find_user_some [OF u] by (auto simp: sound_state_def sound_accounts_def list_all_iff)
  with g us account_stamp_inj [OF assms(1)] have "u_role u = s_role sess \<and> row_active u"
    unfolding genuine_session_def by metis
  with u t s0 same g show ?thesis by (auto simp: current_def)
qed

definition keeps :: "catalog \<Rightarrow> catalog \<Rightarrow> bool" where
  "keeps cat cat' \<longleftrightarrow> (sound_accounts cat \<longrightarrow> sound_accounts cat' \<and> (has_active_owner cat \<longrightarrow> has_active_owner cat'))"

lemma keeps_refl [simp]: "keeps cat cat"
  by (simp add: keeps_def)

lemma keeps_users: "sc_users cat' = sc_users cat \<Longrightarrow> keeps cat cat'"
  by (simp add: keeps_def sound_accounts_def has_active_owner_def)

lemma keeps_services:
  "keeps cat (snd (create_user E hashed uid now failure username password role active cat))"
  "keeps cat (snd (update_user runs hashed now failure uid password role active cat))"
  "keeps cat (snd (set_super_owner runs now failure uid super cat))"
  "keeps cat (snd (setup_user_mfa E runs random now failure uid database cat))"
  "keeps cat (snd (enable_user_mfa E runs now failure uid secret code cat))"
  "keeps cat (snd (disable_user_mfa runs now failure uid cat))"
  "keeps cat (snd (set_user_permissions fresh failure uid perms cat))"
  "keeps cat (snd (set_user_table_permissions E fresh failure uid tperms cat))"
  using create_user_keeps update_user_keeps set_super_owner_keeps mfa_keeps
  by (auto simp: keeps_def set_user_permissions_def set_user_table_permissions_def run_statement_def Let_def
      sound_accounts_def has_active_owner_def split: option.splits)

lemma settle_catalogs [simp]: "ss_catalogs (settle_sessions E dg q sess token uid target password role active st) = ss_catalogs st"
  by (auto simp: settle_sessions_def Let_def split: sum.splits bool.splits)

text \<open>An owner deletes another account than its own, so an active owner stays.\<close>

lemma delete_keeps:
  assumes "current sess cat" and "get_user runs uid cat = Inr target" and "ar_id target \<noteq> s_user_id sess"
    and "\<not> (ar_role target = role_owner \<and> \<not> session_is_owner sess)"
  shows "keeps cat (snd (delete_user failure uid cat))"
  unfolding keeps_def
proof (intro impI conjI)
  assume s: "sound_accounts cat"
  obtain u where u: "find_user uid cat = Some u" "u \<in> set (sc_users cat)" "u_id u = uid" "ar_id target = uid"
    "ar_role target = u_role u"
    using get_user_found [OF assms(2)] by blast
  obtain v where v: "find_user (s_user_id sess) cat = Some v" "u_role v = s_role sess" "row_active v"
    using assms(1) by (auto simp: current_def)
  have cs: "snd (delete_user failure uid cat) = cat \<or> snd (delete_user failure uid cat) = remove_user uid cat"
    by (cases "delete_user failure uid cat") (auto dest: delete_user_cases)
  have "sound_accounts (remove_user uid cat)" using remove_user_keeps [OF s] by blast
  with cs s show "sound_accounts (snd (delete_user failure uid cat))" by metis
  assume own: "has_active_owner cat"
  have "list_ex (\<lambda>w. is_active_owner w \<and> u_id w \<noteq> uid) (sc_users cat)"
  proof (cases "is_active_owner u")
    case True
    then have "session_is_owner sess" using assms(4) u by (auto simp: is_active_owner_def role_owner_def)
    then have "is_active_owner v" using v by (simp add: is_active_owner_def session_is_owner_def role_owner_def)
    then show ?thesis using find_user_some [OF v(1)] assms(3) u by (auto simp: list_ex_iff)
  next
    case False
    obtain w where w: "w \<in> set (sc_users cat)" "is_active_owner w" using own by (auto simp: has_active_owner_def list_ex_iff)
    have "u_id w \<noteq> uid" using sound_same [OF s w(1) u(2)] w(2) u(3) False by auto
    then show ?thesis using w by (auto simp: list_ex_iff)
  qed
  then have "has_active_owner (remove_user uid cat)" using remove_user_keeps [OF s] by blast
  with cs own show "has_active_owner (snd (delete_user failure uid cat))" by metis
qed

lemma keeps_upd: "keeps (ss_catalogs st db) cat \<Longrightarrow> keeps (ss_catalogs st d) (((ss_catalogs st)(db := cat)) d)"
  by simp

lemma keeps_pair:
  "f = (r, cat') \<Longrightarrow> keeps cat (snd f) \<Longrightarrow> keeps cat cat'"
  by simp

lemma run_call_keeps:
  assumes "current sess (ss_catalogs st (s_database sess))"
  shows "keeps (ss_catalogs st db) (ss_catalogs (snd (run_call E dg q sess token call st)) db)"
proof (cases call)
  case (CallDeleteUser uid)
  show ?thesis
    using delete_keeps [OF assms, of "qe_runs q" uid _ "qe_failure q"]
    by (auto simp: CallDeleteUser delete_user_call_def split: sum.splits prod.splits dest!: keeps_pair)
qed (auto simp: logout_def create_user_call_def update_user_call_def set_super_owner_call_def set_permissions_call_def
       set_table_permissions_call_def setup_mfa_call_def enable_mfa_call_def disable_mfa_call_def set_privileges_call_def Let_def
     intro: keeps_services [THEN keeps_pair [rotated]]
     split: option.splits sum.splits prod.splits if_splits)

text \<open>The sessions a request leaves.\<close>

lemma settle_sound:
  assumes "sound_store E (ss_store st)" and "genuine_session E sess"
    and "map_of (st_sessions (ss_store st)) (dg token) = Some s0" "same_identity sess s0"
    and "find_user uid (ss_catalogs st (s_database sess)) = Some u" and "u_role u = role" "valid_role role"
    and "s_user_id sess = ar_id target \<Longrightarrow> role = ar_role target \<Longrightarrow> active \<noteq> Some False \<Longrightarrow>
      row_active u \<and> s_role sess = role"
  shows "sound_store E (ss_store (settle_sessions E dg q sess token uid target password role active st))"
proof -
  let ?keep = "if s_user_id sess = ar_id target \<and> active \<noteq> Some False \<and> role = ar_role target then token else []"
  let ?r = "revoke_user dg (s_database sess) uid ?keep (ss_store st)"
  have r: "sound_store E ?r"
    by (rule sound_derives [OF assms(1)])
       (use assms(1) in \<open>auto simp: sound_store_def intro: derives_ops distinct_revoke_user\<close>)
  have restamped: "sound_store E (restamp dg ?keep (account_stamp_of E (u_hash u) (u_role u) (row_active u) (coalesce (u_super u) False)) ?r)"
    if "?keep \<noteq> []"
  proof -
    let ?stamp = "account_stamp_of E (u_hash u) (u_role u) (row_active u) (coalesce (u_super u) False)"
    have k: "s_user_id sess = ar_id target" "active \<noteq> Some False" "role = ar_role target" "?keep = token"
      using that by (auto split: if_splits)
    have ok: "row_active u" "s_role sess = role" using assms(8) k by auto
    have "genuine_session E s" if "(j, s) \<in> set (st_sessions (restamp dg ?keep ?stamp ?r))" for j s
    proof -
      from that obtain t where t: "(j, t) \<in> set (st_sessions ?r)"
        and s: "s = t \<or> j = dg ?keep \<and> s = t\<lparr>s_stamp := ?stamp\<rparr>"
        by (auto simp: restamp_def change_session_def split: if_splits dest!: set_map_entry)
      have gt: "genuine_session E t" using r t by (auto simp: sound_store_def)
      have "genuine_session E (t\<lparr>s_stamp := ?stamp\<rparr>)" if "j = dg ?keep"
      proof -
        have "(dg token, t) \<in> set (st_sessions (ss_store st))"
          using t that k(4) by (auto simp: revoke_user_def)
        then have "t = s0" using assms(1,3) by (auto simp: sound_store_def dest: map_of_is_SomeI)
        then have "s_role t = role" using assms(4) ok by (simp add: same_identity_def)
        then show ?thesis using assms(6,7) ok(1) by (auto simp: genuine_session_def)
      qed
      then show ?thesis using s gt by blast
    qed
    moreover have "distinct (map fst (st_sessions (restamp dg ?keep ?stamp ?r)))"
      using r by (intro distinct_restamp) (simp add: sound_store_def)
    ultimately show ?thesis by (auto simp: sound_store_def)
  qed
  show ?thesis
    using assms(1) r restamped assms(5)
    by (auto simp: settle_sessions_def Let_def current_account_stamp_def split: bool.splits)
qed

lemma find_map_user:
  "(\<And>u. u_id (f u) = u_id u) \<Longrightarrow> find_user uid (map_user uid f cat) = map_option f (find_user uid cat)"
proof -
  assume f: "\<And>u. u_id (f u) = u_id u"
  have "find (\<lambda>u. u_id u = uid) (map (\<lambda>u. if u_id u = uid then f u else u) us) = map_option f (find (\<lambda>u. u_id u = uid) us)" for us
    by (induction us) (auto simp: f)
  then show ?thesis by (simp add: find_user_def)
qed

lemma update_target:
  assumes "update_user runs hashed now failure uid password role active cat = (Inr (), cat')"
    and "get_user runs uid cat = Inr target" and "role = (if r = [] then ar_role target else r)"
  obtains u u' where "find_user uid cat = Some u" "ar_id target = uid" "ar_role target = u_role u" "valid_role role"
    "find_user uid cat' = Some u'" "u_role u' = role" "row_active u \<Longrightarrow> active \<noteq> Some False \<Longrightarrow> row_active u'"
    "u_hash u' = u_hash u \<and> password = [] \<or> password \<noteq> [] \<and> hashed = Inr (u_hash u')"
proof -
  obtain u hash where u: "find_user uid cat = Some u" "valid_role (if role = [] then u_role u else role)"
    "hash = None \<and> password = [] \<or> (\<exists>h. hash = Some h \<and> password \<noteq> [] \<and> hashed = Inr h)"
    "cat' = map_user uid (updated_row now (if role = [] then u_role u else role) active hash) cat"
    by (rule update_user_ok [OF assms(1)])
  obtain w where w: "find_user uid cat = Some w" "ar_id target = uid" "ar_role target = u_role w"
    using get_user_found [OF assms(2)] by blast
  have r: "(if role = [] then u_role u else role) = role" using assms(3) w u(1) by (auto split: if_splits)
  show thesis
    by (rule that [OF u(1) w(2), of "updated_row now role active hash u"])
       (use u w r in \<open>auto simp: find_map_user row_active_def coalesce_def split: option.splits\<close>)
qed

lemma update_call_sound:
  assumes "sound_store E (ss_store st)" and "genuine_session E sess"
    and "current sess (ss_catalogs st (s_database sess))"
    and "map_of (st_sessions (ss_store st)) (dg token) = Some s0" "same_identity sess s0"
  shows "sound_store E (ss_store (snd (update_user_call E dg q sess token uid body st)))"
proof (cases body)
  case (Some req)
  show ?thesis
  proof (cases "get_user (qe_runs q) uid (ss_catalogs st (s_database sess))")
    case (Inr target)
    let ?role = "if ur_role req = [] then ar_role target else ur_role req"
    obtain r cat where up: "update_user (qe_runs q) (qe_hashed q) (qe_now q) (qe_failure q) uid (ur_password req) ?role
        (ur_active req) (ss_catalogs st (s_database sess)) = (r, cat)" by fastforce
    show ?thesis
    proof (cases r)
      case (Inr x)
      obtain u u' where u: "find_user uid (ss_catalogs st (s_database sess)) = Some u" "ar_id target = uid"
        "ar_role target = u_role u" "valid_role ?role" "find_user uid cat = Some u'" "u_role u' = ?role"
        "row_active u \<Longrightarrow> ur_active req \<noteq> Some False \<Longrightarrow> row_active u'"
        by (rule update_target [of "qe_runs q" "qe_hashed q" "qe_now q" "qe_failure q" uid "ur_password req" ?role
            "ur_active req" "ss_catalogs st (s_database sess)" cat target "ur_role req"])
           (use up Inr \<open>get_user _ _ _ = _\<close> in auto)
      have "sound_store E (ss_store (settle_sessions E dg q sess token uid target (ur_password req) ?role (ur_active req)
          (set_catalog (s_database sess) cat st)))"
      proof (rule settle_sound [where ?s0.0 = s0 and u = u'])
        assume "s_user_id sess = ar_id target" "?role = ar_role target" "ur_active req \<noteq> Some False"
        then show "row_active u' \<and> s_role sess = ?role" using assms(3) u by (auto simp: current_def)
      qed (use assms u in simp_all)
      then show ?thesis using assms(1) Some \<open>get_user _ _ _ = _\<close> Inr up by (simp add: update_user_call_def Let_def)
    qed (use assms(1) Some \<open>get_user _ _ _ = _\<close> up in \<open>simp add: update_user_call_def Let_def\<close>)
  qed (use assms(1) Some in \<open>simp add: update_user_call_def\<close>)
qed (use assms(1) in \<open>simp add: update_user_call_def\<close>)

lemma sound_revokes:
  assumes "sound_store E st"
  shows "sound_store E (revoke dg token st)" "sound_store E (revoke_user dg db uid keep st)"
  using sound_derives [OF assms derives_ops(1)] sound_derives [OF assms derives_ops(2)] assms
  by (simp_all add: sound_store_def distinct_revoke distinct_revoke_user)

lemma run_call_sound:
  assumes "sound_store E (ss_store st)" and "genuine_session E sess"
    and "current sess (ss_catalogs st (s_database sess))"
    and "map_of (st_sessions (ss_store st)) (dg token) = Some s0" "same_identity sess s0"
  shows "sound_store E (ss_store (snd (run_call E dg q sess token call st)))"
proof (cases call)
  case (CallUpdateUser uid body)
  then show ?thesis using assms update_call_sound [where uid = uid and body = body] by simp
qed (use assms(1) in \<open>auto simp: logout_def create_user_call_def set_super_owner_call_def delete_user_call_def
       set_permissions_call_def set_table_permissions_call_def setup_mfa_call_def enable_mfa_call_def disable_mfa_call_def
       set_privileges_call_def Let_def sound_revokes split: option.splits sum.splits prod.splits if_splits\<close>)

text \<open>After the middleware served a request its session is in the store.\<close>

lemma served_stored:
  assumes "serve dg A now rq st = (Served sess token, st')"
  shows "\<exists>s0. map_of (st_sessions st') (dg token) = Some s0 \<and> same_identity sess s0"
proof -
  have f: "fst (serve dg A now rq st) = Served sess token" using assms by simp
  obtain s0 where t: "token = bearer_token rq" "token \<noteq> []" and s0: "map_of (st_sessions st) (dg token) = Some s0"
      "now < s_expires s0" and s: "sess = s0\<lparr>s_last_seen := now, s_expires := now + st_ttl st\<rparr>"
    and st: "ae_driver A (s_database sess)" "ae_stamp A (s_database sess) (s_user_id sess) = StampIs (s_stamp sess)"
    using f unfolding serve_iff by blast
  obtain ip wc ua where m: "client_session_meta A rq = (ip, wc, ua)" by (metis prod_cases3)
  have g: "get_session dg now token st = (Some sess, change_session (dg token) (\<lambda>_. sess) st)"
    using t s0 s by (simp add: get_session_def Let_def)
  have "st' = touch_meta dg now token ip wc ua (change_session (dg token) (\<lambda>_. sess) st)"
    using assms g t st m by (auto simp: serve_def authenticate_def attach_def Let_def split: if_splits)
  then show ?thesis
    using t s0(1) by (auto simp: touch_meta_def map_of_change_session touch_session_def same_identity_def)
qed

lemma request_keeps:
  assumes "inj (sv_sha256 E)" and "sound_state E st"
  shows "sound_state E (snd (security_request E A dg q rq call st)) \<and>
    keeps (ss_catalogs st db) (ss_catalogs (snd (security_request E A dg q rq call st)) db)"
proof -
  obtain r store where sv: "serve dg (stamps_of E st A) (qe_now q) rq (ss_store st) = (r, store)" by fastforce
  have store: "sound_store E store"
    using sound_serve [of E "ss_store st"] assms(2) sv by (metis sound_state_def snd_conv)
  then have base: "sound_state E (st\<lparr>ss_store := store\<rparr>)" using assms(2) by (simp add: sound_state_def)
  show ?thesis
  proof (cases "\<exists>sess token. r = Served sess token \<and> call_guard call sess = GuardPasses")
    case False
    then have "snd (security_request E A dg q rq call st) = st\<lparr>ss_store := store\<rparr>"
      using sv by (cases r) (auto simp: security_request_def Let_def split: guard_response.splits)
    then show ?thesis using base by simp
  next
    case True
    then obtain sess token where r: "r = Served sess token" "call_guard call sess = GuardPasses" by blast
    then have sv: "serve dg (stamps_of E st A) (qe_now q) rq (ss_store st) = (Served sess token, store)" using sv by simp
    have cur: "current sess (ss_catalogs st (s_database sess))" "genuine_session E sess"
      using served_current [OF assms, of dg A "qe_now q" rq sess token] sv by auto
    obtain s0 where s0: "map_of (st_sessions store) (dg token) = Some s0" "same_identity sess s0"
      using served_stored [OF sv] by blast
    have run: "snd (security_request E A dg q rq call st) = snd (run_call E dg q sess token call (st\<lparr>ss_store := store\<rparr>))"
      using sv r(2) by (simp add: security_request_def Let_def)
    have k: "keeps (ss_catalogs st d) (ss_catalogs (snd (run_call E dg q sess token call (st\<lparr>ss_store := store\<rparr>))) d)" for d
      using run_call_keeps [of sess "st\<lparr>ss_store := store\<rparr>" d E dg q token call] cur(1) by simp
    have "sound_store E (ss_store (snd (run_call E dg q sess token call (st\<lparr>ss_store := store\<rparr>))))"
      by (rule run_call_sound [where ?s0.0 = s0]) (use store cur s0 in simp_all)
    then show ?thesis
      using k assms(2) unfolding run sound_state_def keeps_def by blast
  qed
qed

section \<open>Signing in\<close>

lemma look_up_row:
  assumes "look_up runs P cat = Some r"
  shows "\<exists>u. u \<in> set (sc_users cat) \<and> P u \<and> ar_id r = u_id u \<and> ar_username r = u_username u \<and> ar_hash r = u_hash u \<and>
    ar_role r = u_role u \<and> ar_active r = row_active u \<and> (runs_full runs \<longrightarrow> r = full_row u)"
proof -
  obtain u where "find P (sc_users cat) = Some u" and r: "r = full_row u \<or> \<not> runs_full runs \<and> r = legacy_row u"
    using assms by (auto simp: look_up_def split: option.splits if_splits)
  then have "u \<in> set (sc_users cat)" "P u" by (auto simp: find_Some_iff)
  with r show ?thesis by (intro exI [of _ u]) (auto simp: full_row_def legacy_row_def)
qed

lemma sign_in_user:
  assumes "sign_in E runs now username password totp cat = Inr user"
  shows "\<exists>u super. u \<in> set (sc_users cat) \<and> name_matches E (to_lower (sv_uni E) (trim_space username)) u \<and>
    sv_bcrypt E (u_hash u) password \<and> row_active u \<and> au_id user = u_id u \<and>
    au_role user = u_role u \<and> au_stamp user = account_stamp_of E (u_hash u) (u_role u) True super \<and>
    (runs_full runs \<longrightarrow> super = coalesce (u_super u) False)"
proof -
  obtain r where r: "look_up runs (name_matches E (to_lower (sv_uni E) (trim_space username))) cat = Some r"
    and ok: "sv_bcrypt E (ar_hash r) password" "ar_active r"
    and user: "au_id user = ar_id r" "au_role user = ar_role r"
      "au_stamp user = account_stamp_of E (ar_hash r) (ar_role r) (ar_active r) (ar_super r)"
    using assms by (auto simp: sign_in_def Let_def bind_r_def split: if_splits option.splits sum.splits)
  obtain u where u: "u \<in> set (sc_users cat)" "name_matches E (to_lower (sv_uni E) (trim_space username)) u"
    "ar_id r = u_id u" "ar_hash r = u_hash u" "ar_role r = u_role u" "ar_active r = row_active u"
    "runs_full runs \<longrightarrow> r = full_row u"
    using look_up_row [OF r] by blast
  show ?thesis
    by (rule exI [of _ u], rule exI [of _ "ar_super r"]) (use u ok user in \<open>auto simp: full_row_def\<close>)
qed

definition opened_session :: "security_config \<Rightarrow> account_env \<Rightarrow> ('ip, 'net) auth_env \<Rightarrow> request_env \<Rightarrow> string \<Rightarrow> auth_user
    \<Rightarrow> session_store \<Rightarrow> session" where
  "opened_session C E A q db user st =
     \<lparr>s_user_id = au_id user, s_username = au_username user, s_role = au_role user, s_database = db,
      s_super_owner = au_super user \<or> is_seeded_super_owner C (sv_uni E) db (au_username user)
        \<or> is_admin_database_owner C A db (au_role user),
      s_created = qe_now q, s_last_seen = qe_now q, s_expires = qe_now q + st_ttl st,
      s_client_ip = [], s_web_container = [], s_user_agent = [], s_requests = 1, s_stamp = au_stamp user\<rparr>"

definition added_session :: "(string \<Rightarrow> string) \<Rightarrow> int \<Rightarrow> string \<Rightarrow> session \<Rightarrow> session_store \<Rightarrow> session_store" where
  "added_session dg now token sess st =
     (prune_locked now st)\<lparr>st_sessions := AList.update (dg token) sess (st_sessions (prune_locked now st))\<rparr>"

lemma create_session_added:
  "create_session dg (qe_now q) (Some bytes) (au_id user) (au_username user) (au_role user) db (au_stamp user)
      (au_super user \<or> is_seeded_super_owner C (sv_uni E) db (au_username user) \<or> is_admin_database_owner C A db (au_role user)) st =
   (Some (hex_encode bytes, opened_session C E A q db user st),
    added_session dg (qe_now q) (hex_encode bytes) (opened_session C E A q db user st) st)"
  by (simp add: create_session_def opened_session_def added_session_def Let_def prune_locked_def)

lemma open_session_none: "qe_random q = None \<Longrightarrow> open_session C E A dg q db rq user st = (LoginInternal, st)"
  by (simp add: open_session_def create_session_def Let_def)

lemma open_session_some:
  assumes "qe_random q = Some bytes"
  obtains ip wc ua where
    "snd (open_session C E A dg q db rq user st) = st\<lparr>ss_store := touch_meta dg (qe_now q) (hex_encode bytes) ip wc ua
       (added_session dg (qe_now q) (hex_encode bytes) (opened_session C E A q db user (ss_store st)) (ss_store st))\<rparr>"
    "\<And>token s u caps. fst (open_session C E A dg q db rq user st) = SignedIn token s u caps \<Longrightarrow>
       token = hex_encode bytes \<and> s = opened_session C E A q db user (ss_store st) \<and> au_id u = au_id user \<and>
       au_role u = au_role user \<and> au_stamp u = au_stamp user \<and> au_super u = s_super_owner s"
proof -
  obtain ip wc ua where m: "client_session_meta A rq = (ip, wc, ua)" by (metis prod_cases3)
  show thesis
    by (rule that [of ip wc ua])
       (use assms m in \<open>auto simp: open_session_def create_session_added [where C = C and E = E and A = A] Let_def
          opened_session_def split: sum.splits\<close>)
qed

lemma distinct_added:
  "distinct (map fst (st_sessions st)) \<Longrightarrow> distinct (map fst (st_sessions (added_session dg now token sess st)))"
  by (auto simp: added_session_def prune_locked_def distinct_map_filter intro!: distinct_update)

lemma sound_added:
  assumes "sound_store E st" and "genuine_session E sess"
  shows "sound_store E (added_session dg now token sess st)"
  using assms distinct_added [of st dg now token sess]
  by (auto simp: sound_store_def added_session_def prune_locked_def dest!: set_update)

lemma sound_touch: "sound_store E st \<Longrightarrow> sound_store E (touch_meta dg now token ip wc ua st)"
  by (rule sound_derives [OF _ derives_touch]) (simp_all add: sound_store_def distinct_touch)

lemma login_keeps:
  assumes "sound_state E st"
  shows "sound_state E (snd (login_account C E A dg q db lr rq st)) \<and>
    ss_catalogs (snd (login_account C E A dg q db lr rq st)) = ss_catalogs st"
proof -
  let ?key = "login_throttle_key (sv_uni E) A db (lr_username lr) rq"
  let ?s = "sign_in E (qe_runs q) (qe_now q) (lr_username lr) (lr_password lr) (lr_totp lr) (ss_catalogs st db)"
  obtain ok retry th where al: "throttle_allow (qe_now q) ?key (ss_throttle st) = ((ok, retry), th)" by (metis prod.collapse)
  show ?thesis
  proof (cases "ok \<and> (\<exists>user. ?s = Inr user)")
    case False
    then show ?thesis
      using al assms by (auto simp: login_account_def Let_def sound_state_def split: sum.splits prod.splits bool.splits)
  next
    case True
    then obtain user where user: "?s = Inr user" by blast
    let ?st = "st\<lparr>ss_throttle := throttle_succeed ?key th\<rparr>"
    have lg: "login_account C E A dg q db lr rq st = open_session C E A dg q db rq user ?st"
      using al True user by (simp add: login_account_def Let_def)
    obtain u super where u: "u \<in> set (sc_users (ss_catalogs st db))" "au_role user = u_role u"
      "au_stamp user = account_stamp_of E (u_hash u) (u_role u) True super"
      using sign_in_user [OF user] by blast
    have "valid_role (u_role u)"
      using assms u(1) by (auto simp: sound_state_def sound_accounts_def list_all_iff)
    then have g: "genuine_session E (opened_session C E A q db user (ss_store st))"
      using u by (auto simp: genuine_session_def opened_session_def)
    show ?thesis
    proof (cases "qe_random q")
      case None
      then show ?thesis using assms by (simp add: lg open_session_none sound_state_def)
    next
      case (Some bytes)
      then obtain ip wc ua where o: "snd (open_session C E A dg q db rq user ?st) = ?st\<lparr>ss_store := touch_meta dg (qe_now q)
          (hex_encode bytes) ip wc ua (added_session dg (qe_now q) (hex_encode bytes)
            (opened_session C E A q db user (ss_store ?st)) (ss_store ?st))\<rparr>"
        by (rule open_session_some [where C = C and E = E and A = A and dg = dg and db = db and rq = rq and user = user and st = ?st])
      show ?thesis unfolding lg o using assms g by (simp add: sound_state_def sound_touch sound_added)
    qed
  qed
qed

section \<open>Any sequence of requests\<close>

datatype ('ip, 'net) security_event =
    LoginEvent security_config "('ip, 'net) auth_env" request_env string login_request http_request
  | RequestEvent "('ip, 'net) auth_env" request_env http_request security_call

fun security_step :: "account_env \<Rightarrow> (string \<Rightarrow> string) \<Rightarrow> ('ip, 'net) security_event \<Rightarrow> security_state \<Rightarrow> security_state" where
  "security_step E dg (LoginEvent C A q db lr rq) st = snd (login_account C E A dg q db lr rq st)"
| "security_step E dg (RequestEvent A q rq call) st = snd (security_request E A dg q rq call st)"

definition security_run :: "account_env \<Rightarrow> (string \<Rightarrow> string) \<Rightarrow> ('ip, 'net) security_event list \<Rightarrow> security_state
    \<Rightarrow> security_state" where
  "security_run E dg = fold (security_step E dg)"

lemma security_step_keeps:
  assumes "inj (sv_sha256 E)" and "sound_state E st"
  shows "sound_state E (security_step E dg ev st) \<and> keeps (ss_catalogs st db) (ss_catalogs (security_step E dg ev st) db)"
  by (cases ev) (simp_all add: login_keeps [OF assms(2)] request_keeps [OF assms])

lemma security_run_keeps:
  assumes "inj (sv_sha256 E)"
  shows "sound_state E st \<Longrightarrow> has_active_owner (ss_catalogs st db) \<Longrightarrow>
    sound_state E (security_run E dg evs st) \<and> has_active_owner (ss_catalogs (security_run E dg evs st) db)"
proof (induction evs arbitrary: st)
  case (Cons ev evs)
  have "sound_state E (security_step E dg ev st)" "keeps (ss_catalogs st db) (ss_catalogs (security_step E dg ev st) db)"
    using security_step_keeps [OF assms Cons.prems(1)] by auto
  moreover have "sound_accounts (ss_catalogs st db)" using Cons.prems(1) by (simp add: sound_state_def)
  ultimately have "sound_state E (security_run E dg evs (security_step E dg ev st)) \<and>
      has_active_owner (ss_catalogs (security_run E dg evs (security_step E dg ev st)) db)"
    using Cons.prems(2) by (intro Cons.IH) (auto simp: keeps_def)
  then show ?case by (simp add: security_run_def)
qed (simp add: security_run_def)

section \<open>Sessions after a change\<close>

text \<open>Every session of an account is under one digest.\<close>

definition only_under :: "string \<Rightarrow> string \<Rightarrow> string \<Rightarrow> session_store \<Rightarrow> bool" where
  "only_under db uid k st \<longleftrightarrow> (\<forall>j s. (j, s) \<in> set (st_sessions st) \<longrightarrow> owned_by db uid s \<longrightarrow> k = j)"

lemma only_under_derives: "only_under db uid k st \<Longrightarrow> derives st' st \<Longrightarrow> only_under db uid k st'"
  by (fastforce simp: only_under_def derives_def same_identity_def owned_by_def)

lemma only_under_served:
  assumes "only_under db uid k st" and "fst (serve dg A now rq st) = Served s t" and "owned_by db uid s"
  shows "k = dg t"
proof -
  obtain s0 where "map_of (st_sessions st) (dg t) = Some s0" "same_identity s s0"
    using assms(2) unfolding serve_iff by (auto simp: same_identity_def)
  then show ?thesis using assms(1,3) by (auto simp: only_under_def owned_by_def same_identity_def dest!: map_of_SomeD)
qed

lemma only_under_all:
  "only_under db uid k st \<Longrightarrow> distinct (map fst (st_sessions st)) \<Longrightarrow>
   Served s t \<in> set (serve_all (serve dg) rqs st) \<Longrightarrow> owned_by db uid s \<Longrightarrow> k = dg t"
proof (induction rqs arbitrary: st)
  case (Cons x rqs)
  obtain A now rq where x: "x = (A, now, rq)" by (cases x)
  obtain r st1 where a: "serve dg A now rq st = (r, st1)" by fastforce
  have d: "derives st1 st" "distinct (map fst (st_sessions st1))"
    using derives_serve [OF Cons.prems(2), of dg A now rq] distinct_serve [OF Cons.prems(2), of dg A now rq] a by auto
  show ?case
  proof (cases "r = Served s t")
    case True
    then show ?thesis using only_under_served [OF Cons.prems(1) _ Cons.prems(4), of dg A now rq t] a by simp
  next
    case False
    then have "Served s t \<in> set (serve_all (serve dg) rqs st1)" using Cons.prems(3) a x by auto
    then show ?thesis using Cons.IH only_under_derives [OF Cons.prems(1) d(1)] d(2) Cons.prems(4) by blast
  qed
qed simp

lemma only_under_restamp: "only_under db uid k st \<Longrightarrow> only_under db uid k (restamp dg t stamp st)"
  by (auto simp: only_under_def restamp_def change_session_def owned_by_def dest!: set_map_entry)

lemma only_under_revoke: "only_under db uid (keep_digest dg keep) (revoke_user dg db uid keep st)"
  by (auto simp: only_under_def revoke_user_def owned_by_def)

definition kept_token :: "session \<Rightarrow> string \<Rightarrow> account_row \<Rightarrow> string \<Rightarrow> bool option \<Rightarrow> string" where
  "kept_token sess token target role active =
     (if s_user_id sess = ar_id target \<and> active \<noteq> Some False \<and> role = ar_role target then token else [])"

lemma settled_sessions:
  assumes "password \<noteq> [] \<or> role \<noteq> ar_role target \<or> active = Some False"
  shows "only_under (s_database sess) uid (keep_digest dg (kept_token sess token target role active))
    (ss_store (settle_sessions E dg q sess token uid target password role active st))"
proof -
  let ?keep = "kept_token sess token target role active"
  let ?r = "revoke_user dg (s_database sess) uid ?keep (ss_store st)"
  have r: "only_under (s_database sess) uid (keep_digest dg ?keep) ?r" by (rule only_under_revoke)
  show ?thesis
    using assms r unfolding settle_sessions_def Let_def kept_token_def [symmetric]
    by (auto intro!: only_under_restamp split: sum.splits bool.splits)
qed

lemma distinct_settled:
  "distinct (map fst (st_sessions (ss_store st))) \<Longrightarrow>
    distinct (map fst (st_sessions (ss_store (settle_sessions E dg q sess token uid target password role active st))))"
  by (auto simp: settle_sessions_def Let_def distinct_revoke_user intro!: distinct_restamp split: sum.splits bool.splits)

text \<open>What a successful update of an account went through.\<close>

lemma update_request_done:
  assumes "security_request E A dg q rq (CallUpdateUser uid (Some req)) st = (Done, st')"
  obtains sess token store target role cat where
    "serve dg (stamps_of E st A) (qe_now q) rq (ss_store st) = (Served sess token, store)"
    "get_user (qe_runs q) uid (ss_catalogs st (s_database sess)) = Inr target"
    "role = (if ur_role req = [] then ar_role target else ur_role req)"
    "may_update sess target role (ur_active req)"
    "update_user (qe_runs q) (qe_hashed q) (qe_now q) (qe_failure q) uid (ur_password req) role (ur_active req)
       (ss_catalogs st (s_database sess)) = (Inr (), cat)"
    "st' = settle_sessions E dg q sess token uid target (ur_password req) role (ur_active req)
       (set_catalog (s_database sess) cat (st\<lparr>ss_store := store\<rparr>))"
proof -
  obtain r store where sv: "serve dg (stamps_of E st A) (qe_now q) rq (ss_store st) = (r, store)" by fastforce
  then obtain sess token where r: "r = Served sess token"
    using assms by (cases r) (auto simp: security_request_def forbidden_def)
  have run: "update_user_call E dg q sess token uid (Some req) (st\<lparr>ss_store := store\<rparr>) = (Done, st')"
    using assms sv r by (simp add: security_request_def require_session_def)
  then obtain target where t: "get_user (qe_runs q) uid (ss_catalogs st (s_database sess)) = Inr target"
    by (auto simp: update_user_call_def user_not_found_def split: sum.splits)
  let ?role = "if ur_role req = [] then ar_role target else ur_role req"
  obtain x cat where up: "update_user (qe_runs q) (qe_hashed q) (qe_now q) (qe_failure q) uid (ur_password req) ?role
      (ur_active req) (ss_catalogs st (s_database sess)) = (x, cat)" by fastforce
  show thesis
    by (rule that [of sess token store target ?role cat])
       (use sv r t up run in \<open>auto simp: update_user_call_def Let_def forbidden_def split: if_splits sum.splits\<close>)
qed

section \<open>Owners\<close>

definition owners :: "catalog \<Rightarrow> user_row list" where
  "owners cat = filter (\<lambda>u. u_role u = ''owner'') (sc_users cat)"

lemma owners_map:
  assumes "sound_accounts cat" and "find_user uid cat = Some u" and "u_role u \<noteq> ''owner''" and "u_role (f u) \<noteq> ''owner''"
  shows "owners (map_user uid f cat) = owners cat"
proof -
  have "filter (\<lambda>u. u_role u = ''owner'') (map (\<lambda>u. if u_id u = uid then f u else u) us) = filter (\<lambda>u. u_role u = ''owner'') us"
    if "set us \<subseteq> set (sc_users cat)" for us
    using that
  proof (induction us)
    case (Cons w us)
    have "u_id w = uid \<Longrightarrow> w = u"
      using sound_same [OF assms(1), of w u] find_user_some [OF assms(2)] Cons.prems by simp
    then show ?case using Cons assms(3,4) by auto
  qed simp
  then show ?thesis by (simp add: owners_def)
qed

lemma owners_remove:
  assumes "sound_accounts cat" and "find_user uid cat = Some u" and "u_role u \<noteq> ''owner''"
  shows "owners (remove_user uid cat) = owners cat"
  using sound_same [OF assms(1)] find_user_some [OF assms(2)] assms(3)
  by (auto simp: owners_def remove_user_def intro!: filter_cong)

lemma owners_same: "sc_users cat' = sc_users cat \<Longrightarrow> owners cat' = owners cat"
  by (simp add: owners_def)

lemma owners_services:
  assumes "sound_accounts cat" and "get_user runs uid cat = Inr target" and "ar_role target \<noteq> ''owner''"
  shows "owners (snd (delete_user failure uid cat)) = owners cat"
    "owners (snd (setup_user_mfa E runs random now failure uid database cat)) = owners cat"
    "owners (snd (enable_user_mfa E runs now failure uid secret code cat)) = owners cat"
    "owners (snd (disable_user_mfa runs now failure uid cat)) = owners cat"
    "role \<noteq> ''owner'' \<Longrightarrow> owners (snd (update_user runs hashed now failure uid password role active cat)) = owners cat"
proof -
  obtain u where u: "find_user uid cat = Some u" "u_role u \<noteq> ''owner''"
    using get_user_found [OF assms(2)] assms(3) by auto
  note m = owners_map [OF assms(1) u] owners_remove [OF assms(1) u]
  show "owners (snd (delete_user failure uid cat)) = owners cat"
    by (auto simp: delete_user_def run_statement_def m split: option.splits)
  show "owners (snd (setup_user_mfa E runs random now failure uid database cat)) = owners cat"
    using u by (auto simp: setup_user_mfa_def run_statement_def m split: option.splits sum.splits)
  show "owners (snd (enable_user_mfa E runs now failure uid secret code cat)) = owners cat"
    using u by (auto simp: enable_user_mfa_def run_statement_def Let_def m split: option.splits sum.splits)
  show "owners (snd (disable_user_mfa runs now failure uid cat)) = owners cat"
    using u by (auto simp: disable_user_mfa_def run_statement_def m split: option.splits sum.splits)
  assume "role \<noteq> ''owner''"
  with u show "owners (snd (update_user runs hashed now failure uid password role active cat)) = owners cat"
    using update_user_error [of runs hashed now failure uid password role active cat]
    by (cases "role = []"; cases "update_user runs hashed now failure uid password role active cat"; cases "fst (update_user runs hashed now failure uid password role active cat)")
       (auto elim!: update_user_ok simp: m)
qed

lemma owners_pair: "f = (r, cat') \<Longrightarrow> owners (snd f) = owners cat \<Longrightarrow> owners cat' = owners cat"
  by simp

lemma owners_other_services:
  "owners (snd (set_user_permissions fresh failure uid perms cat)) = owners cat"
  "owners (snd (set_user_table_permissions E fresh failure uid tperms cat)) = owners cat"
  "role \<noteq> ''owner'' \<Longrightarrow> owners (snd (create_user E hashed uid now failure username password role active cat)) = owners cat"
  by (auto simp: set_user_permissions_def set_user_table_permissions_def create_user_def run_statement_def Let_def owners_def
      split: option.splits sum.splits)

lemma run_call_owners:
  assumes "current sess (ss_catalogs st (s_database sess))" and "sound_accounts (ss_catalogs st (s_database sess))"
    and "\<not> session_is_owner sess" and "\<not> s_super_owner sess" and "call_guard call sess = GuardPasses"
  shows "owners (ss_catalogs (snd (run_call E dg q sess token call st)) db) = owners (ss_catalogs st db)"
proof -
  let ?cat = "ss_catalogs st (s_database sess)"
  have self: "ar_role t \<noteq> ''owner''" if "get_user runs uid ?cat = Inr t" "s_user_id sess = ar_id t" for runs uid t
    using that(2) get_user_found [OF that(1)] assms(1,3)
    by (auto simp: current_def session_is_owner_def role_owner_def)
  have mfa: "ar_role t \<noteq> ''owner''" if "get_user (qe_runs q) uid ?cat = Inr t" "can_manage_user_mfa q sess uid st = None" for uid t
    using that self [of "qe_runs q" uid t] assms(3)
    by (auto simp: can_manage_user_mfa_def role_owner_def split: if_splits)
  have upd: "ar_role t \<noteq> ''owner'' \<and> role \<noteq> ''owner''"
    if "get_user runs uid ?cat = Inr t" "may_update sess t role active" for runs uid t role active
    using that self [of runs uid t] assms(3) by (auto simp: may_update_def role_owner_def split: if_splits)
  show ?thesis
  proof (cases call)
    case (CallDeleteUser uid)
    show ?thesis
      unfolding CallDeleteUser run_call.simps delete_user_call_def
      using assms(2,3) owners_services(1) [OF assms(2)]
      by (auto simp: role_owner_def split: sum.splits prod.splits dest!: owners_pair)
  next
    case (CallUpdateUser uid body)
    show ?thesis
      unfolding CallUpdateUser run_call.simps update_user_call_def
      using upd owners_services(5) [OF assms(2)]
      by (auto simp: Let_def split: option.splits sum.splits prod.splits dest!: owners_pair)
  next
    case (CallSetupMFA uid)
    show ?thesis
    proof (cases "can_manage_user_mfa q sess uid st")
      case None
      then obtain t where t: "get_user (qe_runs q) uid ?cat = Inr t"
        by (auto simp: can_manage_user_mfa_def split: sum.splits)
      show ?thesis
        using None owners_services(2) [OF assms(2) t mfa [OF t None]]
        by (auto simp: CallSetupMFA setup_mfa_call_def split: option.splits sum.splits prod.splits dest!: owners_pair)
    qed (simp add: CallSetupMFA setup_mfa_call_def)
  next
    case (CallEnableMFA uid body)
    show ?thesis
    proof (cases "can_manage_user_mfa q sess uid st")
      case None
      then obtain t where t: "get_user (qe_runs q) uid ?cat = Inr t"
        by (auto simp: can_manage_user_mfa_def split: sum.splits)
      show ?thesis
        using None owners_services(3) [OF assms(2) t mfa [OF t None]]
        by (auto simp: CallEnableMFA enable_mfa_call_def split: option.splits sum.splits prod.splits dest!: owners_pair)
    qed (simp add: CallEnableMFA enable_mfa_call_def)
  next
    case (CallDisableMFA uid)
    show ?thesis
    proof (cases "can_manage_user_mfa q sess uid st")
      case None
      then obtain t where t: "get_user (qe_runs q) uid ?cat = Inr t"
        by (auto simp: can_manage_user_mfa_def split: sum.splits)
      show ?thesis
        using None owners_services(4) [OF assms(2) t mfa [OF t None]]
        by (auto simp: CallDisableMFA disable_mfa_call_def split: option.splits sum.splits prod.splits dest!: owners_pair)
    qed (simp add: CallDisableMFA disable_mfa_call_def)
  next
    case (CallSetSuperOwner uid body)
    then show ?thesis using assms(4,5) by (simp add: require_super_owner_def)
  next
    case (CallCreateUser body)
    show ?thesis
      unfolding CallCreateUser run_call.simps create_user_call_def
      using assms(3) owners_other_services(3)
      by (auto simp: role_owner_def split: option.splits sum.splits prod.splits if_splits dest!: owners_pair)
  qed (auto simp: logout_def set_permissions_call_def set_table_permissions_call_def set_privileges_call_def Let_def
       intro: owners_other_services [THEN owners_pair [rotated]] split: option.splits sum.splits prod.splits)
qed

end
