(* ===== verification/Security_Properties.thy ===== *)
theory Security_Properties
  imports Security_State
begin

text \<open>
  The properties of accounts and sessions over HTTP, each with an example of a server with an owner
  and an admin. That stamps tell accounts apart is the hypothesis that SHA-256 does not collide.
\<close>

section \<open>Claims\<close>

text \<open>
  C13. A database with an active owner keeps one, through any sequence of sign-ins and requests on
  accounts by any clients (in a sound state; digests without collisions).
\<close>

theorem owner_never_lost:
  assumes "inj (sv_sha256 E)" and "sound_state E st" and "has_active_owner (ss_catalogs st db)"
  shows "has_active_owner (ss_catalogs (security_run E dg evs st) db)"
  using security_run_keeps [OF assms] by blast

text \<open>
  C14. A request that is served as neither an owner's nor a super-owner's session leaves the rows of
  all owners as they are and makes nobody an owner, in every database.
\<close>

theorem owners_out_of_reach:
  assumes "inj (sv_sha256 E)" and "sound_state E st"
    and "fst (serve dg (stamps_of E st A) (qe_now q) rq (ss_store st)) = Served sess token"
    and "\<not> session_is_owner sess" and "\<not> s_super_owner sess"
  shows "owners (ss_catalogs (snd (security_request E A dg q rq call st)) db) = owners (ss_catalogs st db)"
proof -
  obtain store where sv: "serve dg (stamps_of E st A) (qe_now q) rq (ss_store st) = (Served sess token, store)"
    using assms(3) by (metis prod.collapse)
  have cur: "current sess (ss_catalogs st (s_database sess))"
    using served_current [OF assms(1-3)] by blast
  show ?thesis
  proof (cases "call_guard call sess = GuardPasses")
    case True
    have "owners (ss_catalogs (snd (run_call E dg q sess token call (st\<lparr>ss_store := store\<rparr>))) db) = owners (ss_catalogs st db)"
      using run_call_owners [of sess "st\<lparr>ss_store := store\<rparr>" call E dg q token db] cur assms(2,4,5) True
      by (simp add: sound_state_def)
    then show ?thesis using sv True by (simp add: security_request_def Let_def)
  next
    case False
    then show ?thesis using sv by (simp add: security_request_def Let_def split: guard_response.splits)
  qed
qed

text \<open>
  C15. Once a new password, another role or a deactivation of an account has been answered with
  success, no later request is served as a session of that account until it signs in again, with
  any token but the one of the account's own request.
\<close>

theorem changed_account_signed_out:
  assumes "fst (security_request E A dg q rq (CallUpdateUser uid (Some req)) st) = Done"
    and "fst (serve dg (stamps_of E st A) (qe_now q) rq (ss_store st)) = Served sess token"
    and "find_user uid (ss_catalogs st (s_database sess)) = Some u"
    and "ur_password req \<noteq> [] \<or> ur_role req \<noteq> [] \<and> ur_role req \<noteq> u_role u \<or> ur_active req = Some False"
    and "sound_state E st" and "dg t \<noteq> []"
    and "s_user_id sess \<noteq> uid \<or> dg t \<noteq> dg token" and "owned_by (s_database sess) uid s"
  shows "Served s t \<notin> set (serve_all (serve dg) rqs
    (ss_store (snd (security_request E A dg q rq (CallUpdateUser uid (Some req)) st))))"
proof
  let ?st' = "snd (security_request E A dg q rq (CallUpdateUser uid (Some req)) st)"
  assume later: "Served s t \<in> set (serve_all (serve dg) rqs (ss_store ?st'))"
  have "security_request E A dg q rq (CallUpdateUser uid (Some req)) st = (Done, ?st')"
    using assms(1) by (metis prod.collapse)
  then obtain sess' token' store target role cat where
    sv: "serve dg (stamps_of E st A) (qe_now q) rq (ss_store st) = (Served sess' token', store)"
    and tg: "get_user (qe_runs q) uid (ss_catalogs st (s_database sess')) = Inr target"
    and role: "role = (if ur_role req = [] then ar_role target else ur_role req)"
    and st': "?st' = settle_sessions E dg q sess' token' uid target (ur_password req) role (ur_active req)
       (set_catalog (s_database sess') cat (st\<lparr>ss_store := store\<rparr>))"
    by (rule update_request_done)
  have same: "sess' = sess" "token' = token" using assms(2) sv by auto
  have target: "ar_id target = uid" "ar_role target = u_role u"
    using get_user_found [OF tg] assms(3) same by auto
  let ?keep = "kept_token sess token target role (ur_active req)"
  have "only_under (s_database sess) uid (keep_digest dg ?keep) (ss_store ?st')"
    unfolding st' same by (rule settled_sessions) (use assms(4) role target in auto)
  moreover have "distinct (map fst (st_sessions (ss_store ?st')))"
    unfolding st' using distinct_serve [of "ss_store st" dg "stamps_of E st A" "qe_now q" rq] sv assms(5)
    by (intro distinct_settled) (simp add: sound_state_def sound_store_def)
  ultimately have "keep_digest dg ?keep = dg t" using later assms(8) by (rule only_under_all)
  then show False using assms(6,7) target by (auto simp: kept_token_def keep_digest_def split: if_splits)
qed

text \<open>
  C16. Whoever signs in is let in: a request with the token a sign-in returned, before the session's
  time is over, is served as a session of that account, in its role and for the database it
  signed in to, when the database answers and the request names no other.
\<close>

theorem login_then_served:
  assumes "fst (login_account C E A dg q db lr rq st) = SignedIn token sess user caps"
    and "sound_state E st" and "runs_full (qe_runs q)" and "qe_random q = Some bytes" and "bytes \<noteq> []"
    and "bearer_token rq' = token" and "now < qe_now q + st_ttl (ss_store st)"
    and "ae_driver A' db" and "ae_stamp A' db (au_id user) \<noteq> StampUnavailable"
    and "requested_database rq' = [] \<or> ae_equal_fold A' (requested_database rq') db"
  shows "\<exists>s. fst (serve dg (stamps_of E (snd (login_account C E A dg q db lr rq st)) A') now rq'
      (ss_store (snd (login_account C E A dg q db lr rq st)))) = Served s token \<and>
    s_user_id s = au_id user \<and> s_role s = au_role user \<and> s_database s = db \<and> s_super_owner s = au_super user"
proof -
  let ?key = "login_throttle_key (sv_uni E) A db (lr_username lr) rq"
  let ?s = "sign_in E (qe_runs q) (qe_now q) (lr_username lr) (lr_password lr) (lr_totp lr) (ss_catalogs st db)"
  obtain ok retry th where al: "throttle_allow (qe_now q) ?key (ss_throttle st) = ((ok, retry), th)" by (metis prod.collapse)
  obtain user0 where ok: "ok" and user0: "?s = Inr user0"
    using assms(1) al by (auto simp: login_account_def Let_def split: sum.splits prod.splits bool.splits if_splits)
  let ?st = "st\<lparr>ss_throttle := throttle_succeed ?key th\<rparr>"
  have lg: "login_account C E A dg q db lr rq st = open_session C E A dg q db rq user0 ?st"
    using al ok user0 by (simp add: login_account_def Let_def)
  let ?sess = "opened_session C E A q db user0 (ss_store st)"
  obtain ip wc ua where o: "snd (open_session C E A dg q db rq user0 ?st) = ?st\<lparr>ss_store := touch_meta dg (qe_now q)
        (hex_encode bytes) ip wc ua (added_session dg (qe_now q) (hex_encode bytes) ?sess (ss_store ?st))\<rparr>"
    and f: "\<And>token s u caps. fst (open_session C E A dg q db rq user0 ?st) = SignedIn token s u caps \<Longrightarrow>
       token = hex_encode bytes \<and> s = ?sess \<and> au_id u = au_id user0 \<and>
       au_role u = au_role user0 \<and> au_stamp u = au_stamp user0 \<and> au_super u = s_super_owner s"
    using open_session_some [OF assms(4), of C E A dg db rq user0 ?st] by auto
  have tok: "token = hex_encode bytes" and usr: "au_id user = au_id user0" "au_role user = au_role user0"
    "au_super user = s_super_owner ?sess"
    using f assms(1) unfolding lg by metis+
  obtain u where u: "u \<in> set (sc_users (ss_catalogs st db))" "au_id user0 = u_id u" "au_role user0 = u_role u"
    "au_stamp user0 = account_stamp_of E (u_hash u) (u_role u) True (coalesce (u_super u) False)" "row_active u"
    using sign_in_user [OF user0] assms(3) by blast
  have fu: "find_user (u_id u) (ss_catalogs st db) = Some u"
    using assms(2) u(1) sound_find by (auto simp: sound_state_def)
  let ?store = "touch_meta dg (qe_now q) token ip wc ua (added_session dg (qe_now q) token ?sess (ss_store st))"
  let ?t = "touch_session (qe_now q) ip wc ua ?sess"
  have nonempty: "token \<noteq> []" using assms(5) by (cases bytes) (simp_all add: tok)
  then have m: "map_of (st_sessions ?store) (dg token) = Some ?t"
    by (simp add: touch_meta_def map_of_change_session added_session_def AList.update_conv')
  have ttl: "st_ttl ?store = st_ttl (ss_store st)"
    using nonempty by (simp add: touch_meta_def change_session_def added_session_def prune_locked_def)
  have stamp: "ae_stamp (stamps_of E (snd (login_account C E A dg q db lr rq st)) A') db (au_id user0) = StampIs (au_stamp user0)"
    using assms(9) usr u fu unfolding lg o
    by (simp add: stamps_of_def current_account_stamp_def)
  let ?final = "?t\<lparr>s_last_seen := now, s_expires := now + st_ttl (ss_store st)\<rparr>"
  have "fst (serve dg (stamps_of E (snd (login_account C E A dg q db lr rq st)) A') now rq'
      (ss_store (snd (login_account C E A dg q db lr rq st)))) = Served ?final token"
    unfolding serve_iff
    using nonempty m ttl stamp assms(6-8,10) unfolding lg o
    by (auto simp: tok touch_session_def opened_session_def stamps_of_def)
  then show ?thesis using usr by (intro exI [of _ ?final]) (simp add: touch_session_def opened_session_def)
qed

text \<open>
  C22. The second factor is switched on over HTTP only by a request whose field for the secret holds
  six characters: with the base32 secret there and the code in the field for the code, as the
  client sends them, the request fails and changes no account.
\<close>

theorem mfa_enable_refused:
  assumes "length (trimmed_code secret) \<noteq> 6"
  shows "fst (security_request E A dg q rq (CallEnableMFA uid (Some (code, secret))) st) \<noteq> Done \<and>
    ss_catalogs (snd (security_request E A dg q rq (CallEnableMFA uid (Some (code, secret))) st)) = ss_catalogs st"
proof -
  have en: "snd (enable_user_mfa E runs now failure uid code secret cat) = cat \<and>
      (\<exists>e. fst (enable_user_mfa E runs now failure uid code secret cat) = Inl e)" for runs now failure cat
    using assms by (auto simp: enable_user_mfa_def verify_totp_def Let_def split: sum.splits)
  have "fst (enable_mfa_call E q sess uid (Some (code, secret)) st) \<noteq> Done \<and>
      ss_catalogs (snd (enable_mfa_call E q sess uid (Some (code, secret)) st)) = ss_catalogs st" for sess st
  proof (cases "can_manage_user_mfa q sess uid st")
    case None
    obtain e where "enable_user_mfa E (qe_runs q) (qe_now q) (qe_failure q) uid code secret (ss_catalogs st (s_database sess))
        = (Inl e, ss_catalogs st (s_database sess))"
      using en by (metis prod.collapse)
    then show ?thesis using None by (simp add: enable_mfa_call_def)
  next
    case (Some r)
    then show ?thesis
      by (auto simp: enable_mfa_call_def can_manage_user_mfa_def forbidden_def user_not_found_def split: sum.splits if_splits)
  qed
  then show ?thesis
    by (auto simp: security_request_def forbidden_def require_session_def Let_def split: prod.split auth_response.split)
qed

section \<open>A server with two accounts\<close>

definition demo_user :: "string \<Rightarrow> string \<Rightarrow> user_row" where
  "demo_user uid role = \<lparr>u_id = uid, u_username = uid, u_hash = ''h'', u_role = role, u_active = Some True,
     u_mfa = Some False, u_secret = Some [], u_super = Some False, u_created = 0, u_updated = 0\<rparr>"

definition demo_catalog :: catalog where
  "demo_catalog = \<lparr>sc_users = [demo_user ''o'' ''owner'', demo_user ''a'' ''admin''], sc_layout_permissions = [],
     sc_table_permissions = [], sc_layouts = []\<rparr>"

definition demo_accounts :: account_env where
  "demo_accounts = \<lparr>sv_uni = ascii_only, sv_sql_lower = id, sv_same_name = (=), sv_name_less = (\<lambda>_ _. False),
     sv_sha256 = id, sv_bcrypt = (\<lambda>_ _. True), sv_hmac = (\<lambda>_ _. []), sv_path_escape = id, sv_query_escape = id\<rparr>"

definition role_session :: "string \<Rightarrow> string \<Rightarrow> session" where
  "role_session uid role = \<lparr>s_user_id = uid, s_username = uid, s_role = role, s_database = ''d'', s_super_owner = False,
     s_created = 1, s_last_seen = 1, s_expires = 11, s_client_ip = [], s_web_container = [], s_user_agent = [],
     s_requests = 1, s_stamp = account_stamp_of demo_accounts ''h'' role True False\<rparr>"

definition demo_security :: "string \<Rightarrow> string \<Rightarrow> security_state" where
  "demo_security uid role = \<lparr>ss_catalogs = (\<lambda>_. demo_catalog), ss_privileges = (\<lambda>_. []),
     ss_store = \<lparr>st_sessions = [(''d'', role_session uid role)], st_ttl = 10\<rparr>, ss_throttle = new_throttle 0 0 0\<rparr>"

definition demo_request_env :: request_env where
  "demo_request_env = \<lparr>qe_now = 5, qe_hashed = Inr ''g'', qe_fresh = (\<lambda>_. ''n''), qe_random = Some ''r'', qe_failure = None,
     qe_query = None, qe_runs = Runs True True, qe_stamp_read = True\<rparr>"

definition demo_digest :: "string \<Rightarrow> string" where
  "demo_digest t = (if t = ''t'' then ''d'' else ''x'')"

lemma demo_sound: "valid_role role \<Longrightarrow> sound_state demo_accounts (demo_security uid role)"
  by (auto simp: sound_state_def sound_store_def demo_security_def demo_catalog_def sound_accounts_def demo_user_def
      genuine_session_def role_session_def valid_role_def)

lemma demo_inj: "inj (sv_sha256 demo_accounts)"
  by (simp add: demo_accounts_def)

lemma demo_serves:
  assumes "(uid, role) \<in> {(''o'', ''owner''), (''a'', ''admin'')}"
  shows "fst (serve demo_digest (stamps_of demo_accounts (demo_security uid role) (demo_auth_env ''x'')) 5 demo_http
      (ss_store (demo_security uid role))) =
    Served ((role_session uid role)\<lparr>s_last_seen := 5, s_expires := 15\<rparr>) ''t''"
  unfolding serve_iff demo_bearer using assms
  by (auto simp: demo_security_def role_session_def demo_auth_env_def stamps_of_def current_account_stamp_def find_user_def
      demo_catalog_def demo_user_def row_active_def coalesce_def demo_digest_def requested_database_def demo_http_def)

theorem owner_never_lost_witness:
  "has_active_owner (ss_catalogs (security_run demo_accounts demo_digest
     [RequestEvent (demo_auth_env ''x'') demo_request_env demo_http (CallDeleteUser ''o''),
      LoginEvent \<lparr>sh_seeds = [], sh_admin_database = []\<rparr> (demo_auth_env ''x'') demo_request_env ''d''
        \<lparr>lr_username = ''o'', lr_password = ''p'', lr_totp = []\<rparr> demo_http]
     (demo_security ''a'' ''admin'')) ''d'')"
  by (rule owner_never_lost [OF demo_inj demo_sound])
     (simp_all add: valid_role_def demo_security_def has_active_owner_def demo_catalog_def demo_user_def is_active_owner_def
        row_active_def coalesce_def)

theorem owners_out_of_reach_witness:
  "owners (ss_catalogs (snd (security_request demo_accounts (demo_auth_env ''x'') demo_digest demo_request_env demo_http
     (CallDeleteUser ''o'') (demo_security ''a'' ''admin''))) ''d'') = owners (ss_catalogs (demo_security ''a'' ''admin'') ''d'')"
  by (rule owners_out_of_reach [OF demo_inj demo_sound,
        where sess = "(role_session ''a'' ''admin'')\<lparr>s_last_seen := 5, s_expires := 15\<rparr>" and token = "''t''"])
     (simp_all add: valid_role_def demo_serves demo_request_env_def session_is_owner_def role_session_def role_owner_def)

theorem changed_account_signed_out_witness:
  "Served ((role_session ''a'' ''admin'')\<lparr>s_last_seen := 6\<rparr>) ''u'' \<notin> set (serve_all (serve demo_digest)
     [(demo_auth_env ''x'', 6, demo_http)]
     (ss_store (snd (security_request demo_accounts (demo_auth_env ''x'') demo_digest demo_request_env demo_http
        (CallUpdateUser ''a'' (Some \<lparr>ur_password = ''p'', ur_role = [], ur_active = None\<rparr>)) (demo_security ''o'' ''owner'')))))"
proof (rule changed_account_signed_out [where sess = "(role_session ''o'' ''owner'')\<lparr>s_last_seen := 5, s_expires := 15\<rparr>"
      and token = "''t''" and u = "demo_user ''a'' ''admin''"])
  let ?st = "demo_security ''o'' ''owner''"
  show "sound_state demo_accounts ?st" by (rule demo_sound) (simp add: valid_role_def)
  show sv: "fst (serve demo_digest (stamps_of demo_accounts ?st (demo_auth_env ''x'')) (qe_now demo_request_env) demo_http
      (ss_store ?st)) = Served ((role_session ''o'' ''owner'')\<lparr>s_last_seen := 5, s_expires := 15\<rparr>) ''t''"
    using demo_serves [of "''o''" "''owner''"] by (simp add: demo_request_env_def)
  then obtain store where sv: "serve demo_digest (stamps_of demo_accounts ?st (demo_auth_env ''x'')) (qe_now demo_request_env)
      demo_http (ss_store ?st) = (Served ((role_session ''o'' ''owner'')\<lparr>s_last_seen := 5, s_expires := 15\<rparr>) ''t'', store)"
    by (metis prod.collapse)
  show "fst (security_request demo_accounts (demo_auth_env ''x'') demo_digest demo_request_env demo_http
      (CallUpdateUser ''a'' (Some \<lparr>ur_password = ''p'', ur_role = [], ur_active = None\<rparr>)) ?st) = Done"
    unfolding security_request_def sv
    by (simp add: demo_request_env_def require_session_def update_user_call_def role_session_def demo_security_def
        demo_catalog_def demo_user_def get_user_def look_up_def full_row_def may_update_def session_is_owner_def
        role_owner_def update_user_def valid_role_def run_statement_def Let_def)
qed (simp_all add: demo_security_def demo_catalog_def demo_user_def find_user_def role_session_def
       demo_digest_def owned_by_def)

definition demo_http_72 :: http_request where
  "demo_http_72 = demo_http\<lparr>hr_authorization := ''Bearer 72''\<rparr>"

lemma demo_bearer_72: "bearer_token demo_http_72 = ''72''"
proof -
  have "equal_fold ''Bearer '' ''bearer ''"
    by (simp add: equal_fold_def runes_ascii fold_eq_ascii_def rune_lower_def)
  then show ?thesis by (simp add: bearer_token_def demo_http_72_def demo_http_def visible_def Let_def)
qed

definition demo_login :: "login_response \<times> security_state" where
  "demo_login = login_account \<lparr>sh_seeds = [], sh_admin_database = []\<rparr> demo_accounts (demo_auth_env ''x'') demo_digest
     demo_request_env ''d'' \<lparr>lr_username = ''o'', lr_password = ''p'', lr_totp = []\<rparr> demo_http (demo_security ''a'' ''admin'')"

lemma demo_lower: "to_lower ascii_only ''o'' = ''o''"
  by (simp add: to_lower_def runes_ascii rune_lower_def of_runes_def encode_rune_ascii) (simp add: char_of_def bit_iff_odd)

lemma demo_signs_in:
  "sign_in demo_accounts (Runs True True) now ''o'' ''p'' [] demo_catalog = Inr
    \<lparr>au_id = ''o'', au_username = ''o'', au_role = ''owner'', au_active = True, au_mfa = False, au_super = False,
     au_permissions = [], au_table_permissions = [], au_stamp = account_stamp_of demo_accounts ''h'' ''owner'' True False\<rparr>"
  by (simp add: sign_in_def demo_accounts_def demo_lower demo_catalog_def demo_user_def visible_def look_up_def name_matches_def
      full_row_def row_active_def coalesce_def second_factor_def bind_r_def get_user_permissions_def
      get_user_table_permissions_def Let_def)

lemma demo_signed_in: "\<exists>sess user caps. fst demo_login = SignedIn ''72'' sess user caps \<and> au_id user = ''o''"
proof -
  have hex: "hex_digit 7 = CHR ''7''" "hex_digit 2 = CHR ''2''"
    by (simp_all add: hex_digit_def) (simp_all add: char_of_def bit_iff_odd)
  have caps: "capabilities_of None ''owner'' [] = Inr capabilities"
    by (simp add: capabilities_of_def capabilities_def role_allows_def is_capability_def bind_r_def)
  have lg: "demo_login = open_session \<lparr>sh_seeds = [], sh_admin_database = []\<rparr> demo_accounts (demo_auth_env ''x'') demo_digest
      demo_request_env ''d'' demo_http
      \<lparr>au_id = ''o'', au_username = ''o'', au_role = ''owner'', au_active = True, au_mfa = False, au_super = False,
       au_permissions = [], au_table_permissions = [], au_stamp = account_stamp_of demo_accounts ''h'' ''owner'' True False\<rparr>
      (demo_security ''a'' ''admin'')"
    using demo_signs_in [of 5]
    by (simp add: demo_login_def login_account_def Let_def throttle_allow_def throttle_succeed_def demo_security_def new_throttle_def
        demo_request_env_def)
  obtain ip wc ua where m: "client_session_meta (demo_auth_env ''x'') demo_http = (ip, wc, ua)" by (metis prod_cases3)
  show ?thesis
    unfolding lg open_session_def
    by (simp add: create_session_def Let_def m hex caps demo_request_env_def demo_security_def)
qed

theorem login_then_served_witness:
  "\<exists>s. fst (serve demo_digest (stamps_of demo_accounts (snd demo_login) (demo_auth_env ''x'')) 6 demo_http_72
     (ss_store (snd demo_login))) = Served s ''72'' \<and> s_user_id s = ''o''"
proof -
  obtain sess user caps where l: "fst demo_login = SignedIn ''72'' sess user caps" "au_id user = ''o''"
    using demo_signed_in by blast
  have "sound_state demo_accounts (demo_security ''a'' ''admin'')" by (rule demo_sound) (simp add: valid_role_def)
  note served = login_then_served [OF l(1) [unfolded demo_login_def] this, folded demo_login_def, of "''r''" demo_http_72 6
      "demo_auth_env ''x''"]
  have "\<exists>s. fst (serve demo_digest (stamps_of demo_accounts (snd demo_login) (demo_auth_env ''x'')) 6 demo_http_72
     (ss_store (snd demo_login))) = Served s ''72'' \<and> s_user_id s = au_id user \<and> s_role s = au_role user \<and>
     s_database s = ''d'' \<and> s_super_owner s = au_super user"
    by (rule served) (simp_all add: demo_bearer_72, simp_all add: demo_request_env_def demo_security_def demo_auth_env_def
        requested_database_def demo_http_72_def demo_http_def)
  then show ?thesis using l(2) by auto
qed

theorem mfa_enable_refused_witness:
  "fst (security_request demo_accounts (demo_auth_env ''x'') demo_digest demo_request_env demo_http
     (CallEnableMFA ''o'' (Some (''123456'', ''JBSWY3DP''))) (demo_security ''o'' ''owner'')) \<noteq> Done"
  by (rule mfa_enable_refused [THEN conjunct1]) (simp add: trimmed_code_def replace_all_char visible_def)

end
