(* ===== verification/Schema_Tables.thy ===== *)
theory Schema_Tables
  imports Validation
begin

text \<open>
  Tables and their fields: \<open>server/internal/schema/service.go\<close> from \<open>CreateTable\<close> on, the checks of
  formulas in \<open>schema/calculations.go\<close> and of summaries in \<open>schema/summaries.go\<close> and \<open>data/summary.go\<close>.
  The catalog is a record of the rows of \<open>sys_tables\<close>, \<open>sys_columns\<close> and \<open>sys_table_occurrences\<close>, in the
  order they were inserted; its keys and foreign keys are checked. What JSON holds is the record
  \<open>field_env\<close>. An operation comes with a \<open>ddl_run\<close>: the engine's answer to each statement on the table
  itself, the error of its statements on the catalog, fresh identifiers and the clock. Catalog queries
  run. An operation that fails inside its transaction changes nothing, as on PostgreSQL; that a
  statement on the table itself ends the transaction on MariaDB is not modelled.
\<close>

section \<open>The catalog\<close>

record table_row =
  tb_id :: string
  tb_name :: string
  tb_display :: string
  tb_created :: int

record column =
  co_id :: string
  co_table :: string
  co_name :: string
  co_display :: string
  co_type :: field_type
  co_nullable :: bool
  co_primary :: bool
  co_default :: "string option"
  co_formula :: "string option"
  co_rules :: "string option"
  co_created :: int

type_synonym position = "rat \<times> rat"

record occurrence =
  oc_id :: string
  oc_table :: string
  oc_name :: string
  oc_position :: position

record schema_state =
  sm_tables :: "table_row list"
  sm_columns :: "column list"
  sm_occurrences :: "occurrence list"

record field_env =
  fe_calc :: calc_env
  fe_formula :: "string \<Rightarrow> (string \<times> string) option"
  fe_rules :: "string \<Rightarrow> rules option"
  fe_object :: "string \<Rightarrow> bool"
  fe_summary :: "string \<Rightarrow> (string \<times> string) option"
  fe_legacy :: "string \<Rightarrow> (string \<times> string) option"
  fe_dialect :: dialect
  fe_digest :: "string \<Rightarrow> string"
  fe_less :: "string \<Rightarrow> string \<Rightarrow> bool"

record ddl_run =
  dr_engine :: "string \<Rightarrow> string option"
  dr_failure :: "string option"
  dr_fresh :: "nat \<Rightarrow> string"
  dr_now :: int

datatype summary_error =
    NoDefinition
  | NotASummary
  | UnknownSummary string
  | NoSummaryField
  | SummaryOfItself
  | NoFieldNamed string
  | SummaryOfSummary string
  | SummaryNeedsNumber string string

datatype schema_error =
    BadName identifier_error
  | TableTaken string
  | NoStatement
  | EngineFailed string
  | CatalogFailed string
  | CatalogRefused
  | TableNotFound string
  | ColumnNotFound string
  | PrimaryKeyStays
  | OptionsNotAnObject
  | BadRules rules_error
  | NotUnique string
  | BadFormula string calc_fail
  | FormulaReads string string
  | FormulaRing "string list"
  | BadSummary string summary_error
  | DisplayNameEmpty
  | RetypeFailed string
  | CopyFailed string schema_error

definition wrap_schema :: "('e \<Rightarrow> schema_error) \<Rightarrow> 'e + 'a \<Rightarrow> schema_error + 'a" where
  "wrap_schema g r = (case r of Inl e \<Rightarrow> Inl (g e) | Inr x \<Rightarrow> Inr x)"

definition run_ddl :: "ddl_run \<Rightarrow> string \<Rightarrow> schema_error + unit" where
  "run_ddl D q = (case dr_engine D q of Some e \<Rightarrow> Inl (EngineFailed e) | None \<Rightarrow> Inr ())"

definition run_catalog :: "ddl_run \<Rightarrow> schema_error + unit" where
  "run_catalog D = (case dr_failure D of Some e \<Rightarrow> Inl (CatalogFailed e) | None \<Rightarrow> Inr ())"

definition field_unicode :: "field_env \<Rightarrow> unicode" where
  "field_unicode E = env_uni (fe_calc E)"

definition find_table :: "string \<Rightarrow> schema_state \<Rightarrow> schema_error + table_row" where
  "find_table tid st =
     (case find (\<lambda>t. tb_id t = tid) (sm_tables st) of None \<Rightarrow> Inl (TableNotFound tid) | Some t \<Rightarrow> Inr t)"

definition table_name_taken :: "string \<Rightarrow> schema_state \<Rightarrow> bool" where
  "table_name_taken name st = list_ex (\<lambda>t. tb_name t = name) (sm_tables st)"

definition list_columns :: "string \<Rightarrow> schema_state \<Rightarrow> column list" where
  "list_columns tid st = stable_sort (\<lambda>c d. co_created c < co_created d) (filter (\<lambda>c. co_table c = tid) (sm_columns st))"

definition list_tables :: "field_env \<Rightarrow> schema_state \<Rightarrow> (table_row \<times> column list) list" where
  "list_tables E st =
     map (\<lambda>t. (t, list_columns (tb_id t) st))
       (stable_sort (\<lambda>t u. fe_less E (tb_display t) (tb_display u)) (sm_tables st))"

definition validate_field_options :: "field_env \<Rightarrow> string option \<Rightarrow> schema_error + unit" where
  "validate_field_options E options =
     (case options of
        None \<Rightarrow> Inr ()
      | Some s \<Rightarrow> if trim_space s = [] then Inr () else if fe_object E s then Inr () else Inl OptionsNotAnObject)"

section \<open>Formulas\<close>

definition read_calculation :: "field_env \<Rightarrow> string \<Rightarrow> string \<times> result_type" where
  "read_calculation E raw =
     (case fe_formula E raw of
        Some (formula, result) \<Rightarrow>
          if formula \<noteq> [] then (formula, parse_result_type (field_unicode E) result) else (raw, ResultText)
      | None \<Rightarrow> (raw, ResultText))"

definition field_storage_type :: "field_env \<Rightarrow> field_type \<Rightarrow> string option \<Rightarrow> field_type" where
  "field_storage_type E ft formula =
     (if ft \<noteq> FieldCalculation then ft
      else case formula of
        None \<Rightarrow> ft
      | Some raw \<Rightarrow>
          (case snd (read_calculation E raw) of
             ResultNumber \<Rightarrow> FieldNumber
           | ResultDate \<Rightarrow> FieldDate
           | ResultTimestamp \<Rightarrow> FieldTimestamp
           | ResultBoolean \<Rightarrow> FieldBoolean
           | ResultText \<Rightarrow> FieldText))"

text \<open>What the formula of another column reads; a broken one is left out.\<close>

definition column_reads :: "field_env \<Rightarrow> column \<Rightarrow> (string \<times> string list) option" where
  "column_reads E col =
     (case co_formula col of
        None \<Rightarrow> None
      | Some raw \<Rightarrow>
          if co_type col \<noteq> FieldCalculation then None
          else (case parse (fe_calc E) (fst (read_calculation E raw)) of
                  Inl _ \<Rightarrow> None
                | Inr e \<Rightarrow> Some (co_name col, expr_fields e)))"

text \<open>The map of the code; of entries for one name the last one counts.\<close>

definition saved_reads :: "field_env \<Rightarrow> column list \<Rightarrow> string \<Rightarrow> string \<Rightarrow> expr \<Rightarrow> (string \<times> string list) list" where
  "saved_reads E columns cid name e =
     rev ((name, expr_fields e) # List.map_filter (column_reads E)
       (filter (\<lambda>c. \<not> (co_id c = cid \<or> co_name c = name)) columns))"

definition check_calculation :: "field_env \<Rightarrow> column list \<Rightarrow> string \<Rightarrow> string \<Rightarrow> field_type \<Rightarrow> string option
    \<Rightarrow> schema_error + unit" where
  "check_calculation E columns cid name ft formula =
     (if ft \<noteq> FieldCalculation then Inr ()
      else case formula of
        None \<Rightarrow> Inr ()
      | Some raw \<Rightarrow>
          if trim_space raw = [] then Inr ()
          else case parse (fe_calc E) (fst (read_calculation E raw)) of
            Inl f \<Rightarrow> Inl (BadFormula name f)
          | Inr e \<Rightarrow>
              (case find (\<lambda>r. r \<noteq> name \<and> r \<notin> co_name ` set columns) (expr_fields e) of
                 Some r \<Rightarrow> Inl (FormulaReads name r)
               | None \<Rightarrow>
                   (case calc_order (saved_reads E columns cid name e) of
                      Inl (CycleError ring) \<Rightarrow> Inl (FormulaRing ring)
                    | Inl VisitFuel \<Rightarrow> Inl (FormulaRing [])
                    | Inr _ \<Rightarrow> Inr ())))"

section \<open>Summaries\<close>

definition summary_types :: "string list" where
  "summary_types = [''total'', ''average'', ''count'', ''minimum'', ''maximum'', ''standard_deviation'', ''fraction_of_total'']"

definition summary_needs_number :: "string \<Rightarrow> bool" where
  "summary_needs_number t \<longleftrightarrow> t \<in> {''total'', ''average'', ''standard_deviation'', ''fraction_of_total''}"

definition summary_valid :: "string \<Rightarrow> bool" where
  "summary_valid t = list_ex (\<lambda>known. known = t) summary_types"

definition legacy_operation :: "string \<Rightarrow> string" where
  "legacy_operation op =
     (case map_of [(''SUM'', ''total''), (''AVG'', ''average''), (''COUNT'', ''count''), (''MIN'', ''minimum''),
                   (''MAX'', ''maximum''), (''STDDEV'', ''standard_deviation'')] op of
        None \<Rightarrow> [] | Some t \<Rightarrow> t)"

text \<open>The kind of summary and the field; the flag \<open>running\<close> is only passed on to the client.\<close>

definition parse_summary_spec :: "field_env \<Rightarrow> string \<Rightarrow> summary_error + string \<times> string" where
  "parse_summary_spec E stored =
     (let text = trim_space stored; U = field_unicode E
      in if text = [] then Inl NoDefinition
         else case fe_summary E text of
           None \<Rightarrow> Inl NotASummary
         | Some (t, f) \<Rightarrow>
             (let t = to_lower U (trim_space t); f = trim_space f;
                  (t, f) = (if t = [] \<and> f = []
                            then case fe_legacy E text of
                              Some (op, target) \<Rightarrow>
                                if op \<noteq> [] then (legacy_operation (to_upper U (trim_space op)), trim_space target) else (t, f)
                            | None \<Rightarrow> (t, f)
                            else (t, f))
              in if \<not> summary_valid t then Inl (UnknownSummary t)
                 else if f = [] then Inl NoSummaryField
                 else Inr (t, f)))"

definition check_summary_spec :: "string \<times> string \<Rightarrow> (string \<times> field_type) list \<Rightarrow> string \<Rightarrow> summary_error + unit" where
  "check_summary_spec spec types own =
     (case spec of (t, f) \<Rightarrow>
        if \<not> summary_valid t then Inl (UnknownSummary t)
        else if f = own then Inl SummaryOfItself
        else case map_of types f of
          None \<Rightarrow> Inl (NoFieldNamed f)
        | Some ft \<Rightarrow>
            if ft = FieldSummary then Inl (SummaryOfSummary f)
            else if summary_needs_number t \<and> ft \<noteq> FieldNumber then Inl (SummaryNeedsNumber t f)
            else Inr ())"

definition check_summary :: "field_env \<Rightarrow> column list \<Rightarrow> string \<Rightarrow> string \<Rightarrow> field_type \<Rightarrow> string option
    \<Rightarrow> schema_error + unit" where
  "check_summary E columns cid name ft spec =
     (if ft \<noteq> FieldSummary then Inr ()
      else case spec of
        None \<Rightarrow> Inr ()
      | Some s \<Rightarrow>
          if trim_space s = [] then Inr ()
          else wrap_schema (BadSummary name) (bind_r (parse_summary_spec E s) (\<lambda>spec.
            check_summary_spec spec
              (rev (map (\<lambda>c. (co_name c, field_storage_type E (co_type c) (co_formula c)))
                (filter (\<lambda>c. co_id c \<noteq> cid) columns))) name)))"

section \<open>Unique fields\<close>

definition sync_unique_index :: "field_env \<Rightarrow> ddl_run \<Rightarrow> string \<Rightarrow> string \<Rightarrow> field_type \<Rightarrow> rules option
    \<Rightarrow> schema_error + unit" where
  "sync_unique_index E D tbl field ft rs =
     (let q = d_quote (fe_dialect E);
          index = q (unique_index_name (fe_digest E) tbl field);
          wanted = (case rs of None \<Rightarrow> False | Some r \<Rightarrow> ru_unique r);
          blank = (ft \<notin> {FieldNumber, FieldDate, FieldTimestamp, FieldBoolean, FieldContainer})
      in if d_engine (fe_dialect E) = EngineMariaDB
         then (if \<not> wanted then Inr ()
               else let cast = ''CAST('' @ q field @ '' AS CHAR)'';
                        cast = (if blank then ''NULLIF('' @ cast @ '', '' @ [squote, squote] @ '')'' else cast)
                    in case dr_engine D (''ALTER TABLE '' @ q tbl @ '' ADD COLUMN '' @ index @ '' CHAR(64) AS (SHA2('' @ cast
                         @ '', 256)) VIRTUAL, ADD UNIQUE INDEX '' @ index @ '' ('' @ index @ '')'') of
                         Some e \<Rightarrow> Inl (NotUnique field)
                       | None \<Rightarrow> Inr ())
         else if \<not> wanted then run_ddl D (''DROP INDEX IF EXISTS '' @ index)
         else case dr_engine D (''CREATE UNIQUE INDEX IF NOT EXISTS '' @ index @ '' ON '' @ q tbl @ '' ('' @ q field
                @ '') WHERE '' @ q field @ '' IS NOT NULL''
                @ (if blank then '' AND '' @ q field @ '' <> '' @ [squote, squote] else [])) of
                Some e \<Rightarrow> Inl (NotUnique field)
              | None \<Rightarrow> Inr ())"

section \<open>Fields\<close>

definition put_column :: "column \<Rightarrow> schema_state \<Rightarrow> schema_state" where
  "put_column col st = st\<lparr>sm_columns := sm_columns st @ [col]\<rparr>"

text \<open>The keys of \<open>sys_columns\<close>: the identifier, and the name within a table.\<close>

definition column_refused :: "column \<Rightarrow> schema_state \<Rightarrow> bool" where
  "column_refused col st =
     list_ex (\<lambda>c. co_id c = co_id col \<or> co_table c = co_table col \<and> co_name c = co_name col) (sm_columns st)"

definition add_column :: "field_env \<Rightarrow> ddl_run \<Rightarrow> string \<Rightarrow> column \<Rightarrow> schema_state
    \<Rightarrow> schema_error + column \<times> schema_state" where
  "add_column E D tid col st =
     (let name = normalize_identifier (field_unicode E) (co_name col)
      in bind_r (wrap_schema BadName (check_identifier ''column'' name)) (\<lambda>_.
         bind_r (validate_field_options E (co_default col)) (\<lambda>_.
         bind_r (wrap_schema BadRules (parse_rules (fe_rules E) (co_rules col))) (\<lambda>rs.
         bind_r (find_table tid st) (\<lambda>t.
         let col = col\<lparr>co_id := dr_fresh D 0, co_table := tid, co_name := name, co_created := dr_now D\<rparr>;
             columns = list_columns tid st
         in bind_r (check_calculation E columns (co_id col) (co_name col) (co_type col) (co_formula col)) (\<lambda>_.
            bind_r (check_summary E columns (co_id col) (co_name col) (co_type col) (co_formula col)) (\<lambda>_.
            bind_r (run_ddl D (d_add_column (fe_dialect E) (tb_name t)
              \<lparr>cd_name = co_name col, cd_type = field_storage_type E (co_type col) (co_formula col),
               cd_nullable = co_nullable col, cd_primary = False\<rparr>)) (\<lambda>_.
            bind_r (run_catalog D) (\<lambda>_.
            if column_refused col st then Inl CatalogRefused
            else bind_r (sync_unique_index E D (tb_name t) (co_name col) (co_type col) rs) (\<lambda>_.
              Inr (col, put_column col st)))))))))))"

definition delete_column :: "field_env \<Rightarrow> ddl_run \<Rightarrow> string \<Rightarrow> string \<Rightarrow> schema_state \<Rightarrow> schema_error + schema_state" where
  "delete_column E D tid cid st =
     bind_r (find_table tid st) (\<lambda>t.
       case find (\<lambda>c. co_id c = cid \<and> co_table c = tid) (sm_columns st) of
         None \<Rightarrow> Inl (ColumnNotFound cid)
       | Some c \<Rightarrow>
           if co_primary c then Inl PrimaryKeyStays
           else bind_r (run_ddl D (d_drop_column (fe_dialect E) (tb_name t) (co_name c))) (\<lambda>_.
             bind_r (run_catalog D) (\<lambda>_.
               Inr (st\<lparr>sm_columns := filter (\<lambda>c. co_id c \<noteq> cid) (sm_columns st)\<rparr>))))"

record column_options =
  uo_display :: string
  uo_default :: "string option"
  uo_set_default :: bool
  uo_formula :: "string option"
  uo_set_formula :: bool
  uo_rules :: "string option"
  uo_set_rules :: bool

text \<open>The statement that re-types the column, when the new formula is stored differently.\<close>

definition prepare_calculation_change :: "field_env \<Rightarrow> string \<Rightarrow> string \<Rightarrow> string option \<Rightarrow> schema_state
    \<Rightarrow> schema_error + string option" where
  "prepare_calculation_change E tid cid formula st =
     (case find (\<lambda>c. co_id c = cid) (list_columns tid st) of
        None \<Rightarrow> Inl (ColumnNotFound cid)
      | Some c \<Rightarrow>
          bind_r (check_calculation E (list_columns tid st) cid (co_name c) (co_type c) formula) (\<lambda>_.
            if co_type c \<noteq> FieldCalculation then Inr None
            else if field_storage_type E (co_type c) (co_formula c) = field_storage_type E (co_type c) formula then Inr None
            else bind_r (find_table tid st) (\<lambda>t.
              Inr (Some (d_alter_type (fe_dialect E) (tb_name t) (co_name c) (field_storage_type E (co_type c) formula))))))"

definition prepare_summary_change :: "field_env \<Rightarrow> string \<Rightarrow> string \<Rightarrow> string option \<Rightarrow> schema_state
    \<Rightarrow> schema_error + unit" where
  "prepare_summary_change E tid cid spec st =
     (case find (\<lambda>c. co_id c = cid) (list_columns tid st) of
        None \<Rightarrow> Inl (ColumnNotFound cid)
      | Some c \<Rightarrow> check_summary E (list_columns tid st) cid (co_name c) (co_type c) spec)"

definition sync_unique_index_by_id :: "field_env \<Rightarrow> ddl_run \<Rightarrow> string \<Rightarrow> string \<Rightarrow> rules option \<Rightarrow> schema_state
    \<Rightarrow> schema_error + unit" where
  "sync_unique_index_by_id E D tid cid rs st =
     (case (find (\<lambda>c. co_id c = cid \<and> co_table c = tid) (sm_columns st), find_table tid st) of
        (Some c, Inr t) \<Rightarrow> sync_unique_index E D (tb_name t) (co_name c) (co_type c) rs
      | _ \<Rightarrow> Inl (ColumnNotFound cid))"

definition set_options :: "column_options \<Rightarrow> column \<Rightarrow> column" where
  "set_options opts c =
     c\<lparr>co_display := uo_display opts, co_default := (if uo_set_default opts then uo_default opts else co_default c),
       co_formula := (if uo_set_formula opts then uo_formula opts else co_formula c),
       co_rules := (if uo_set_rules opts then uo_rules opts else co_rules c)\<rparr>"

definition store_options :: "string \<Rightarrow> string \<Rightarrow> column_options \<Rightarrow> schema_state \<Rightarrow> schema_state" where
  "store_options tid cid opts st =
     st\<lparr>sm_columns := map (\<lambda>c. if co_id c = cid \<and> co_table c = tid then set_options opts c else c) (sm_columns st)\<rparr>"

text \<open>The row that is read back: PostgreSQL returns the updated one, for MariaDB it is read by its identifier.\<close>

definition stored_column :: "field_env \<Rightarrow> string \<Rightarrow> string \<Rightarrow> schema_state \<Rightarrow> schema_error + column" where
  "stored_column E tid cid st =
     (case find (\<lambda>c. co_id c = cid \<and> (d_engine (fe_dialect E) = EngineMariaDB \<or> co_table c = tid)) (sm_columns st) of
        None \<Rightarrow> Inl (ColumnNotFound cid)
      | Some c \<Rightarrow> Inr c)"

definition update_checks :: "field_env \<Rightarrow> ddl_run \<Rightarrow> string \<Rightarrow> string \<Rightarrow> column_options \<Rightarrow> schema_state
    \<Rightarrow> schema_error + string option" where
  "update_checks E D tid cid opts st =
     bind_r (if uo_set_default opts then validate_field_options E (uo_default opts) else Inr ()) (\<lambda>_.
     bind_r (if uo_set_rules opts
             then bind_r (wrap_schema BadRules (parse_rules (fe_rules E) (uo_rules opts))) (\<lambda>rs.
               sync_unique_index_by_id E D tid cid rs st)
             else Inr ()) (\<lambda>_.
     if uo_set_formula opts
     then bind_r (prepare_calculation_change E tid cid (uo_formula opts) st) (\<lambda>retype.
       bind_r (prepare_summary_change E tid cid (uo_formula opts) st) (\<lambda>_. Inr retype))
     else Inr None))"

definition update_column :: "field_env \<Rightarrow> ddl_run \<Rightarrow> string \<Rightarrow> string \<Rightarrow> column_options \<Rightarrow> schema_state
    \<Rightarrow> (schema_error + column) \<times> schema_state" where
  "update_column E D tid cid opts st =
     (case bind_r (update_checks E D tid cid opts st) (\<lambda>retype. bind_r (run_catalog D) (\<lambda>_. Inr retype)) of
        Inl e \<Rightarrow> (Inl e, st)
      | Inr retype \<Rightarrow>
          (let st = store_options tid cid opts st
           in case stored_column E tid cid st of
                Inl e \<Rightarrow> (Inl e, st)
              | Inr c \<Rightarrow>
                  (case retype of
                     None \<Rightarrow> (Inr c, st)
                   | Some q \<Rightarrow>
                       (case dr_engine D q of
                          Some e \<Rightarrow> (Inl (RetypeFailed e), st)
                        | None \<Rightarrow> (Inr c, st)))))"

section \<open>Tables\<close>

definition occurrence_position :: "nat \<Rightarrow> position" where
  "occurrence_position index = (100 + of_nat (index mod 4) * 320, 100 + of_nat (index div 4) * 420)"

lemma occurrence_position_inj: "inj occurrence_position"
proof (rule injI)
  fix i j
  assume "occurrence_position i = occurrence_position j"
  then have "i mod 4 = j mod 4" "i div 4 = j div 4" by (simp_all add: occurrence_position_def)
  then show "i = j" by (metis div_mult_mod_eq)
qed

function first_free_from :: "position list \<Rightarrow> nat \<Rightarrow> position" where
  "first_free_from taken index =
     (if occurrence_position index \<in> set taken then first_free_from taken (Suc index) else occurrence_position index)"
  by auto
termination
proof (relation "measure (\<lambda>(taken, index). card {j. index \<le> j \<and> occurrence_position j \<in> set taken})")
  fix taken :: "position list" and index
  assume i: "occurrence_position index \<in> set taken"
  have "finite (occurrence_position -` set taken)"
    using occurrence_position_inj by (intro finite_vimageI) auto
  then have "finite {j. index \<le> j \<and> occurrence_position j \<in> set taken}"
    by (rule rev_finite_subset) auto
  moreover have "{j. Suc index \<le> j \<and> occurrence_position j \<in> set taken} \<subset> {j. index \<le> j \<and> occurrence_position j \<in> set taken}"
  proof
    have "index \<in> {j. index \<le> j \<and> occurrence_position j \<in> set taken}" using i by simp
    moreover have "index \<notin> {j. Suc index \<le> j \<and> occurrence_position j \<in> set taken}" by simp
    ultimately show "{j. Suc index \<le> j \<and> occurrence_position j \<in> set taken} \<noteq>
        {j. index \<le> j \<and> occurrence_position j \<in> set taken}" by blast
  qed auto
  ultimately show "((taken, Suc index), taken, index)
      \<in> measure (\<lambda>(taken, index). card {j. index \<le> j \<and> occurrence_position j \<in> set taken})"
    by (simp add: psubset_card_mono)
qed simp

declare first_free_from.simps [simp del]

definition first_free_position :: "position list \<Rightarrow> position" where
  "first_free_position taken = first_free_from taken 0"

definition table_refused :: "table_row \<Rightarrow> column \<Rightarrow> occurrence \<Rightarrow> schema_state \<Rightarrow> bool" where
  "table_refused t c occ st \<longleftrightarrow>
     list_ex (\<lambda>u. tb_id u = tb_id t \<or> tb_name u = tb_name t) (sm_tables st) \<or> column_refused c st \<or>
     list_ex (\<lambda>u. oc_id u = oc_id occ \<or> oc_name u = oc_name occ) (sm_occurrences st)"

definition create_table :: "field_env \<Rightarrow> ddl_run \<Rightarrow> string \<Rightarrow> string \<Rightarrow> schema_state
    \<Rightarrow> schema_error + table_row \<times> schema_state" where
  "create_table E D display custom st =
     (let U = field_unicode E;
          name = normalize_identifier U custom;
          name = (if name = [] then normalize_identifier U (replace_all (trim_space display) '' '' ''_'') else name)
      in bind_r (wrap_schema BadName (check_user_table_name U name)) (\<lambda>_.
         if table_name_taken name st then Inl (TableTaken name)
         else
           let t = \<lparr>tb_id = dr_fresh D 0, tb_name = name, tb_display = display, tb_created = dr_now D\<rparr>;
               pk = \<lparr>co_id = dr_fresh D 2, co_table = tb_id t, co_name = ''id'', co_display = ''ID'', co_type = FieldText,
                     co_nullable = False, co_primary = True, co_default = None, co_formula = None, co_rules = None,
                     co_created = dr_now D\<rparr>;
               occ = \<lparr>oc_id = dr_fresh D 1, oc_table = tb_id t, oc_name = name,
                     oc_position = first_free_position (map oc_position (sm_occurrences st))\<rparr>
           in bind_r (wrap_schema (\<lambda>_. NoStatement) (d_create_table (fe_dialect E)
                \<lparr>td_name = name, td_columns = [\<lparr>cd_name = co_name pk, cd_type = co_type pk, cd_nullable = co_nullable pk,
                   cd_primary = co_primary pk\<rparr>]\<rparr>)) (\<lambda>ddl.
              bind_r (run_ddl D ddl) (\<lambda>_.
              bind_r (run_catalog D) (\<lambda>_.
              if table_refused t pk occ st then Inl CatalogRefused
              else Inr (t, st\<lparr>sm_tables := sm_tables st @ [t], sm_columns := sm_columns st @ [pk],
                sm_occurrences := sm_occurrences st @ [occ]\<rparr>))))))"

definition delete_table :: "field_env \<Rightarrow> ddl_run \<Rightarrow> string \<Rightarrow> schema_state \<Rightarrow> schema_error + schema_state" where
  "delete_table E D tid st =
     bind_r (find_table tid st) (\<lambda>t.
     bind_r (run_ddl D (''DROP TABLE IF EXISTS '' @ d_quote (fe_dialect E) (tb_name t))) (\<lambda>_.
     bind_r (run_catalog D) (\<lambda>_.
       Inr (st\<lparr>sm_tables := filter (\<lambda>t. tb_id t \<noteq> tid) (sm_tables st),
               sm_columns := filter (\<lambda>c. co_table c \<noteq> tid) (sm_columns st),
               sm_occurrences := filter (\<lambda>u. oc_table u \<noteq> tid) (sm_occurrences st)\<rparr>))))"

definition rename_table :: "ddl_run \<Rightarrow> string \<Rightarrow> string \<Rightarrow> schema_state \<Rightarrow> schema_error + schema_state" where
  "rename_table D tid display st =
     (let display = trim_space display
      in if display = [] then Inl DisplayNameEmpty
         else bind_r (run_catalog D) (\<lambda>_. bind_r (find_table tid st) (\<lambda>_.
           Inr (st\<lparr>sm_tables := map (\<lambda>t. if tb_id t = tid then t\<lparr>tb_display := display\<rparr> else t) (sm_tables st)\<rparr>))))"

definition truncate_table :: "field_env \<Rightarrow> ddl_run \<Rightarrow> string \<Rightarrow> schema_state \<Rightarrow> schema_error + unit" where
  "truncate_table E D tid st =
     bind_r (find_table tid st) (\<lambda>t. run_ddl D (''DELETE FROM '' @ d_quote (fe_dialect E) (tb_name t)))"

definition copy_name :: "string \<Rightarrow> string \<Rightarrow> string" where
  "copy_name base suf =
     (let over = length base + length suf - max_identifier_length
      in (if 0 < over then trim_right_char (CHR ''_'') (take (length base - over) base) else base) @ suf)"

text \<open>
  \<open>DuplicateTable\<close>: \<open>millis\<close> is the clock's text. The run of the k-th column starts at the k-th identifier
  after the table's and a moment later.
\<close>

definition later_run :: "nat \<Rightarrow> ddl_run \<Rightarrow> ddl_run" where
  "later_run k D = D\<lparr>dr_fresh := (\<lambda>n. dr_fresh D (k + n)), dr_now := dr_now D + int k\<rparr>"

fun copy_columns :: "field_env \<Rightarrow> ddl_run \<Rightarrow> nat \<Rightarrow> string \<Rightarrow> column list \<Rightarrow> schema_state
    \<Rightarrow> schema_error option \<times> schema_state" where
  "copy_columns E D k tid [] st = (None, st)"
| "copy_columns E D k tid (c # cs) st =
     (if co_primary c then copy_columns E D k tid cs st
      else case add_column E (later_run k D) tid (c\<lparr>co_primary := False\<rparr>) st of
             Inl e \<Rightarrow> (Some (CopyFailed (co_name c) e), st)
           | Inr (_, st) \<Rightarrow> copy_columns E D (Suc k) tid cs st)"

definition duplicate_table :: "field_env \<Rightarrow> ddl_run \<Rightarrow> string \<Rightarrow> string \<Rightarrow> schema_state
    \<Rightarrow> (schema_error + table_row) \<times> schema_state" where
  "duplicate_table E D millis tid st =
     (case find_table tid st of
        Inl e \<Rightarrow> (Inl e, st)
      | Inr t \<Rightarrow>
          (let columns = list_columns tid st
           in case (case create_table E D (tb_display t @ '' (Copy)'') (copy_name (tb_name t) ''_copy'') st of
                      Inr r \<Rightarrow> Inr r
                    | Inl _ \<Rightarrow> create_table E (later_run 3 D) (tb_display t @ '' (Copy '' @ millis @ '')'')
                        (copy_name (tb_name t) (''_copy_'' @ millis)) st) of
                Inl e \<Rightarrow> (Inl e, st)
              | Inr (new, st) \<Rightarrow>
                  (case copy_columns E D 6 (tb_id new) columns st of
                     (None, st) \<Rightarrow> (Inr new, st)
                   | (Some e, st) \<Rightarrow>
                       (case delete_table E D (tb_id new) st of
                          Inl _ \<Rightarrow> (Inl e, st)
                        | Inr st \<Rightarrow> (Inl e, st)))))"

end
