(* ===== verification/Schema_Fields.thy ===== *)
theory Schema_Fields
  imports Schema_Tables
begin

text \<open>
  What the operations of \<open>Schema_Tables\<close> keep of the catalog: the names and identifiers stay distinct and
  the formulas of every table can be put in an order, so that the data service of \<open>Data_Calculations\<close>
  never meets a ring; and a duplicated table is a whole copy or nothing. The calculations of a table are
  read the way \<open>tableCalculations\<close> in \<open>data/calculations.go\<close> queries them.
\<close>

section \<open>Orders and rings\<close>

lemma order_iff_no_ring: "(\<exists>out. calc_order reads = Inr out) \<longleftrightarrow> (\<nexists>c. is_ring (calc_deps reads) c)"
  using calc_order_outcome [of reads] ordered_no_ring [of reads]
  by (cases "calc_order reads") (auto split: order_fail.splits)

lemma dep_path_mono: "(\<And>n. set (deps n) \<subseteq> set (deps' n)) \<Longrightarrow> dep_path deps c \<Longrightarrow> dep_path deps' c"
proof (induction c)
  case (Cons a c)
  then show ?case by (cases c) auto
qed simp

lemma order_mono:
  assumes "\<exists>out. calc_order reads = Inr out" and "\<And>n. set (calc_deps reads' n) \<subseteq> set (calc_deps reads n)"
  shows "\<exists>out. calc_order reads' = Inr out"
  using assms dep_path_mono [of "calc_deps reads'" "calc_deps reads"]
  unfolding order_iff_no_ring is_ring_def by blast

text \<open>Fewer formulas leave fewer dependencies.\<close>

lemma calc_deps_restrict:
  assumes "\<And>n. map_of reads' n = None \<or> map_of reads' n = map_of reads n"
  shows "set (calc_deps reads' n) \<subseteq> set (calc_deps reads n)"
  using assms by (auto simp: calc_deps_def split: option.splits) (metis option.distinct(1) option.inject)+

section \<open>The calculations of a stored table\<close>

text \<open>The rows of the catalog query of \<open>tableCalculations\<close>.\<close>

definition formula_rows :: "column list \<Rightarrow> (string \<times> string) list" where
  "formula_rows columns =
     List.map_filter (\<lambda>c. if co_type c = FieldCalculation then map_option (\<lambda>f. (co_name c, f)) (co_formula c) else None) columns"

definition table_formulas :: "string \<Rightarrow> schema_state \<Rightarrow> (string \<times> string) list" where
  "table_formulas name st =
     formula_rows (filter (\<lambda>c. list_ex (\<lambda>t. tb_id t = co_table c \<and> tb_name t = name) (sm_tables st)) (sm_columns st))"

definition reads_of :: "field_env \<Rightarrow> column list \<Rightarrow> (string \<times> string list) list" where
  "reads_of E columns = rev (List.map_filter (column_reads E) columns)"

lemma parse_stored_read: "parse_stored_calculation (env_uni (fe_calc E)) (fe_formula E) raw = read_calculation E raw"
  unfolding parse_stored_calculation_def read_calculation_def field_unicode_def by (rule refl)

lemma column_reads_row:
  "column_reads E c =
    (if co_type c = FieldCalculation
     then (case co_formula c of None \<Rightarrow> None
           | Some f \<Rightarrow> map_option (\<lambda>(n, x). (n, calc_reads x)) (parse_row (fe_calc E) (fe_formula E) (co_name c, f)))
     else None)"
  by (auto simp: column_reads_def parse_row_def parse_stored_read calc_reads_def split: option.splits sum.splits prod.splits)

lemma reads_of_parsed:
  "map (\<lambda>(n, c). (n, calc_reads c)) (parse_calculations (fe_calc E) (fe_formula E) (formula_rows columns)) = reads_of E columns"
proof -
  have "List.map_filter (column_reads E) columns =
      map (\<lambda>(n, c). (n, calc_reads c)) (List.map_filter (parse_row (fe_calc E) (fe_formula E)) (formula_rows columns))"
    by (induction columns) (auto simp: formula_rows_def map_filter_simps column_reads_row split: option.splits)
  then show ?thesis by (simp add: reads_of_def parse_calculations_def rev_map)
qed

lemma table_calculations_order:
  "(\<exists>out. calc_order (reads_of E columns) = Inr out) \<Longrightarrow>
    \<exists>cs. table_calculations (fe_calc E) (fe_formula E) (formula_rows columns) = Inr cs"
  unfolding table_calculations_def Let_def reads_of_parsed by auto

lemma in_map_filter: "x \<in> set (List.map_filter f ys) \<longleftrightarrow> (\<exists>y\<in>set ys. f y = Some x)"
  by (induction ys) (auto simp: map_filter_simps split: option.splits)

text \<open>With distinct names the order of the columns does not matter.\<close>

lemma map_of_reads:
  assumes "distinct (map co_name columns)"
  shows "map_of (reads_of E columns) n = Some xs \<longleftrightarrow> (\<exists>c\<in>set columns. column_reads E c = Some (n, xs))"
proof -
  have name: "column_reads E c = Some (m, ys) \<Longrightarrow> m = co_name c" for c m ys
    by (auto simp: column_reads_def split: option.splits if_splits sum.splits)
  have "distinct (map fst (List.map_filter (column_reads E) columns)) \<and>
      set (map fst (List.map_filter (column_reads E) columns)) \<subseteq> co_name ` set columns"
    using assms
  proof (induction columns)
    case (Cons a columns)
    then show ?case
    proof (cases "column_reads E a")
      case (Some p)
      then have "fst p = co_name a" using name by (cases p) auto
      then show ?thesis using Cons Some by (auto simp: map_filter_simps)
    qed (auto simp: map_filter_simps)
  qed (simp add: map_filter_simps)
  then have "distinct (map fst (reads_of E columns))" by (simp add: reads_of_def rev_map [symmetric])
  moreover have "(n, xs) \<in> set (reads_of E columns) \<longleftrightarrow> (\<exists>c\<in>set columns. column_reads E c = Some (n, xs))"
    by (simp add: reads_of_def in_map_filter)
  ultimately show ?thesis by (metis map_of_eq_Some_iff)
qed

section \<open>The invariant of the catalog\<close>

definition sound_schema :: "field_env \<Rightarrow> schema_state \<Rightarrow> bool" where
  "sound_schema E st \<longleftrightarrow>
     distinct (map tb_id (sm_tables st)) \<and> distinct (map tb_name (sm_tables st)) \<and> distinct (map co_id (sm_columns st)) \<and>
     (\<forall>tid. distinct (map co_name (filter (\<lambda>c. co_table c = tid) (sm_columns st))) \<and>
        (\<exists>out. calc_order (reads_of E (filter (\<lambda>c. co_table c = tid) (sm_columns st))) = Inr out))"

lemma sound_table_calculations:
  assumes "sound_schema E st"
  shows "\<exists>cs. table_calculations (fe_calc E) (fe_formula E) (table_formulas name st) = Inr cs"
proof (cases "\<exists>t\<in>set (sm_tables st). tb_name t = name")
  case True
  then obtain t where t: "t \<in> set (sm_tables st)" "tb_name t = name" by blast
  have row: "(list_ex (\<lambda>t. tb_id t = co_table c \<and> tb_name t = name) (sm_tables st)) = (co_table c = tb_id t)" for c
    using assms t unfolding sound_schema_def list_ex_iff by (auto simp: distinct_map dest: inj_onD)
  have "table_formulas name st = formula_rows (filter (\<lambda>c. co_table c = tb_id t) (sm_columns st))"
    unfolding table_formulas_def row by (rule refl)
  then show ?thesis using assms table_calculations_order unfolding sound_schema_def by metis
next
  case False
  then have row: "list_ex (\<lambda>t. tb_id t = co_table c \<and> tb_name t = name) (sm_tables st) = False" for c
    by (auto simp: list_ex_iff)
  have "table_formulas name st = []" unfolding table_formulas_def row by (simp add: formula_rows_def map_filter_simps)
  then show ?thesis by (simp add: table_calculations_def parse_calculations_def map_filter_simps)
qed

text \<open>Columns that were taken away, or changed without a formula of their own, leave the order there is.\<close>

lemma order_fewer:
  assumes "distinct (map co_name cs)" "distinct (map co_name cs')" and "\<exists>out. calc_order (reads_of E cs) = Inr out"
    and "\<And>c n xs. c \<in> set cs' \<Longrightarrow> column_reads E c = Some (n, xs) \<Longrightarrow> \<exists>d\<in>set cs. column_reads E d = Some (n, xs)"
  shows "\<exists>out. calc_order (reads_of E cs') = Inr out"
proof (rule order_mono [OF assms(3)], rule calc_deps_restrict)
  fix n
  show "map_of (reads_of E cs') n = None \<or> map_of (reads_of E cs') n = map_of (reads_of E cs) n"
  proof (cases "map_of (reads_of E cs') n")
    case (Some xs)
    then have "map_of (reads_of E cs) n = Some xs" using assms(4) unfolding map_of_reads [OF assms(1)] map_of_reads [OF assms(2)] by blast
    then show ?thesis using Some by simp
  qed simp
qed

text \<open>A formula that was checked against the columns joins them.\<close>

lemma order_checked:
  assumes blank: "\<And>s. trim_space s = [] \<Longrightarrow> fe_formula E s = None"
    and check: "check_calculation E columns cid (co_name c) (co_type c) (co_formula c) = Inr ()"
    and cols: "set columns = set cs" "distinct (map co_name cs)" "distinct (map co_name columns)"
      "distinct (map co_name cs')" "set cs' = insert c {d \<in> set cs. co_id d \<noteq> cid}"
    and old: "\<exists>out. calc_order (reads_of E cs) = Inr out"
  shows "\<exists>out. calc_order (reads_of E cs') = Inr out"
proof (cases "column_reads E c")
  case None
  show ?thesis
    by (rule order_fewer [OF cols(2,4) old]) (use None cols(5) in auto)
next
  case (Some p)
  then obtain raw e where c: "co_type c = FieldCalculation" "co_formula c = Some raw"
      "parse (fe_calc E) (fst (read_calculation E raw)) = Inr e" "p = (co_name c, expr_fields e)"
    by (auto simp: column_reads_def split: option.splits if_splits sum.splits)
  have "trim_space raw \<noteq> []"
  proof
    assume b: "trim_space raw = []"
    then have "fst (read_calculation E raw) = raw" using blank by (simp add: read_calculation_def)
    then show False using c(3) b by (simp add: parse_def)
  qed
  then have "\<exists>out. calc_order (saved_reads E columns cid (co_name c) e) = Inr out"
    using check c by (auto simp: check_calculation_def split: option.splits sum.splits order_fail.splits)
  then show ?thesis
  proof (rule order_mono, intro calc_deps_restrict)
    fix n
    let ?others = "filter (\<lambda>d. \<not> (co_id d = cid \<or> co_name d = co_name c)) columns"
    have saved: "map_of (saved_reads E columns cid (co_name c) e) n =
        (case map_of (reads_of E ?others) n of Some xs \<Rightarrow> Some xs | None \<Rightarrow> if n = co_name c then Some (expr_fields e) else None)"
      by (simp add: saved_reads_def reads_of_def map_add_def split: option.split)
    have oth: "map_of (reads_of E ?others) n = Some xs \<longleftrightarrow> (\<exists>d\<in>set ?others. column_reads E d = Some (n, xs))" for xs
      by (rule map_of_reads) (simp add: distinct_map_filter cols(3))
    show "map_of (reads_of E cs') n = None \<or> map_of (reads_of E cs') n = map_of (saved_reads E columns cid (co_name c) e) n"
    proof (cases "map_of (reads_of E cs') n")
      case (Some xs)
      then obtain d where d: "d \<in> set cs'" "column_reads E d = Some (n, xs)" unfolding map_of_reads [OF cols(4)] by blast
      have dn: "n = co_name d" using d(2) by (auto simp: column_reads_def split: option.splits if_splits sum.splits)
      show ?thesis
      proof (cases "d = c")
        case True
        then have x: "n = co_name c" "xs = expr_fields e" using d(2) \<open>column_reads E c = Some p\<close> c(4) by auto
        have "map_of (reads_of E ?others) n = None"
        proof (rule ccontr)
          assume "map_of (reads_of E ?others) n \<noteq> None"
          then obtain ys where "map_of (reads_of E ?others) n = Some ys" by blast
          then obtain d' where "d' \<in> set ?others" "column_reads E d' = Some (n, ys)" unfolding oth by blast
          then show False using x by (auto simp: column_reads_def split: option.splits if_splits sum.splits)
        qed
        then show ?thesis using saved x Some by simp
      next
        case False
        then have "d \<in> set columns" "co_id d \<noteq> cid" using d(1) cols(1,5) by auto
        moreover have "co_name d \<noteq> co_name c"
        proof
          assume "co_name d = co_name c"
          then have "d = c" using cols(4,5) d(1) inj_onD [of co_name "set cs'" d c] by (simp add: distinct_map)
          then show False using False by simp
        qed
        ultimately have "map_of (reads_of E ?others) n = Some xs" using d(2) unfolding oth by auto
        then show ?thesis using saved Some by simp
      qed
    qed simp
  qed
qed

text \<open>One column, and all columns, of a table.\<close>

abbreviation columns_of :: "string \<Rightarrow> schema_state \<Rightarrow> column list" where
  "columns_of tid st \<equiv> filter (\<lambda>c. co_table c = tid) (sm_columns st)"

lemma set_list_columns [simp]: "set (list_columns tid st) = set (columns_of tid st)"
  by (simp add: list_columns_def)

lemma distinct_list_columns [simp]:
  "distinct (map co_name (list_columns tid st)) \<longleftrightarrow> distinct (map co_name (columns_of tid st))"
  by (simp add: list_columns_def distinct_map)

lemma sound_schemaD:
  assumes "sound_schema E st"
  shows "distinct (map tb_id (sm_tables st))" "distinct (map tb_name (sm_tables st))" "distinct (map co_id (sm_columns st))"
    "distinct (map co_name (columns_of tid st))" "\<exists>out. calc_order (reads_of E (columns_of tid st)) = Inr out"
  using assms unfolding sound_schema_def by blast+

lemma sound_tables:
  "sound_schema E st \<Longrightarrow> distinct (map tb_id ts) \<Longrightarrow> distinct (map tb_name ts) \<Longrightarrow> sound_schema E (st\<lparr>sm_tables := ts\<rparr>)"
  unfolding sound_schema_def by simp

lemma sound_schema_same:
  "sound_schema E st \<Longrightarrow> sm_tables st' = sm_tables st \<Longrightarrow> sm_columns st' = sm_columns st \<Longrightarrow> sound_schema E st'"
  unfolding sound_schema_def by simp

text \<open>Fewer columns.\<close>

lemma sound_filter:
  assumes "sound_schema E st"
  shows "sound_schema E (st\<lparr>sm_columns := filter P (sm_columns st)\<rparr>)"
proof -
  have eq: "filter (\<lambda>c. co_table c = tid) (filter P (sm_columns st)) = filter P (columns_of tid st)" for tid
    by (simp add: conj_commute)
  have "distinct (map co_name (filter P (columns_of tid st)))" for tid
    using sound_schemaD(4) [OF assms] by (rule distinct_map_filter)
  moreover have "\<exists>out. calc_order (reads_of E (filter P (columns_of tid st))) = Inr out" for tid
    by (rule order_fewer [OF sound_schemaD(4) [OF assms, of tid] calculation sound_schemaD(5) [OF assms, of tid]]) auto
  ultimately show ?thesis using sound_schemaD(1-3) [OF assms]
    unfolding sound_schema_def by (simp add: eq distinct_map_filter del: filter_filter)
qed

text \<open>A column that its checks let in.\<close>

lemma sound_put:
  assumes blank: "\<And>s. trim_space s = [] \<Longrightarrow> fe_formula E s = None"
    and sound: "sound_schema E st" and new: "\<not> column_refused c st"
    and check: "check_calculation E (list_columns (co_table c) st) (co_id c) (co_name c) (co_type c) (co_formula c) = Inr ()"
  shows "sound_schema E (put_column c st)"
proof -
  have fresh: "d \<in> set (sm_columns st) \<Longrightarrow> co_id d \<noteq> co_id c \<and> (co_table d = co_table c \<longrightarrow> co_name c \<noteq> co_name d)" for d
    using new by (auto simp: column_refused_def list_ex_iff)
  have names: "distinct (map co_name (columns_of tid st @ (if co_table c = tid then [c] else [])))" for tid
    using sound_schemaD(4) [OF sound, of tid] fresh by fastforce
  have "\<exists>out. calc_order (reads_of E (columns_of tid st @ (if co_table c = tid then [c] else []))) = Inr out" for tid
  proof (cases "co_table c = tid")
    case True
    show ?thesis
      by (rule order_checked [OF blank check, where cs = "columns_of tid st"])
        (use True fresh names [of tid] sound_schemaD(4,5) [OF sound, of tid] in \<open>auto\<close>)
  qed (use sound_schemaD(5) [OF sound] in simp)
  moreover have "columns_of tid (put_column c st) = columns_of tid st @ (if co_table c = tid then [c] else [])" for tid
    by (simp add: put_column_def)
  moreover have "distinct (map co_id (sm_columns (put_column c st)))"
    using sound_schemaD(3) [OF sound] fresh by (auto simp: put_column_def dest: sym)
  ultimately show ?thesis using names sound_schemaD(1-2) [OF sound]
    unfolding sound_schema_def by (simp add: put_column_def)
qed

text \<open>A stored column whose options are replaced.\<close>

lemma set_options_simps [simp]:
  "co_id (set_options opts c) = co_id c" "co_table (set_options opts c) = co_table c"
  "co_name (set_options opts c) = co_name c" "co_type (set_options opts c) = co_type c"
  "co_formula (set_options opts c) = (if uo_set_formula opts then uo_formula opts else co_formula c)"
  by (simp_all add: set_options_def)

lemma sound_store:
  assumes blank: "\<And>s. trim_space s = [] \<Longrightarrow> fe_formula E s = None"
    and sound: "sound_schema E st"
    and check: "\<And>c. uo_set_formula opts \<Longrightarrow> c \<in> set (columns_of tid st) \<Longrightarrow> co_id c = cid \<Longrightarrow>
      check_calculation E (list_columns tid st) cid (co_name c) (co_type c) (uo_formula opts) = Inr ()"
  shows "sound_schema E (store_options tid cid opts st)"
proof -
  let ?f = "\<lambda>c. if co_id c = cid \<and> co_table c = tid then set_options opts c else c"
  have eq: "columns_of t (store_options tid cid opts st) = map ?f (columns_of t st)" for t
  proof -
    have "(\<lambda>c. co_table c = t) \<circ> ?f = (\<lambda>c. co_table c = t)" by (rule ext) simp
    then show ?thesis unfolding store_options_def by (simp add: filter_map)
  qed
  have same: "map g (map ?f xs) = map g xs" if "\<And>c. g (set_options opts c) = g c" for g :: "column \<Rightarrow> string" and xs
    using that by simp
  have names: "distinct (map co_name (map ?f (columns_of t st)))" for t
    using sound_schemaD(4) [OF sound, of t] by (subst same) simp_all
  have "\<exists>out. calc_order (reads_of E (map ?f (columns_of t st))) = Inr out" for t
  proof (cases "uo_set_formula opts \<and> t = tid \<and> (\<exists>c\<in>set (columns_of tid st). co_id c = cid)")
    case True
    then obtain c where c: "c \<in> set (columns_of tid st)" "co_id c = cid" "t = tid" "uo_set_formula opts" by blast
    have only: "d \<in> set (columns_of tid st) \<Longrightarrow> co_id d = cid \<Longrightarrow> d = c" for d
      using c sound_schemaD(3) [OF sound] by (auto simp: distinct_map dest: inj_onD)
    have "set (map ?f (columns_of t st)) = insert (set_options opts c) {d \<in> set (columns_of tid st). co_id d \<noteq> cid}"
      (is "?new = ?rest")
    proof (rule set_eqI)
      fix d
      have "d \<in> ?new \<longleftrightarrow> (\<exists>b\<in>set (columns_of tid st). d = ?f b)" unfolding c(3) set_map by blast
      also have "\<dots> \<longleftrightarrow> d = ?f c \<or> (\<exists>b\<in>set (columns_of tid st). co_id b \<noteq> cid \<and> d = ?f b)"
        using c(1,2) only by blast
      also have "\<dots> \<longleftrightarrow> d \<in> ?rest" using c(1,2) by auto
      finally show "d \<in> ?new \<longleftrightarrow> d \<in> ?rest" .
    qed
    moreover have "check_calculation E (list_columns tid st) cid (co_name (set_options opts c)) (co_type (set_options opts c))
        (co_formula (set_options opts c)) = Inr ()"
      using check [OF c(4,1,2)] c(4) by simp
    moreover note names [of t] sound_schemaD(4,5) [OF sound, of tid]
    ultimately show ?thesis
      by - (rule order_checked [OF blank, where c = "set_options opts c" and cid = cid and columns = "list_columns tid st"
            and cs = "columns_of tid st"], simp_all only: set_list_columns distinct_list_columns)
  next
    case False
    have "column_reads E (?f c) = column_reads E c" if "c \<in> set (columns_of t st)" for c
      using that False by (auto simp: column_reads_def split: option.split sum.split)
    then have reads: "c \<in> set (columns_of t st) \<Longrightarrow> column_reads E (?f c) = column_reads E c" for c .
    show ?thesis
    proof (rule order_fewer [OF sound_schemaD(4) [OF sound, of t] names sound_schemaD(5) [OF sound, of t]])
      fix c n xs
      assume "c \<in> set (map ?f (columns_of t st))" and c: "column_reads E c = Some (n, xs)"
      then obtain d where d: "d \<in> set (columns_of t st)" "c = ?f d" unfolding set_map by blast
      have "column_reads E d = Some (n, xs)" by (rule trans [OF reads [OF d(1), symmetric] c [unfolded d(2)]])
      then show "\<exists>d\<in>set (columns_of t st). column_reads E d = Some (n, xs)" using d(1) by blast
    qed
  qed
  moreover have "distinct (map co_id (sm_columns (store_options tid cid opts st)))"
  proof -
    have "distinct (map co_id (map ?f (sm_columns st)))" using sound_schemaD(3) [OF sound] by (subst same) simp_all
    then show ?thesis unfolding store_options_def by (simp del: map_map)
  qed
  ultimately show ?thesis using names sound_schemaD(1-2) [OF sound] unfolding sound_schema_def eq
    by (simp add: store_options_def)
qed

section \<open>The operations\<close>

lemma wrap_schema_Inr [simp]: "wrap_schema g r = Inr x \<longleftrightarrow> r = Inr x"
  by (cases r) (simp_all add: wrap_schema_def)

lemma add_column_sound:
  assumes blank: "\<And>s. trim_space s = [] \<Longrightarrow> fe_formula E s = None"
    and sound: "sound_schema E st" and run: "add_column E D tid col st = Inr (c, st')"
  shows "sound_schema E st'"
proof -
  have "st' = put_column c st" "\<not> column_refused c st" "co_table c = tid"
      "check_calculation E (list_columns tid st) (co_id c) (co_name c) (co_type c) (co_formula c) = Inr ()"
    using run by (auto simp: add_column_def Let_def bind_r_Inr_iff split: if_splits)
  then show ?thesis using sound_put [OF blank sound] by simp
qed

lemma delete_column_sound: "sound_schema E st \<Longrightarrow> delete_column E D tid cid st = Inr st' \<Longrightarrow> sound_schema E st'"
  using sound_filter [of E st] by (auto simp: delete_column_def bind_r_Inr_iff split: option.splits if_splits)

lemma delete_table_sound: "sound_schema E st \<Longrightarrow> delete_table E D tid st = Inr st' \<Longrightarrow> sound_schema E st'"
proof -
  assume sound: "sound_schema E st" and run: "delete_table E D tid st = Inr st'"
  have "sound_schema E (st\<lparr>sm_columns := filter (\<lambda>c. co_table c \<noteq> tid) (sm_columns st)\<rparr>
      \<lparr>sm_tables := filter (\<lambda>t. tb_id t \<noteq> tid) (sm_tables st)\<rparr>)"
    by (intro sound_tables sound_filter sound) (use sound_schemaD(1,2) [OF sound] in \<open>simp_all add: distinct_map_filter\<close>)
  then show ?thesis by (rule sound_schema_same) (use run in \<open>auto simp: delete_table_def bind_r_Inr_iff\<close>)
qed

lemma rename_table_sound: "sound_schema E st \<Longrightarrow> rename_table D tid display st = Inr st' \<Longrightarrow> sound_schema E st'"
proof -
  assume sound: "sound_schema E st" and run: "rename_table D tid display st = Inr st'"
  have same: "map g (map (\<lambda>t. if tb_id t = tid then t\<lparr>tb_display := d\<rparr> else t) ts) = map g ts"
    if "\<And>t. g (t\<lparr>tb_display := d\<rparr>) = g t" for g :: "table_row \<Rightarrow> string" and d ts
    using that by simp
  have "sound_schema E (st\<lparr>sm_tables := map (\<lambda>t. if tb_id t = tid then t\<lparr>tb_display := d\<rparr> else t) (sm_tables st)\<rparr>)" for d
    by (intro sound_tables sound) (use sound_schemaD(1,2) [OF sound] in \<open>(subst same; simp)+\<close>)
  then show ?thesis using run by (auto simp: rename_table_def Let_def bind_r_Inr_iff split: if_splits)
qed

text \<open>What a created table adds to the catalog.\<close>

definition created :: "ddl_run \<Rightarrow> table_row \<Rightarrow> column \<Rightarrow> occurrence \<Rightarrow> schema_state \<Rightarrow> schema_state \<Rightarrow> bool" where
  "created D t pk occ st st' \<longleftrightarrow>
     st' = st\<lparr>sm_tables := sm_tables st @ [t], sm_columns := sm_columns st @ [pk],
       sm_occurrences := sm_occurrences st @ [occ]\<rparr> \<and>
     \<not> table_refused t pk occ st \<and> run_catalog D = Inr () \<and> co_table pk = tb_id t \<and> oc_table occ = tb_id t \<and>
     oc_position occ = first_free_position (map oc_position (sm_occurrences st)) \<and>
     co_name pk = ''id'' \<and> co_display pk = ''ID'' \<and> co_type pk = FieldText \<and> \<not> co_nullable pk \<and> co_default pk = None \<and>
     co_formula pk = None \<and> co_rules pk = None"

lemma created_parts:
  assumes "create_table E D display custom st = Inr (t, st')"
  shows "\<exists>pk occ. created D t pk occ st st'"
proof -
  have "created D t (last (sm_columns st')) (last (sm_occurrences st')) st st'"
    using assms unfolding create_table_def Let_def bind_r_Inr_iff
    by (elim exE conjE, simp only: split: if_splits)
      (auto simp: bind_r_Inr_iff created_def split: if_splits)
  then show ?thesis by blast
qed

lemma create_table_sound:
  assumes blank: "\<And>s. trim_space s = [] \<Longrightarrow> fe_formula E s = None"
    and sound: "sound_schema E st" and run: "create_table E D display custom st = Inr (t, st')"
  shows "sound_schema E st'"
proof -
  obtain pk occ where st': "sm_tables st' = sm_tables st @ [t]" "sm_columns st' = sm_columns st @ [pk]"
      and new: "\<not> table_refused t pk occ st" and pk: "co_type pk = FieldText"
    using created_parts [OF run] unfolding created_def by auto
  have "check_calculation E (list_columns (co_table pk) st) (co_id pk) (co_name pk) (co_type pk) (co_formula pk) = Inr ()"
    by (simp add: check_calculation_def pk)
  then have "sound_schema E (put_column pk st)"
    using new by (intro sound_put blank sound) (simp_all add: table_refused_def)
  then have "sound_schema E (put_column pk st\<lparr>sm_tables := sm_tables st @ [t]\<rparr>)"
    by (rule sound_tables)
      (use new sound_schemaD(1,2) [OF sound] in \<open>auto simp: table_refused_def list_ex_iff image_iff\<close>)
  then show ?thesis by (rule sound_schema_same) (simp_all add: st' put_column_def)
qed

lemma copy_columns_sound:
  assumes blank: "\<And>s. trim_space s = [] \<Longrightarrow> fe_formula E s = None"
  shows "sound_schema E st \<Longrightarrow> sound_schema E (snd (copy_columns E D k tid cs st))"
proof (induction cs arbitrary: k st)
  case (Cons c cs)
  then show ?case using add_column_sound [OF blank] by (auto split: sum.split prod.split)
qed simp

lemma duplicate_table_sound:
  assumes blank: "\<And>s. trim_space s = [] \<Longrightarrow> fe_formula E s = None" and sound: "sound_schema E st"
  shows "sound_schema E (snd (duplicate_table E D millis tid st))"
proof -
  let ?made = "\<lambda>t. case create_table E D (tb_display t @ '' (Copy)'') (copy_name (tb_name t) ''_copy'') st of
      Inr r \<Rightarrow> Inr r
    | Inl _ \<Rightarrow> create_table E (later_run 3 D) (tb_display t @ '' (Copy '' @ millis @ '')'')
        (copy_name (tb_name t) (''_copy_'' @ millis)) st"
  have made: "?made t = Inr (new, st') \<Longrightarrow> sound_schema E st'" for t new st'
    using create_table_sound [OF blank sound] by (auto split: sum.splits)
  have copied: "sound_schema E st' \<Longrightarrow> copy_columns E D k n cs st' = (r, st'') \<Longrightarrow> sound_schema E st''" for st' k n cs r st''
    using copy_columns_sound [OF blank, of st' D k n cs] by simp
  show ?thesis
  proof (cases "find_table tid st")
    case (Inr t)
    show ?thesis
    proof (cases "?made t")
      case (Inr r)
      obtain new st1 where r: "r = (new, st1)" by (cases r)
      obtain x st2 where c: "copy_columns E D 6 (tb_id new) (list_columns tid st) st1 = (x, st2)" by fastforce
      have "sound_schema E st2" using copied [OF made c] Inr r by blast
      then show ?thesis using delete_table_sound [of E st2 D "tb_id new"]
        by (auto simp: duplicate_table_def \<open>find_table tid st = Inr t\<close> Inr r c split: option.split sum.split)
    qed (simp add: duplicate_table_def sound \<open>find_table tid st = Inr t\<close>)
  qed (simp add: duplicate_table_def sound)
qed

lemma update_column_sound:
  assumes blank: "\<And>s. trim_space s = [] \<Longrightarrow> fe_formula E s = None" and sound: "sound_schema E st"
  shows "sound_schema E (snd (update_column E D tid cid opts st))"
proof (cases "bind_r (update_checks E D tid cid opts st) (\<lambda>retype. bind_r (run_catalog D) (\<lambda>_. Inr retype))")
  case (Inr retype)
  have "sound_schema E (store_options tid cid opts st)"
  proof (rule sound_store [OF blank sound])
    fix c
    assume c: "uo_set_formula opts" "c \<in> set (columns_of tid st)" "co_id c = cid"
    have "find (\<lambda>c. co_id c = cid) (list_columns tid st) = Some d \<Longrightarrow> d = c" for d
    proof -
      assume "find (\<lambda>c. co_id c = cid) (list_columns tid st) = Some d"
      then have "d \<in> set (list_columns tid st)" "co_id d = cid" unfolding find_Some_iff by (metis nth_mem)+
      then show "d = c" using c sound_schemaD(3) [OF sound] inj_onD [of co_id "set (sm_columns st)" d c]
        by (simp add: distinct_map)
    qed
    then show "check_calculation E (list_columns tid st) cid (co_name c) (co_type c) (uo_formula opts) = Inr ()"
      using Inr c by (auto simp: update_checks_def prepare_calculation_change_def bind_r_Inr_iff split: option.splits)
  qed
  then show ?thesis unfolding update_column_def Inr by (auto simp: Let_def split: sum.split option.split)
qed (simp add: update_column_def sound)

text \<open>The service as a machine: an operation changes the catalog, whatever it reports.\<close>

datatype schema_op =
    CreateTable ddl_run string string
  | AddColumn ddl_run string column
  | UpdateColumn ddl_run string string column_options
  | DeleteColumn ddl_run string string
  | DeleteTable ddl_run string
  | RenameTable ddl_run string string
  | DuplicateTable ddl_run string string

definition after :: "schema_state \<Rightarrow> schema_error + schema_state \<Rightarrow> schema_state" where
  "after st r = (case r of Inl _ \<Rightarrow> st | Inr st \<Rightarrow> st)"

fun schema_step :: "field_env \<Rightarrow> schema_op \<Rightarrow> schema_state \<Rightarrow> schema_state" where
  "schema_step E (CreateTable D display custom) st = after st (bind_r (create_table E D display custom st) (\<lambda>(_, s). Inr s))"
| "schema_step E (AddColumn D tid col) st = after st (bind_r (add_column E D tid col st) (\<lambda>(_, s). Inr s))"
| "schema_step E (UpdateColumn D tid cid opts) st = snd (update_column E D tid cid opts st)"
| "schema_step E (DeleteColumn D tid cid) st = after st (delete_column E D tid cid st)"
| "schema_step E (DeleteTable D tid) st = after st (delete_table E D tid st)"
| "schema_step E (RenameTable D tid display) st = after st (rename_table D tid display st)"
| "schema_step E (DuplicateTable D millis tid) st = snd (duplicate_table E D millis tid st)"

lemma after_sound:
  "sound_schema E st \<Longrightarrow> (\<And>s. r = Inr s \<Longrightarrow> sound_schema E s) \<Longrightarrow> sound_schema E (after st r)"
  by (cases r) (simp_all add: after_def)

lemma schema_step_sound:
  assumes blank: "\<And>s. trim_space s = [] \<Longrightarrow> fe_formula E s = None" and sound: "sound_schema E st"
  shows "sound_schema E (schema_step E a st)"
proof (cases a)
  case (CreateTable D display custom)
  then show ?thesis using create_table_sound [OF blank sound, of D display custom]
    by (auto simp: bind_r_Inr_iff intro!: after_sound sound)
next
  case (AddColumn D tid col)
  then show ?thesis using add_column_sound [OF blank sound, of D tid col]
    by (auto simp: bind_r_Inr_iff intro!: after_sound sound)
next
  case (UpdateColumn D tid cid opts)
  then show ?thesis using update_column_sound [OF blank sound, of D tid cid opts] by simp
next
  case (DuplicateTable D millis tid)
  then show ?thesis using duplicate_table_sound [OF blank sound, of D millis tid] by simp
next
  case (DeleteColumn D tid cid)
  then show ?thesis using after_sound [OF sound delete_column_sound [OF sound]] by simp
next
  case (DeleteTable D tid)
  then show ?thesis using after_sound [OF sound delete_table_sound [OF sound]] by simp
next
  case (RenameTable D tid display)
  then show ?thesis using after_sound [OF sound rename_table_sound [OF sound]] by simp
qed

lemma empty_schema_sound: "sound_schema E \<lparr>sm_tables = [], sm_columns = [], sm_occurrences = []\<rparr>"
  by (simp add: sound_schema_def reads_of_def map_filter_simps calc_order_def calc_names_def)

lemma schema_run_sound:
  assumes "\<And>s. trim_space s = [] \<Longrightarrow> fe_formula E s = None"
  shows "sound_schema E st \<Longrightarrow> sound_schema E (fold (schema_step E) ops st)"
  by (induction ops arbitrary: st) (simp_all add: schema_step_sound [OF assms])

lemma first_free_from:
  "\<exists>i\<ge>index. first_free_from taken index = occurrence_position i \<and> occurrence_position i \<notin> set taken \<and>
     (\<forall>j. index \<le> j \<and> j < i \<longrightarrow> occurrence_position j \<in> set taken)"
proof (induction taken index rule: first_free_from.induct)
  case (1 taken index)
  show ?case
  proof (cases "occurrence_position index \<in> set taken")
    case True
    then obtain i where "i \<ge> Suc index" "first_free_from taken (Suc index) = occurrence_position i"
      "occurrence_position i \<notin> set taken" "\<forall>j. Suc index \<le> j \<and> j < i \<longrightarrow> occurrence_position j \<in> set taken"
      using 1 by blast
    then show ?thesis using True unfolding first_free_from.simps [of taken index]
      by (intro exI [of _ i]) (auto simp: Suc_le_eq nat_less_le)
  qed (auto simp: first_free_from.simps [of taken index])
qed

text \<open>The card of a new table lies on the first spot of the grid that no other card has.\<close>

lemma created_on_free_spot:
  assumes "create_table E D display custom st = Inr (t, st')"
  shows "\<exists>occ i. sm_occurrences st' = sm_occurrences st @ [occ] \<and> oc_table occ = tb_id t \<and>
    oc_position occ = occurrence_position i \<and> oc_position occ \<notin> oc_position ` set (sm_occurrences st) \<and>
    (\<forall>j<i. occurrence_position j \<in> oc_position ` set (sm_occurrences st))"
  using created_parts [OF assms] first_free_from [of 0 "map oc_position (sm_occurrences st)"]
  by (auto simp: created_def first_free_position_def)

section \<open>Copies of a table\<close>

definition remove_table :: "string \<Rightarrow> schema_state \<Rightarrow> schema_state" where
  "remove_table tid st =
     st\<lparr>sm_tables := filter (\<lambda>t. tb_id t \<noteq> tid) (sm_tables st),
        sm_columns := filter (\<lambda>c. co_table c \<noteq> tid) (sm_columns st),
        sm_occurrences := filter (\<lambda>u. oc_table u \<noteq> tid) (sm_occurrences st)\<rparr>"

text \<open>The foreign keys of the catalog.\<close>

definition sound_refs :: "schema_state \<Rightarrow> bool" where
  "sound_refs st \<longleftrightarrow> list_all (\<lambda>c. co_table c \<in> tb_id ` set (sm_tables st)) (sm_columns st) \<and>
     list_all (\<lambda>u. oc_table u \<in> tb_id ` set (sm_tables st)) (sm_occurrences st)"

text \<open>What a copy of a column has of it.\<close>

definition column_copy :: "(string \<Rightarrow> string) \<Rightarrow> column
    \<Rightarrow> string \<times> string \<times> field_type \<times> bool \<times> string option \<times> string option \<times> string option" where
  "column_copy g c = (g (co_name c), co_display c, co_type c, co_nullable c, co_default c, co_formula c, co_rules c)"

lemma remove_fresh: "sound_refs st \<Longrightarrow> tid \<notin> tb_id ` set (sm_tables st) \<Longrightarrow> remove_table tid st = st"
  unfolding remove_table_def sound_refs_def list_all_iff
  by (subst filter_True, force)+ simp

lemma later_run_simps [simp]: "dr_engine (later_run k D) = dr_engine D" "dr_failure (later_run k D) = dr_failure D"
  by (simp_all add: later_run_def)

lemma create_table_made:
  assumes "create_table E D display custom st = Inr (t, st')" and "sound_refs st"
  shows "tb_id t \<notin> tb_id ` set (sm_tables st)" and "remove_table (tb_id t) st' = st"
    and "map (column_copy (\<lambda>n. n)) (columns_of (tb_id t) st') = [(''id'', ''ID'', FieldText, False, None, None, None)]"
    and "t \<in> set (sm_tables st')" and "run_catalog D = Inr ()"
proof -
  obtain pk occ where st': "st' = st\<lparr>sm_tables := sm_tables st @ [t], sm_columns := sm_columns st @ [pk],
        sm_occurrences := sm_occurrences st @ [occ]\<rparr>"
      and new: "\<not> table_refused t pk occ st" and pk: "co_table pk = tb_id t" "oc_table occ = tb_id t"
        "column_copy (\<lambda>n. n) pk = (''id'', ''ID'', FieldText, False, None, None, None)"
      and cat: "run_catalog D = Inr ()"
    using created_parts [OF assms(1)] unfolding created_def by (auto simp: column_copy_def)
  show fresh: "tb_id t \<notin> tb_id ` set (sm_tables st)"
    using new by (auto simp: table_refused_def list_ex_iff)
  then show "remove_table (tb_id t) st' = st"
    using remove_fresh [OF assms(2) fresh] unfolding st' remove_table_def by (simp add: pk)
  have "columns_of (tb_id t) st = []"
    using assms(2) fresh unfolding sound_refs_def list_all_iff filter_empty_conv by metis
  then show "map (column_copy (\<lambda>n. n)) (columns_of (tb_id t) st') = [(''id'', ''ID'', FieldText, False, None, None, None)]"
    unfolding st' by (simp add: pk)
  show "t \<in> set (sm_tables st')" by (simp add: st')
  show "run_catalog D = Inr ()" by (rule cat)
qed

lemma add_column_made:
  assumes "add_column E D tid col st = Inr (c, st')"
  shows "st' = put_column c st" "co_table c = tid"
    "column_copy (\<lambda>n. n) c = column_copy (normalize_identifier (field_unicode E)) col"
  using assms by (auto simp: add_column_def Let_def bind_r_Inr_iff column_copy_def split: if_splits)

lemma copy_columns_made:
  assumes "copy_columns E D k tid cs st = (r, st')"
  shows "remove_table tid st' = remove_table tid st \<and> sm_tables st' = sm_tables st \<and>
    (r = None \<longrightarrow> map (column_copy (\<lambda>n. n)) (columns_of tid st') = map (column_copy (\<lambda>n. n)) (columns_of tid st) @
       map (column_copy (normalize_identifier (field_unicode E))) (filter (\<lambda>c. \<not> co_primary c) cs))"
  using assms
proof (induction cs arbitrary: k st)
  case (Cons c cs)
  show ?case
  proof (cases "co_primary c")
    case False
    show ?thesis
    proof (cases "add_column E (later_run k D) tid (c\<lparr>co_primary := False\<rparr>) st")
      case (Inr p)
      obtain d st1 where p: "p = (d, st1)" by (cases p)
      note made = add_column_made [OF Inr [unfolded p]]
      have "copy_columns E D (Suc k) tid cs st1 = (r, st')" using Cons.prems False Inr p by simp
      from Cons.IH [OF this] show ?thesis using made False
        by (auto simp: put_column_def remove_table_def column_copy_def)
    qed (use Cons.prems False in auto)
  next
    case True
    have "copy_columns E D k tid cs st = (r, st')" using Cons.prems True by simp
    from Cons.IH [OF this] show ?thesis using True by simp
  qed
qed simp

text \<open>Either a whole copy, or nothing.\<close>

lemma copy_removed:
  assumes "create_table E D display custom st = Inr (t, st1)" and "sound_refs st"
    and "copy_columns E D' k (tb_id t) cs st1 = (r, st2)" and "\<And>n. dr_engine D'' (''DROP TABLE IF EXISTS '' @ n) = None"
    and "dr_failure D'' = dr_failure D"
  shows "delete_table E D'' (tb_id t) st2 = Inr st" and "remove_table (tb_id t) st2 = st"
proof -
  note made = create_table_made [OF assms(1,2)] and copied = copy_columns_made [OF assms(3)]
  show gone: "remove_table (tb_id t) st2 = st" using made copied by simp
  have "\<exists>u. find (\<lambda>u. tb_id u = tb_id t) (sm_tables st2) = Some u"
    using made(4) copied by (metis (mono_tags, lifting) find_None_iff not_None_eq)
  then obtain u where "find_table (tb_id t) st2 = Inr u" by (auto simp: find_table_def)
  moreover have "run_catalog D'' = Inr ()" using made(5) assms(5) by (simp add: run_catalog_def)
  ultimately have "delete_table E D'' (tb_id t) st2 = Inr (remove_table (tb_id t) st2)"
    using assms(4) by (simp add: delete_table_def run_ddl_def remove_table_def)
  then show "delete_table E D'' (tb_id t) st2 = Inr st" using gone by simp
qed

section \<open>Witnesses\<close>

definition demo_field_env :: field_env where
  "demo_field_env = \<lparr>fe_calc = demo_env, fe_formula = (\<lambda>_. None), fe_rules = (\<lambda>_. None), fe_object = (\<lambda>_. True),
     fe_summary = (\<lambda>_. None), fe_legacy = (\<lambda>_. None), fe_dialect = postgres_dialect, fe_digest = (\<lambda>s. s),
     fe_less = (\<lambda>_ _. False)\<rparr>"

definition demo_run :: ddl_run where
  "demo_run = \<lparr>dr_engine = (\<lambda>_. None), dr_failure = None, dr_fresh = (\<lambda>n. replicate (Suc n) (CHR ''u'')), dr_now = 5\<rparr>"

definition demo_column :: "string \<Rightarrow> string \<Rightarrow> string \<Rightarrow> field_type \<Rightarrow> string option \<Rightarrow> column" where
  "demo_column cid tid name ft formula = \<lparr>co_id = cid, co_table = tid, co_name = name, co_display = name, co_type = ft,
     co_nullable = True, co_primary = False, co_default = None, co_formula = formula, co_rules = None, co_created = 0\<rparr>"

definition demo_schema :: schema_state where
  "demo_schema = \<lparr>sm_tables = [\<lparr>tb_id = ''t'', tb_name = ''people'', tb_display = ''People'', tb_created = 0\<rparr>],
     sm_columns = [demo_column ''c'' ''t'' ''x'' FieldNumber None],
     sm_occurrences = [\<lparr>oc_id = ''o'', oc_table = ''t'', oc_name = ''people'', oc_position = (100, 100)\<rparr>]\<rparr>"

lemma demo_schema_sound: "sound_schema demo_field_env demo_schema"
proof -
  have "\<exists>out. calc_order (reads_of demo_field_env (columns_of tid demo_schema)) = Inr out" for tid
    by (simp add: demo_schema_def demo_column_def reads_of_def map_filter_simps column_reads_def calc_order_def calc_names_def)
  then show ?thesis by (simp add: sound_schema_def demo_schema_def)
qed

definition demo_formula :: "string \<Rightarrow> schema_op" where
  "demo_formula raw = AddColumn demo_run ''t'' (demo_column [] [] ''y'' FieldCalculation (Some raw))"

lemma demo_formula_check: "check_calculation demo_field_env [demo_column ''c'' ''t'' ''x'' FieldNumber None] cid ''y'' FieldCalculation
    (Some ''abs(x)'') = Inr ()"
proof -
  have "saved_reads demo_field_env [demo_column ''c'' ''t'' ''x'' FieldNumber None] cid ''y''
      \<lparr>e_root = CallNode ''ABS'' [FieldNode ''x'' 4] 0, e_src = ''abs(x)''\<rparr> = [(''y'', [''x''])]"
    by (simp add: saved_reads_def column_reads_def demo_column_def map_filter_simps expr_fields_def)
  moreover have "trim_space ''abs(x)'' \<noteq> []" by (simp add: visible_def)
  moreover have "calc_order [(''y'', [''x''])] = Inr [''y'']"
    by (simp add: calc_order_def calc_names_def calc_deps_def)
  ultimately show ?thesis
    by (simp add: check_calculation_def read_calculation_def demo_field_env_def parse_abs_demo expr_fields_def demo_column_def)
qed

lemma demo_stored: "table_formulas ''people'' (schema_step demo_field_env (demo_formula ''abs(x)'') demo_schema) =
    [(''y'', ''abs(x)'')]"
proof -
  have name: "normalize_identifier ascii_only ''y'' = ''y''" "check_identifier ''column'' ''y'' = Inr ()"
    by (simp_all add: identifier_normalized matches_identifier_def lower_letter_def check_identifier_def max_identifier_length_def)
  have cols: "list_columns ''t'' demo_schema = [demo_column ''c'' ''t'' ''x'' FieldNumber None]"
    by (simp add: list_columns_def demo_schema_def demo_column_def)
  have uni: "field_unicode demo_field_env = ascii_only" by (simp add: field_unicode_def demo_field_env_def demo_env_def)
  have run: "run_ddl demo_run q = Inr ()" "run_catalog demo_run = Inr ()" for q
    by (simp_all add: run_ddl_def run_catalog_def demo_run_def)
  have sync: "sync_unique_index demo_field_env demo_run tbl f ft None = Inr ()" for tbl f ft
    by (simp add: sync_unique_index_def demo_field_env_def postgres_dialect_def run Let_def)
  have fresh: "dr_fresh demo_run 0 = ''u''" "dr_now demo_run = 5" by (simp_all add: demo_run_def)
  have tab: "find_table ''t'' demo_schema = Inr \<lparr>tb_id = ''t'', tb_name = ''people'', tb_display = ''People'', tb_created = 0\<rparr>"
    by (simp add: find_table_def demo_schema_def)
  have free: "co_id c = ''u'' \<Longrightarrow> co_name c = ''y'' \<Longrightarrow> \<not> column_refused c demo_schema" for c
    by (simp add: column_refused_def demo_schema_def demo_column_def)
  let ?c = "(demo_column ''u'' ''t'' ''y'' FieldCalculation (Some ''abs(x)''))\<lparr>co_created := 5\<rparr>"
  have "add_column demo_field_env demo_run ''t'' (demo_column [] [] ''y'' FieldCalculation (Some ''abs(x)'')) demo_schema =
      Inr (?c, put_column ?c demo_schema)"
    using demo_formula_check [of "''u''"]
    by (simp add: add_column_def Let_def uni name cols run sync fresh tab free wrap_schema_def
      validate_field_options_def parse_rules_def check_summary_def demo_column_def)
  then show ?thesis
    by (simp add: demo_formula_def after_def table_formulas_def formula_rows_def map_filter_simps put_column_def
      demo_column_def demo_schema_def)
qed

section \<open>Properties\<close>

text \<open>
  C17. Whatever tables and fields are created, changed, renamed, copied and deleted, the calculations of
  a table can be ordered: the data service never finds a ring of formulas. A formula that JSON reads is
  not blank.
\<close>

theorem formulas_never_ring:
  assumes "\<And>s. trim_space s = [] \<Longrightarrow> fe_formula E s = None" and "sound_schema E st"
  shows "sound_schema E (fold (schema_step E) ops st) \<and>
    (\<exists>cs. table_calculations (fe_calc E) (fe_formula E) (table_formulas name (fold (schema_step E) ops st)) = Inr cs)"
  using sound_table_calculations schema_run_sound [OF assms] by blast

theorem formulas_never_ring_witness:
  "\<exists>cs. table_calculations demo_env (\<lambda>_. None) [(''y'', ''abs(x)'')] = Inr cs"
proof -
  have "\<exists>cs. table_calculations demo_env (\<lambda>_. None)
      (table_formulas ''people'' (fold (schema_step demo_field_env) [demo_formula ''abs(x)''] demo_schema)) = Inr cs"
    using formulas_never_ring [of demo_field_env demo_schema "[demo_formula ''abs(x)'']" "''people''", OF _ demo_schema_sound]
    by (simp add: demo_field_env_def)
  then show ?thesis by (simp add: demo_stored)
qed



text \<open>
  C18. Duplicating a table leaves the catalog as it was when it fails, unless removing the copy fails too;
  when it succeeds, taking the new table away gives the old catalog, and its columns are the primary
  key and copies of all the others, in the order of their creation.
\<close>

theorem duplicate_all_or_nothing:
  assumes "sound_refs st" and "\<And>n. dr_engine D (''DROP TABLE IF EXISTS '' @ n) = None"
  shows "case duplicate_table E D millis tid st of
      (Inl _, st') \<Rightarrow> st' = st
    | (Inr t, st') \<Rightarrow> tb_id t \<notin> tb_id ` set (sm_tables st) \<and> remove_table (tb_id t) st' = st \<and>
        map (column_copy (\<lambda>n. n)) (columns_of (tb_id t) st') =
          (''id'', ''ID'', FieldText, False, None, None, None) #
          map (column_copy (normalize_identifier (field_unicode E))) (filter (\<lambda>c. \<not> co_primary c) (list_columns tid st))"
proof (cases "find_table tid st")
  case (Inr t)
  let ?made = "case create_table E D (tb_display t @ '' (Copy)'') (copy_name (tb_name t) ''_copy'') st of
      Inr r \<Rightarrow> Inr r
    | Inl _ \<Rightarrow> create_table E (later_run 3 D) (tb_display t @ '' (Copy '' @ millis @ '')'')
        (copy_name (tb_name t) (''_copy_'' @ millis)) st"
  show ?thesis
  proof (cases ?made)
    case (Inl e)
    then show ?thesis by (simp add: duplicate_table_def \<open>find_table tid st = Inr t\<close>)
  next
    case made: (Inr r)
    obtain new st1 where r: "r = (new, st1)" by (cases r)
    obtain D1 display custom where create: "create_table E D1 display custom st = Inr (new, st1)"
        "dr_failure D = dr_failure D1"
      using made r by (auto split: sum.splits)
    obtain x st2 where c: "copy_columns E D 6 (tb_id new) (list_columns tid st) st1 = (x, st2)" by fastforce
    note facts = create_table_made [OF create(1) assms(1)] copy_columns_made [OF c]
      copy_removed [OF create(1) assms(1) c assms(2) create(2)]
    show ?thesis
      using facts by (cases x) (simp_all add: duplicate_table_def \<open>find_table tid st = Inr t\<close> made r c)
  qed
qed (simp add: duplicate_table_def)

theorem duplicate_all_or_nothing_witness:
  "case duplicate_table demo_field_env demo_run ''7'' ''t'' demo_schema of
      (Inl _, st') \<Rightarrow> st' = demo_schema
    | (Inr t, st') \<Rightarrow> remove_table (tb_id t) st' = demo_schema"
proof -
  have "sound_refs demo_schema" by (simp add: sound_refs_def demo_schema_def demo_column_def)
  moreover have "dr_engine demo_run q = None" for q by (simp add: demo_run_def)
  ultimately show ?thesis
    using duplicate_all_or_nothing [of demo_schema demo_run demo_field_env "''t''" "''7''"]
    by (auto split: prod.splits sum.splits)
qed

end
